(* ===== verification/Relab_Prelude.thy ===== *)
theory Relab_Prelude
  imports Main "HOL-Library.Word" "HOL-Library.AList" "HOL-Library.Multiset" "HOL-Library.List_Lexorder" "HOL-Library.Char_ord"
begin

text \<open>
  Shared vocabulary of the ReLab development: the types that stand for Go's
  \<^verbatim>\<open>time.Time\<close>, \<^verbatim>\<open>time.Duration\<close> and \<^verbatim>\<open>uuid.UUID\<close>, the decimal printing that
  \<^verbatim>\<open>fmt.Sprint\<close> does, the table operations every SQL statement of the program is made of
  (\<open>sql_update\<close>, \<open>sql_count\<close>, \<open>order_by\<close>), and the facts about lists the
  components share.  The collections declared here are filled by the components:
  \<open>row_simps\<close> holds what each statement does to a table, \<open>status_simps\<close> the
  tables of the two state machines.
\<close>

named_theorems row_simps \<open>what a statement does to the rows of a table\<close>
named_theorems status_simps \<open>the transition tables and status predicates\<close>

section \<open>Types of the Go program\<close>

text \<open>
  A time is the number of nanoseconds since the Unix epoch, a duration a number of
  nanoseconds.  The zero \<^verbatim>\<open>time.Time\<close> is midnight of 1 January of year 1.  Identifiers are
  sixteen bytes the application never looks into.
\<close>

type_synonym time = int
type_synonym duration = int
type_synonym uuid = nat

definition zero_time :: time where
  "zero_time = - 62135596800000000000"

definition IsZero :: "time \<Rightarrow> bool" where
  "IsZero t \<longleftrightarrow> t = zero_time"

definition millisecond :: duration where "millisecond = 1000000"

definition second :: duration where "second = 1000 * millisecond"

text \<open>\<^verbatim>\<open>Duration.Milliseconds\<close> divides by a million, truncating towards zero as Go does.\<close>

definition Milliseconds :: "duration \<Rightarrow> int" where
  "Milliseconds d = sgn d * (\<bar>d\<bar> div millisecond)"

lemma Milliseconds_nonneg: "0 \<le> d \<Longrightarrow> Milliseconds d = d div millisecond"
  by (cases "d = 0") (simp_all add: Milliseconds_def millisecond_def sgn_if)

text \<open>\<^verbatim>\<open>Time.Sub\<close>: the difference, saturating at the ends of the 64-bit range.\<close>

definition time_sub :: "time \<Rightarrow> time \<Rightarrow> duration" where
  "time_sub a b = max (- (2 ^ 63)) (min (2 ^ 63 - 1) (a - b))"

section \<open>Decimal printing\<close>

definition digit :: "nat \<Rightarrow> char" where
  "digit n = char_of (48 + n mod 10)"

fun show_nat :: "nat \<Rightarrow> string" where
  "show_nat n = (if n < 10 then [digit n] else show_nat (n div 10) @ [digit n])"

declare show_nat.simps [simp del]

definition show_int :: "int \<Rightarrow> string" where
  "show_int i = (if i < 0 then CHR ''-'' # show_nat (nat (- i)) else show_nat (nat i))"

lemma digit_inj: "a < 10 \<Longrightarrow> b < 10 \<Longrightarrow> digit a = digit b \<Longrightarrow> a = b"
proof -
  assume a: "a < 10" and b: "b < 10" and eq: "digit a = digit b"
  then have "(of_char (char_of (48 + a mod 10)) :: nat) = of_char (char_of (48 + b mod 10))"
    by (simp add: digit_def)
  with a b show ?thesis by simp
qed

lemma show_nat_nonempty: "show_nat n \<noteq> []"
  by (subst show_nat.simps) simp

lemma show_nat_digits: "c \<in> set (show_nat n) \<Longrightarrow> \<exists>k<10. c = digit k"
proof (induction n rule: show_nat.induct)
  case (1 n)
  have d: "digit n = digit (n mod 10)" "n mod 10 < 10" by (simp_all add: digit_def)
  show ?case
  proof (cases "n < 10")
    case True
    with "1.prems" have "c = digit n" by (simp add: show_nat.simps [of n])
    with d show ?thesis by blast
  next
    case False
    with "1.prems" have "c \<in> set (show_nat (n div 10)) \<or> c = digit n"
      by (auto simp: show_nat.simps [of n])
    with "1.IH" [OF False] d show ?thesis by blast
  qed
qed

lemma show_nat_inj: "show_nat m = show_nat n \<Longrightarrow> m = n"
proof (induction m arbitrary: n rule: show_nat.induct)
  case (1 m)
  have dm: "digit k = digit (k mod 10)" for k by (simp add: digit_def)
  show ?case
  proof (cases "m < 10 \<or> n < 10")
    case True
    show ?thesis
    proof (cases "m < 10 \<and> n < 10")
      case True
      with "1.prems" have "digit m = digit n"
        by (simp add: show_nat.simps [of m] show_nat.simps [of n])
      with True show ?thesis by (intro digit_inj) auto
    next
      case False
      with True "1.prems" show ?thesis
        using show_nat_nonempty [of "m div 10"] show_nat_nonempty [of "n div 10"]
        by (auto simp: show_nat.simps [of m] show_nat.simps [of n] split: if_splits)
    qed
  next
    case False
    with "1.prems" have tl: "show_nat (m div 10) = show_nat (n div 10)" and "digit m = digit n"
      by (auto simp: show_nat.simps [of m] show_nat.simps [of n])
    then have "digit (m mod 10) = digit (n mod 10)" using dm by metis
    then have "m mod 10 = n mod 10" by (intro digit_inj) auto
    moreover have "m div 10 = n div 10" using "1.IH" tl False by auto
    ultimately show ?thesis by (metis div_mult_mod_eq)
  qed
qed

section \<open>Rows and tables\<close>

text \<open>
  A table is the list of its rows.  \<^verbatim>\<open>UPDATE t SET f WHERE c\<close> rewrites the rows that
  satisfy \<open>c\<close>; the number it reports (\<^verbatim>\<open>RowsAffected\<close>) is the number of those rows.
  \<^verbatim>\<open>ORDER BY k LIMIT n FOR UPDATE SKIP LOCKED\<close> takes the first \<open>n\<close> of the rows that no
  other transaction holds; which rows those are is an argument of every statement that
  uses the clause.
\<close>

definition sql_update :: "('r \<Rightarrow> bool) \<Rightarrow> ('r \<Rightarrow> 'r) \<Rightarrow> 'r list \<Rightarrow> 'r list" where
  "sql_update c f rs = map (\<lambda>r. if c r then f r else r) rs"

definition sql_count :: "('r \<Rightarrow> bool) \<Rightarrow> 'r list \<Rightarrow> int" where
  "sql_count c rs = int (length (filter c rs))"

definition order_by :: "('r \<Rightarrow> int) \<Rightarrow> 'r list \<Rightarrow> 'r list" where
  "order_by k rs = sort_key k rs"

definition skip_locked :: "('r \<Rightarrow> bool) \<Rightarrow> 'r list \<Rightarrow> 'r list" where
  "skip_locked locked rs = filter (\<lambda>r. \<not> locked r) rs"

lemma length_sql_update [simp]: "length (sql_update c f rs) = length rs"
  by (simp add: sql_update_def)

lemma sql_update_Nil [simp]: "sql_update c f [] = []"
  by (simp add: sql_update_def)

lemma sql_update_Cons [simp]:
  "sql_update c f (r # rs) = (if c r then f r else r) # sql_update c f rs"
  by (simp add: sql_update_def)

lemma sql_update_append [simp]:
  "sql_update c f (rs @ qs) = sql_update c f rs @ sql_update c f qs"
  by (simp add: sql_update_def)

lemma in_sql_update:
  "r \<in> set (sql_update c f rs) \<longleftrightarrow> (\<exists>q\<in>set rs. r = (if c q then f q else q))"
  by (auto simp: sql_update_def)

lemma map_sql_update:
  assumes "\<And>r. r \<in> set rs \<Longrightarrow> c r \<Longrightarrow> g (f r) = g r"
  shows "map g (sql_update c f rs) = map g rs"
  using assms by (auto simp: sql_update_def)

lemma sql_update_none: "(\<And>r. r \<in> set rs \<Longrightarrow> \<not> c r) \<Longrightarrow> sql_update c f rs = rs"
  by (auto simp: sql_update_def intro: map_idI)

lemma sql_count_zero [simp]: "sql_count c rs = 0 \<longleftrightarrow> (\<forall>r\<in>set rs. \<not> c r)"
  by (simp add: sql_count_def filter_empty_conv)

lemma sql_count_nonneg [simp]: "0 \<le> sql_count c rs"
  by (simp add: sql_count_def)

lemma sql_count_Nil [simp]: "sql_count c [] = 0"
  by (simp add: sql_count_def)

lemma sql_count_Cons [simp]: "sql_count c (r # rs) = (if c r then 1 else 0) + sql_count c rs"
  by (simp add: sql_count_def)

lemma sql_count_le: "sql_count c rs \<le> int (length rs)"
  by (simp add: sql_count_def)

lemma sql_count_all: "sql_count c rs = int (length rs) \<longleftrightarrow> (\<forall>r\<in>set rs. c r)"
  using sum_length_filter_compl [of c rs] by (auto simp: sql_count_def filter_empty_conv)

lemma set_order_by [simp]: "set (order_by k rs) = set rs"
  by (simp add: order_by_def)

lemma distinct_order_by [simp]: "distinct (map g (order_by k rs)) = distinct (map g rs)"
  by (metis order_by_def mset_map mset_sort mset_eq_imp_distinct_iff)

lemma set_skip_locked [simp]: "set (skip_locked l rs) = {r \<in> set rs. \<not> l r}"
  by (auto simp: skip_locked_def)

lemma distinct_map_filter_take: "distinct (map g xs) \<Longrightarrow> distinct (map g (take n (filter P xs)))"
  by (metis distinct_map_filter distinct_take take_map)

section \<open>Lookup by key\<close>

text \<open>
  A lookup by primary key is \<open>find\<close> on the key.  Where keys are unique, it returns the
  row that is in the table.
\<close>

lemma find_key_Some: "find (\<lambda>r. k r = x) rs = Some r \<Longrightarrow> r \<in> set rs \<and> k r = x"
  by (auto simp: find_Some_iff)

lemma find_key_None: "find (\<lambda>r. k r = x) rs = None \<longleftrightarrow> x \<notin> k ` set rs"
  by (auto simp: find_None_iff)

lemma find_key_in:
  assumes "distinct (map k rs)" and "r \<in> set rs"
  shows "find (\<lambda>q. k q = k r) rs = Some r"
  using assms by (induction rs) (auto simp: rev_image_eqI)

lemma distinct_key_eq: "distinct (map k rs) \<Longrightarrow> r \<in> set rs \<Longrightarrow> q \<in> set rs \<Longrightarrow> k r = k q \<Longrightarrow> r = q"
  by (auto simp: distinct_map inj_on_def)

lemma find_sql_update:
  assumes "\<And>r. r \<in> set rs \<Longrightarrow> c r \<Longrightarrow> k (f r) = k r"
  shows "find (\<lambda>r. k r = x) (sql_update c f rs) =
    map_option (\<lambda>r. if c r then f r else r) (find (\<lambda>r. k r = x) rs)"
  using assms by (induction rs) auto

lemma find_snoc: "find P (xs @ [x]) = (case find P xs of Some y \<Rightarrow> Some y | None \<Rightarrow> if P x then Some x else None)"
  by (induction xs) auto

end
