(* ===== verification/Relab_State.thy ===== *)
theory Relab_State
  imports Relab_Prelude
begin

text \<open>
  The run and task state machines of \<^verbatim>\<open>internal/engine/state.go\<close>: the two status types,
  their text form in the database, the transition tables, the predicates read off them and
  \<open>Transition\<close>, which validates a change and reports an illegal one.
\<close>

section \<open>Statuses\<close>

datatype run_status = RunCreated | RunQueued | RunRunning | RunSucceeded | RunFailed | RunCancelled

datatype task_status =
    TaskPending | TaskReady | TaskLeased | TaskRunning
  | TaskSucceeded | TaskFailed | TaskRetrying | TaskDead

fun RunStatus_String :: "run_status \<Rightarrow> string" where
  "RunStatus_String RunCreated = ''CREATED''"
| "RunStatus_String RunQueued = ''QUEUED''"
| "RunStatus_String RunRunning = ''RUNNING''"
| "RunStatus_String RunSucceeded = ''SUCCEEDED''"
| "RunStatus_String RunFailed = ''FAILED''"
| "RunStatus_String RunCancelled = ''CANCELLED''"

fun TaskStatus_String :: "task_status \<Rightarrow> string" where
  "TaskStatus_String TaskPending = ''PENDING''"
| "TaskStatus_String TaskReady = ''READY''"
| "TaskStatus_String TaskLeased = ''LEASED''"
| "TaskStatus_String TaskRunning = ''RUNNING''"
| "TaskStatus_String TaskSucceeded = ''SUCCEEDED''"
| "TaskStatus_String TaskFailed = ''FAILED''"
| "TaskStatus_String TaskRetrying = ''RETRYING''"
| "TaskStatus_String TaskDead = ''DEAD''"

fun RunStatus_Terminal :: "run_status \<Rightarrow> bool" where
  "RunStatus_Terminal RunSucceeded = True"
| "RunStatus_Terminal RunFailed = True"
| "RunStatus_Terminal RunCancelled = True"
| "RunStatus_Terminal _ = False"

fun TaskStatus_Terminal :: "task_status \<Rightarrow> bool" where
  "TaskStatus_Terminal TaskSucceeded = True"
| "TaskStatus_Terminal TaskDead = True"
| "TaskStatus_Terminal _ = False"

definition Holds :: "task_status \<Rightarrow> bool" where
  "Holds s \<longleftrightarrow> s = TaskLeased \<or> s = TaskRunning"

section \<open>Transition tables\<close>

fun runTransitions :: "run_status \<Rightarrow> run_status list" where
  "runTransitions RunCreated = [RunQueued, RunCancelled]"
| "runTransitions RunQueued = [RunRunning, RunSucceeded, RunFailed, RunCancelled]"
| "runTransitions RunRunning = [RunSucceeded, RunFailed, RunCancelled]"
| "runTransitions RunSucceeded = []"
| "runTransitions RunFailed = []"
| "runTransitions RunCancelled = []"

fun taskTransitions :: "task_status \<Rightarrow> task_status list" where
  "taskTransitions TaskPending = [TaskReady, TaskFailed, TaskDead]"
| "taskTransitions TaskReady = [TaskLeased, TaskDead]"
| "taskTransitions TaskLeased = [TaskRunning, TaskReady, TaskFailed, TaskDead]"
| "taskTransitions TaskRunning = [TaskSucceeded, TaskFailed, TaskReady, TaskDead]"
| "taskTransitions TaskFailed = [TaskRetrying, TaskDead]"
| "taskTransitions TaskRetrying = [TaskReady, TaskDead]"
| "taskTransitions TaskSucceeded = []"
| "taskTransitions TaskDead = []"

text \<open>
  The Go methods loop over the allowed states and return at the first match; an
  \<open>IllegalTransitionError\<close> carries the kind, the two states and the allowed ones.
\<close>

datatype illegal_transition = IllegalTransitionError string string string "string list"

fun RunStatus_CanTransition :: "run_status \<Rightarrow> run_status \<Rightarrow> bool" where
  "RunStatus_CanTransition s to = List.member (runTransitions s) to"

fun TaskStatus_CanTransition :: "task_status \<Rightarrow> task_status \<Rightarrow> bool" where
  "TaskStatus_CanTransition s to = List.member (taskTransitions s) to"

definition stringsOfRun :: "run_status list \<Rightarrow> string list" where
  "stringsOfRun ss = map RunStatus_String ss"

definition stringsOfTask :: "task_status list \<Rightarrow> string list" where
  "stringsOfTask ss = map TaskStatus_String ss"

definition RunStatus_Transition :: "run_status \<Rightarrow> run_status \<Rightarrow> illegal_transition option" where
  "RunStatus_Transition s to =
     (if \<not> RunStatus_CanTransition s to
      then Some (IllegalTransitionError ''run'' (RunStatus_String s) (RunStatus_String to)
                   (stringsOfRun (runTransitions s)))
      else None)"

definition TaskStatus_Transition :: "task_status \<Rightarrow> task_status \<Rightarrow> illegal_transition option" where
  "TaskStatus_Transition s to =
     (if \<not> TaskStatus_CanTransition s to
      then Some (IllegalTransitionError ''task'' (TaskStatus_String s) (TaskStatus_String to)
                   (stringsOfTask (taskTransitions s)))
      else None)"

text \<open>
  A status read back from the database is text; \<open>Valid\<close> looks it up among the keys of
  the transition table.
\<close>

definition run_statuses :: "run_status list" where
  "run_statuses = [RunCreated, RunQueued, RunRunning, RunSucceeded, RunFailed, RunCancelled]"

definition task_statuses :: "task_status list" where
  "task_statuses = [TaskPending, TaskReady, TaskLeased, TaskRunning, TaskFailed, TaskRetrying,
                    TaskSucceeded, TaskDead]"

definition RunStatus_Valid :: "string \<Rightarrow> bool" where
  "RunStatus_Valid s \<longleftrightarrow> s \<in> set (map RunStatus_String run_statuses)"

definition TaskStatus_Valid :: "string \<Rightarrow> bool" where
  "TaskStatus_Valid s \<longleftrightarrow> s \<in> set (map TaskStatus_String task_statuses)"

section \<open>Facts about the machines\<close>

lemma RunStatus_String_inj [simp]: "RunStatus_String a = RunStatus_String b \<longleftrightarrow> a = b"
  by (cases a; cases b) simp_all

lemma TaskStatus_String_inj [simp]: "TaskStatus_String a = TaskStatus_String b \<longleftrightarrow> a = b"
  by (cases a; cases b) simp_all

lemma RunStatus_Terminal_iff [status_simps]:
  "RunStatus_Terminal s \<longleftrightarrow> s = RunSucceeded \<or> s = RunFailed \<or> s = RunCancelled"
  by (cases s) simp_all

lemma TaskStatus_Terminal_iff [status_simps]:
  "TaskStatus_Terminal s \<longleftrightarrow> s = TaskSucceeded \<or> s = TaskDead"
  by (cases s) simp_all

lemma Transition_legal [simp]:
  "TaskStatus_Transition TaskFailed TaskRetrying = None"
  "TaskStatus_Transition TaskFailed TaskDead = None"
  "RunStatus_Transition RunCreated RunQueued = None"
  by (simp_all add: TaskStatus_Transition_def RunStatus_Transition_def)

lemma Transition_held_ready: "Holds s \<Longrightarrow> TaskStatus_Transition s TaskReady = None"
  by (auto simp: Holds_def TaskStatus_Transition_def)

text \<open>The machines as step relations, for reasoning about whole lifecycles.\<close>

inductive task_step :: "task_status \<Rightarrow> task_status \<Rightarrow> bool" where
  move: "TaskStatus_Transition s t = None \<Longrightarrow> task_step s t"

inductive run_step :: "run_status \<Rightarrow> run_status \<Rightarrow> bool" where
  move: "RunStatus_Transition s t = None \<Longrightarrow> run_step s t"

inductive_simps task_step_iff: "task_step s t"
inductive_simps run_step_iff: "run_step s t"

lemma task_step_table: "task_step s t \<longleftrightarrow> t \<in> set (taskTransitions s)"
  by (simp add: task_step_iff TaskStatus_Transition_def)

lemma run_step_table: "run_step s t \<longleftrightarrow> t \<in> set (runTransitions s)"
  by (simp add: run_step_iff RunStatus_Transition_def)

lemma task_step_into:
  "task_step s TaskSucceeded \<Longrightarrow> s = TaskRunning"
  "task_step s TaskRunning \<Longrightarrow> s = TaskLeased"
  "task_step s TaskLeased \<Longrightarrow> s = TaskReady"
  by (cases s; simp add: task_step_table)+

text \<open>
  A list of statuses is a lifecycle when each is a legal step from the one before it.
\<close>

fun lifecycle :: "task_status list \<Rightarrow> bool" where
  "lifecycle [] = True"
| "lifecycle [s] = True"
| "lifecycle (s # t # ss) = (task_step s t \<and> lifecycle (t # ss))"

lemma lifecycle_snoc2: "lifecycle (ss @ [s, t]) \<longleftrightarrow> lifecycle (ss @ [s]) \<and> task_step s t"
  by (induction ss rule: lifecycle.induct) auto

lemma lifecycle_butlast: "lifecycle (ss @ [s]) \<Longrightarrow> lifecycle ss"
proof (cases ss rule: rev_cases)
  case (snoc us u)
  then show "lifecycle (ss @ [s]) \<Longrightarrow> lifecycle ss" by (simp add: lifecycle_snoc2)
qed simp

lemma lifecycle_pred:
  assumes life: "lifecycle (s # ss)" and mem: "t \<in> set (s # ss)" and ne: "t \<noteq> s"
    and into: "\<And>u. task_step u t \<Longrightarrow> u = p"
  shows "p \<in> set (s # ss)"
  using life mem ne
proof (induction ss arbitrary: s)
  case Nil
  then show ?case by simp
next
  case (Cons u us)
  show ?case
  proof (cases "t = u")
    case True
    with Cons.prems into show ?thesis by auto
  next
    case False
    with Cons show ?thesis by auto
  qed
qed

end
