(* ===== verification/Relab_Json.thy ===== *)
theory Relab_Json
  imports Relab_Prelude
begin

text \<open>
  JSON values and the part of \<^verbatim>\<open>encoding/json\<close> the event payloads use.  A value is the tree
  a parser returns: \<open>JNum\<close> is an integer literal, \<open>JFrac\<close> any other number literal,
  \<open>JTime\<close> a string in the RFC 3339 form \<^verbatim>\<open>time.Time\<close> marshals to, \<open>JStr\<close> any other
  string.  Unmarshalling into a struct field follows the library: a missing key and a
  \<^verbatim>\<open>null\<close> leave the field's zero value, a value of the wrong kind or an integer outside
  64 bits is an error, and keys match field names up to case, the last match winning.
\<close>

section \<open>Values\<close>

datatype json =
    JNull
  | JBool bool
  | JNum int
  | JFrac string
  | JStr string
  | JTime time
  | JArr "json list"
  | JObj "(string \<times> json) list"

definition lower_char :: "char \<Rightarrow> char" where
  "lower_char c =
     (if 65 \<le> (of_char c :: nat) \<and> (of_char c :: nat) \<le> 90 then char_of ((of_char c :: nat) + 32) else c)"

definition ToLower :: "string \<Rightarrow> string" where
  "ToLower s = map lower_char s"

text \<open>The value a struct field of the given tag receives from an object's members.\<close>

fun field :: "(string \<times> json) list \<Rightarrow> string \<Rightarrow> json option" where
  "field [] k = None"
| "field ((k', v) # ms) k =
     (case field ms k of Some w \<Rightarrow> Some w
      | None \<Rightarrow> if ToLower k' = k then Some v else None)"

section \<open>Unmarshalling one field\<close>

definition in_int64 :: "int \<Rightarrow> bool" where
  "in_int64 i \<longleftrightarrow> - (2 ^ 63) \<le> i \<and> i < 2 ^ 63"

fun dec_int :: "json option \<Rightarrow> int option" where
  "dec_int None = Some 0"
| "dec_int (Some JNull) = Some 0"
| "dec_int (Some (JNum i)) = (if in_int64 i then Some i else None)"
| "dec_int (Some _) = None"

fun dec_str :: "json option \<Rightarrow> string option" where
  "dec_str None = Some []"
| "dec_str (Some JNull) = Some []"
| "dec_str (Some (JStr s)) = Some s"
| "dec_str (Some _) = None"

fun dec_bool :: "json option \<Rightarrow> bool option" where
  "dec_bool None = Some False"
| "dec_bool (Some JNull) = Some False"
| "dec_bool (Some (JBool b)) = Some b"
| "dec_bool (Some _) = None"

fun dec_time :: "json option \<Rightarrow> time option" where
  "dec_time None = Some zero_time"
| "dec_time (Some JNull) = Some zero_time"
| "dec_time (Some (JTime t)) = Some t"
| "dec_time (Some _) = None"

fun dec_list :: "(json \<Rightarrow> 'a option) \<Rightarrow> json list \<Rightarrow> 'a list option" where
  "dec_list f [] = Some []"
| "dec_list f (v # vs) =
     (case f v of None \<Rightarrow> None
      | Some x \<Rightarrow> (case dec_list f vs of None \<Rightarrow> None | Some xs \<Rightarrow> Some (x # xs)))"

fun dec_slice :: "(json \<Rightarrow> 'a option) \<Rightarrow> json option \<Rightarrow> 'a list option" where
  "dec_slice f None = Some []"
| "dec_slice f (Some JNull) = Some []"
| "dec_slice f (Some (JArr vs)) = dec_list f vs"
| "dec_slice f (Some _) = None"

text \<open>A \<^verbatim>\<open>json.RawMessage\<close> takes whatever value is there; absent is the nil message.\<close>

definition dec_raw :: "json option \<Rightarrow> json option option" where
  "dec_raw v = Some v"

section \<open>Marshalling\<close>

text \<open>
  A member tagged \<^verbatim>\<open>omitempty\<close> is left out when its value is empty.  Marshalling a
  \<^verbatim>\<open>map[string]json.RawMessage\<close> writes the members in key order.
\<close>

definition omit_str :: "string \<Rightarrow> string \<Rightarrow> (string \<times> json) list" where
  "omit_str k s = (if s = [] then [] else [(k, JStr s)])"

definition omit_slice :: "string \<Rightarrow> json list \<Rightarrow> (string \<times> json) list" where
  "omit_slice k vs = (if vs = [] then [] else [(k, JArr vs)])"

definition omit_raw :: "string \<Rightarrow> json option \<Rightarrow> (string \<times> json) list" where
  "omit_raw k v = (case v of None \<Rightarrow> [] | Some j \<Rightarrow> [(k, j)])"

definition marshal_map :: "(string \<times> json) list \<Rightarrow> json" where
  "marshal_map ms = JObj (sort_key fst ms)"

section \<open>Facts\<close>

lemma dec_list_map:
  "(\<And>x. x \<in> set xs \<Longrightarrow> f (g x) = Some x) \<Longrightarrow> dec_list f (map g xs) = Some xs"
  by (induction xs) auto

lemma field_append:
  "field (xs @ ys) k = (case field ys k of Some w \<Rightarrow> Some w | None \<Rightarrow> field xs k)"
  by (induction xs k rule: field.induct) (auto split: option.splits)

lemma field_None: "field ms k = None \<longleftrightarrow> k \<notin> ToLower ` fst ` set ms"
  by (induction ms k rule: field.induct) (auto split: option.splits)

lemma field_SomeD: "field ms k = Some v \<Longrightarrow> \<exists>k'. (k', v) \<in> set ms \<and> ToLower k' = k"
  by (induction ms k rule: field.induct) (auto split: option.splits if_splits)

lemma field_mem:
  assumes "distinct (map (ToLower \<circ> fst) ms)" and "(k', v) \<in> set ms" and "ToLower k' = k"
  shows "field ms k = Some v"
proof (cases "field ms k")
  case None
  with assms(2,3) show ?thesis by (force simp: field_None image_iff)
next
  case (Some w)
  then obtain k'' where w: "(k'', w) \<in> set ms" "ToLower k'' = k" by (auto dest: field_SomeD)
  then have "(k'', w) = (k', v)"
    using distinct_key_eq [OF assms(1) w(1) assms(2)] assms(3) by simp
  with Some show ?thesis by simp
qed

text \<open>Reordering members whose keys are distinct up to case changes no field.\<close>

lemma field_sort:
  assumes "distinct (map (ToLower \<circ> fst) ms)"
  shows "field (sort_key fst ms) k = field ms k"
proof (cases "field ms k")
  case None
  then have "field (sort_key fst ms) k = None" by (simp add: field_None)
  with None show ?thesis by simp
next
  case (Some v)
  then obtain k' where v: "(k', v) \<in> set ms" "ToLower k' = k" by (auto dest: field_SomeD)
  have "mset (map (ToLower \<circ> fst) (sort_key fst ms)) = mset (map (ToLower \<circ> fst) ms)" by simp
  with assms have "distinct (map (ToLower \<circ> fst) (sort_key fst ms))"
    by (metis mset_eq_imp_distinct_iff)
  with v show ?thesis using Some by (simp add: field_mem)
qed

end
