(* ===== verification/Relab_Event.thy ===== *)
theory Relab_Event
  imports Relab_Json
begin

text \<open>
  Event types and payloads of \<^verbatim>\<open>internal/event\<close> (\<^verbatim>\<open>type.go\<close>, \<^verbatim>\<open>payload.go\<close>): the closed
  set of types, which of them end a run, the body each one carries, and the versioned
  encoding the journal stores.
\<close>

section \<open>Event types\<close>

text \<open>\<open>EOther\<close> is a text in the \<^verbatim>\<open>type\<close> column that names no type of this build.\<close>

datatype etype =
    ERunCreated | ERunQueued | ERunStarted | ERunSucceeded | ERunFailed | ERunCancelled
  | ETaskScheduled | ETaskLeased | ETaskStarted | ETaskSucceeded | ETaskFailed
  | ETaskRetryScheduled | ETaskLeaseExpired | ETaskRequeued | ETaskDeadLettered
  | EWorkerRegistered | EWorkerHeartbeat | EWorkerSuspect | EWorkerLost
  | EFaultInjected | ESideEffectSkipped
  | EOther string

definition knownTypes :: "etype list" where
  "knownTypes =
    [ERunCreated, ERunQueued, ERunStarted, ERunSucceeded, ERunFailed, ERunCancelled,
     ETaskScheduled, ETaskLeased, ETaskStarted, ETaskSucceeded, ETaskFailed, ETaskRetryScheduled,
     ETaskLeaseExpired, ETaskRequeued, ETaskDeadLettered,
     EWorkerRegistered, EWorkerHeartbeat, EWorkerSuspect, EWorkerLost,
     EFaultInjected, ESideEffectSkipped]"

definition Known :: "etype \<Rightarrow> bool" where
  "Known t \<longleftrightarrow> t \<in> set knownTypes"

fun Type_String :: "etype \<Rightarrow> string" where
  "Type_String ERunCreated = ''RUN_CREATED''"
| "Type_String ERunQueued = ''RUN_QUEUED''"
| "Type_String ERunStarted = ''RUN_STARTED''"
| "Type_String ERunSucceeded = ''RUN_SUCCEEDED''"
| "Type_String ERunFailed = ''RUN_FAILED''"
| "Type_String ERunCancelled = ''RUN_CANCELLED''"
| "Type_String ETaskScheduled = ''TASK_SCHEDULED''"
| "Type_String ETaskLeased = ''TASK_LEASED''"
| "Type_String ETaskStarted = ''TASK_STARTED''"
| "Type_String ETaskSucceeded = ''TASK_SUCCEEDED''"
| "Type_String ETaskFailed = ''TASK_FAILED''"
| "Type_String ETaskRetryScheduled = ''TASK_RETRY_SCHEDULED''"
| "Type_String ETaskLeaseExpired = ''TASK_LEASE_EXPIRED''"
| "Type_String ETaskRequeued = ''TASK_REQUEUED''"
| "Type_String ETaskDeadLettered = ''TASK_DEAD_LETTERED''"
| "Type_String EWorkerRegistered = ''WORKER_REGISTERED''"
| "Type_String EWorkerHeartbeat = ''WORKER_HEARTBEAT''"
| "Type_String EWorkerSuspect = ''WORKER_SUSPECT''"
| "Type_String EWorkerLost = ''WORKER_LOST''"
| "Type_String EFaultInjected = ''FAULT_INJECTED''"
| "Type_String ESideEffectSkipped = ''SIDE_EFFECT_SKIPPED''"
| "Type_String (EOther s) = s"

text \<open>\<^verbatim>\<open>Type(typ)\<close>: the type a text read from the table names.\<close>

definition Type_of_text :: "string \<Rightarrow> etype" where
  "Type_of_text s =
     (case find (\<lambda>t. Type_String t = s) knownTypes of Some t \<Rightarrow> t | None \<Rightarrow> EOther s)"

fun Terminal :: "etype \<Rightarrow> bool" where
  "Terminal ERunSucceeded = True"
| "Terminal ERunFailed = True"
| "Terminal ERunCancelled = True"
| "Terminal _ = False"

section \<open>Payloads\<close>

record artifact_ref =
  ar_Name :: string
  ar_SHA256 :: string
  ar_Size :: int
  ar_ContentType :: string

datatype payload =
    RunCreatedPayload (WorkflowName: string) (WorkflowVersion: int) (DefinitionHash: string)
      (ScenarioName: string) (ScenarioHash: string) (Seed: int) (CorrelationID: string)
  | RunQueuedPayload (TaskCount: int)
  | RunStartedPayload
  | RunSucceededPayload (TasksSucceeded: int)
  | RunFailedPayload (Reason: string) (Detail: string)
  | RunCancelledPayload (Reason: string)
  | TaskScheduledPayload (Attempt: int) (ScheduledAt: time) (DependsOn: "string list")
  | TaskLeasedPayload (Attempt: int) (LeaseExpiresAt: time)
  | TaskStartedPayload (Attempt: int) (Handler: string)
  | TaskSucceededPayload (Attempt: int) (DurationMS: int) (Output: "json option")
      (Artifacts: "artifact_ref list")
  | TaskFailedPayload (Attempt: int) (DurationMS: int) (Error: string) (Retryable: bool)
  | TaskRetryScheduledPayload (Attempt: int) (NextAttempt: int) (DelayMS: int) (RunAt: time)
  | TaskLeaseExpiredPayload (Attempt: int) (LeaseExpiredAt: time)
  | TaskRequeuedPayload (Attempt: int) (NextAttempt: int) (Reason: string)
  | TaskDeadLetteredPayload (Attempts: int) (Reason: string)
  | WorkerRegisteredPayload (Hostname: string) (Version: string) (Capacity: int)
  | WorkerHeartbeatPayload (ActiveTasks: int)
  | WorkerSuspectPayload (MissedBeats: int)
  | WorkerLostPayload (MissedBeats: int) (LeasesReleased: int)
  | FaultInjectedPayload (FaultType: string) (FaultPoint: string) (Scenario: string) (Seed: int)
      (Draw: int) (Params: "json option")
  | SideEffectSkippedPayload (IdempotencyKey: string) (Attempt: int) (FirstAttempt: int)

fun Payload_Type :: "payload \<Rightarrow> etype" where
  "Payload_Type (RunCreatedPayload _ _ _ _ _ _ _) = ERunCreated"
| "Payload_Type (RunQueuedPayload _) = ERunQueued"
| "Payload_Type RunStartedPayload = ERunStarted"
| "Payload_Type (RunSucceededPayload _) = ERunSucceeded"
| "Payload_Type (RunFailedPayload _ _) = ERunFailed"
| "Payload_Type (RunCancelledPayload _) = ERunCancelled"
| "Payload_Type (TaskScheduledPayload _ _ _) = ETaskScheduled"
| "Payload_Type (TaskLeasedPayload _ _) = ETaskLeased"
| "Payload_Type (TaskStartedPayload _ _) = ETaskStarted"
| "Payload_Type (TaskSucceededPayload _ _ _ _) = ETaskSucceeded"
| "Payload_Type (TaskFailedPayload _ _ _ _) = ETaskFailed"
| "Payload_Type (TaskRetryScheduledPayload _ _ _ _) = ETaskRetryScheduled"
| "Payload_Type (TaskLeaseExpiredPayload _ _) = ETaskLeaseExpired"
| "Payload_Type (TaskRequeuedPayload _ _ _) = ETaskRequeued"
| "Payload_Type (TaskDeadLetteredPayload _ _) = ETaskDeadLettered"
| "Payload_Type (WorkerRegisteredPayload _ _ _) = EWorkerRegistered"
| "Payload_Type (WorkerHeartbeatPayload _) = EWorkerHeartbeat"
| "Payload_Type (WorkerSuspectPayload _) = EWorkerSuspect"
| "Payload_Type (WorkerLostPayload _ _) = EWorkerLost"
| "Payload_Type (FaultInjectedPayload _ _ _ _ _ _) = EFaultInjected"
| "Payload_Type (SideEffectSkippedPayload _ _ _) = ESideEffectSkipped"

section \<open>Encoding\<close>

definition marshal_artifact :: "artifact_ref \<Rightarrow> json" where
  "marshal_artifact a =
     JObj [(''name'', JStr (ar_Name a)), (''sha256'', JStr (ar_SHA256 a)),
           (''size'', JNum (ar_Size a)), (''content_type'', JStr (ar_ContentType a))]"

fun marshal_payload :: "payload \<Rightarrow> (string \<times> json) list" where
  "marshal_payload (RunCreatedPayload n ver h sc sh seed c) =
     [(''workflow_name'', JStr n), (''workflow_version'', JNum ver), (''definition_hash'', JStr h)]
     @ omit_str ''scenario_name'' sc @ omit_str ''scenario_hash'' sh
     @ [(''seed'', JNum seed)] @ omit_str ''correlation_id'' c"
| "marshal_payload (RunQueuedPayload n) = [(''task_count'', JNum n)]"
| "marshal_payload RunStartedPayload = []"
| "marshal_payload (RunSucceededPayload n) = [(''tasks_succeeded'', JNum n)]"
| "marshal_payload (RunFailedPayload r d) = (''reason'', JStr r) # omit_str ''detail'' d"
| "marshal_payload (RunCancelledPayload r) = omit_str ''reason'' r"
| "marshal_payload (TaskScheduledPayload a t ds) =
     [(''attempt'', JNum a), (''scheduled_at'', JTime t)] @ omit_slice ''depends_on'' (map JStr ds)"
| "marshal_payload (TaskLeasedPayload a t) = [(''attempt'', JNum a), (''lease_expires_at'', JTime t)]"
| "marshal_payload (TaskStartedPayload a h) = [(''attempt'', JNum a), (''handler'', JStr h)]"
| "marshal_payload (TaskSucceededPayload a d out arts) =
     [(''attempt'', JNum a), (''duration_ms'', JNum d)] @ omit_raw ''output'' out
     @ omit_slice ''artifacts'' (map marshal_artifact arts)"
| "marshal_payload (TaskFailedPayload a d e r) =
     [(''attempt'', JNum a), (''duration_ms'', JNum d), (''error'', JStr e), (''retryable'', JBool r)]"
| "marshal_payload (TaskRetryScheduledPayload a n d t) =
     [(''attempt'', JNum a), (''next_attempt'', JNum n), (''delay_ms'', JNum d), (''run_at'', JTime t)]"
| "marshal_payload (TaskLeaseExpiredPayload a t) =
     [(''attempt'', JNum a), (''lease_expired_at'', JTime t)]"
| "marshal_payload (TaskRequeuedPayload a n r) =
     [(''attempt'', JNum a), (''next_attempt'', JNum n), (''reason'', JStr r)]"
| "marshal_payload (TaskDeadLetteredPayload a r) = [(''attempts'', JNum a), (''reason'', JStr r)]"
| "marshal_payload (WorkerRegisteredPayload h ver c) =
     [(''hostname'', JStr h), (''version'', JStr ver), (''capacity'', JNum c)]"
| "marshal_payload (WorkerHeartbeatPayload n) = [(''active_tasks'', JNum n)]"
| "marshal_payload (WorkerSuspectPayload n) = [(''missed_beats'', JNum n)]"
| "marshal_payload (WorkerLostPayload m l) =
     [(''missed_beats'', JNum m), (''leases_released'', JNum l)]"
| "marshal_payload (FaultInjectedPayload t p sc seed d ps) =
     [(''fault_type'', JStr t), (''fault_point'', JStr p), (''scenario'', JStr sc),
      (''seed'', JNum seed), (''draw'', JNum d)] @ omit_raw ''params'' ps"
| "marshal_payload (SideEffectSkippedPayload k a f) =
     [(''idempotency_key'', JStr k), (''attempt'', JNum a), (''first_attempt'', JNum f)]"

definition PayloadVersion :: int where
  "PayloadVersion = 1"

definition Encode :: "payload \<Rightarrow> json" where
  "Encode p = marshal_map (AList.update ''v'' (JNum PayloadVersion) (marshal_payload p))"

section \<open>Decoding\<close>

datatype decode_error =
    BadEnvelope            \<comment> \<open>the envelope does not unmarshal\<close>
  | NoVersion              \<comment> \<open>no version field\<close>
  | UnsupportedVersion int \<comment> \<open>a version of another build\<close>
  | BadBody                \<comment> \<open>the body does not unmarshal\<close>

fun members :: "json \<Rightarrow> (string \<times> json) list option" where
  "members (JObj ms) = Some ms"
| "members JNull = Some []"
| "members _ = None"

fun dec_version :: "json option \<Rightarrow> int option option" where
  "dec_version None = Some None"
| "dec_version (Some JNull) = Some None"
| "dec_version (Some (JNum i)) = (if in_int64 i then Some (Some i) else None)"
| "dec_version (Some _) = None"

definition unmarshal_string :: "json \<Rightarrow> string option" where
  "unmarshal_string j = dec_str (Some j)"

definition unmarshal_artifact :: "json \<Rightarrow> artifact_ref option" where
  "unmarshal_artifact j =
     (case members j of None \<Rightarrow> None
      | Some ms \<Rightarrow>
         (case (dec_str (field ms ''name''), dec_str (field ms ''sha256''),
                dec_int (field ms ''size''), dec_str (field ms ''content_type'')) of
            (Some n, Some h, Some s, Some c) \<Rightarrow>
              Some \<lparr>ar_Name = n, ar_SHA256 = h, ar_Size = s, ar_ContentType = c\<rparr>
          | _ \<Rightarrow> None))"

fun unmarshal_payload :: "etype \<Rightarrow> (string \<times> json) list \<Rightarrow> payload option" where
  "unmarshal_payload ERunCreated ms =
     (case (dec_str (field ms ''workflow_name''), dec_int (field ms ''workflow_version''),
            dec_str (field ms ''definition_hash''), dec_str (field ms ''scenario_name''),
            dec_str (field ms ''scenario_hash''), dec_int (field ms ''seed''),
            dec_str (field ms ''correlation_id'')) of
        (Some n, Some ver, Some h, Some sc, Some sh, Some seed, Some c) \<Rightarrow>
          Some (RunCreatedPayload n ver h sc sh seed c)
      | _ \<Rightarrow> None)"
| "unmarshal_payload ERunQueued ms = map_option RunQueuedPayload (dec_int (field ms ''task_count''))"
| "unmarshal_payload ERunStarted ms = Some RunStartedPayload"
| "unmarshal_payload ERunSucceeded ms =
     map_option RunSucceededPayload (dec_int (field ms ''tasks_succeeded''))"
| "unmarshal_payload ERunFailed ms =
     (case (dec_str (field ms ''reason''), dec_str (field ms ''detail'')) of
        (Some r, Some d) \<Rightarrow> Some (RunFailedPayload r d) | _ \<Rightarrow> None)"
| "unmarshal_payload ERunCancelled ms = map_option RunCancelledPayload (dec_str (field ms ''reason''))"
| "unmarshal_payload ETaskScheduled ms =
     (case (dec_int (field ms ''attempt''), dec_time (field ms ''scheduled_at''),
            dec_slice unmarshal_string (field ms ''depends_on'')) of
        (Some a, Some t, Some ds) \<Rightarrow> Some (TaskScheduledPayload a t ds) | _ \<Rightarrow> None)"
| "unmarshal_payload ETaskLeased ms =
     (case (dec_int (field ms ''attempt''), dec_time (field ms ''lease_expires_at'')) of
        (Some a, Some t) \<Rightarrow> Some (TaskLeasedPayload a t) | _ \<Rightarrow> None)"
| "unmarshal_payload ETaskStarted ms =
     (case (dec_int (field ms ''attempt''), dec_str (field ms ''handler'')) of
        (Some a, Some h) \<Rightarrow> Some (TaskStartedPayload a h) | _ \<Rightarrow> None)"
| "unmarshal_payload ETaskSucceeded ms =
     (case (dec_int (field ms ''attempt''), dec_int (field ms ''duration_ms''),
            dec_raw (field ms ''output''), dec_slice unmarshal_artifact (field ms ''artifacts'')) of
        (Some a, Some d, Some out, Some arts) \<Rightarrow> Some (TaskSucceededPayload a d out arts) | _ \<Rightarrow> None)"
| "unmarshal_payload ETaskFailed ms =
     (case (dec_int (field ms ''attempt''), dec_int (field ms ''duration_ms''),
            dec_str (field ms ''error''), dec_bool (field ms ''retryable'')) of
        (Some a, Some d, Some e, Some r) \<Rightarrow> Some (TaskFailedPayload a d e r) | _ \<Rightarrow> None)"
| "unmarshal_payload ETaskRetryScheduled ms =
     (case (dec_int (field ms ''attempt''), dec_int (field ms ''next_attempt''),
            dec_int (field ms ''delay_ms''), dec_time (field ms ''run_at'')) of
        (Some a, Some n, Some d, Some t) \<Rightarrow> Some (TaskRetryScheduledPayload a n d t) | _ \<Rightarrow> None)"
| "unmarshal_payload ETaskLeaseExpired ms =
     (case (dec_int (field ms ''attempt''), dec_time (field ms ''lease_expired_at'')) of
        (Some a, Some t) \<Rightarrow> Some (TaskLeaseExpiredPayload a t) | _ \<Rightarrow> None)"
| "unmarshal_payload ETaskRequeued ms =
     (case (dec_int (field ms ''attempt''), dec_int (field ms ''next_attempt''),
            dec_str (field ms ''reason'')) of
        (Some a, Some n, Some r) \<Rightarrow> Some (TaskRequeuedPayload a n r) | _ \<Rightarrow> None)"
| "unmarshal_payload ETaskDeadLettered ms =
     (case (dec_int (field ms ''attempts''), dec_str (field ms ''reason'')) of
        (Some a, Some r) \<Rightarrow> Some (TaskDeadLetteredPayload a r) | _ \<Rightarrow> None)"
| "unmarshal_payload EWorkerRegistered ms =
     (case (dec_str (field ms ''hostname''), dec_str (field ms ''version''),
            dec_int (field ms ''capacity'')) of
        (Some h, Some ver, Some c) \<Rightarrow> Some (WorkerRegisteredPayload h ver c) | _ \<Rightarrow> None)"
| "unmarshal_payload EWorkerHeartbeat ms =
     map_option WorkerHeartbeatPayload (dec_int (field ms ''active_tasks''))"
| "unmarshal_payload EWorkerSuspect ms =
     map_option WorkerSuspectPayload (dec_int (field ms ''missed_beats''))"
| "unmarshal_payload EWorkerLost ms =
     (case (dec_int (field ms ''missed_beats''), dec_int (field ms ''leases_released'')) of
        (Some m, Some l) \<Rightarrow> Some (WorkerLostPayload m l) | _ \<Rightarrow> None)"
| "unmarshal_payload EFaultInjected ms =
     (case (dec_str (field ms ''fault_type''), dec_str (field ms ''fault_point''),
            dec_str (field ms ''scenario''), dec_int (field ms ''seed''),
            dec_int (field ms ''draw''), dec_raw (field ms ''params'')) of
        (Some t, Some p, Some sc, Some seed, Some d, Some ps) \<Rightarrow>
          Some (FaultInjectedPayload t p sc seed d ps) | _ \<Rightarrow> None)"
| "unmarshal_payload ESideEffectSkipped ms =
     (case (dec_str (field ms ''idempotency_key''), dec_int (field ms ''attempt''),
            dec_int (field ms ''first_attempt'')) of
        (Some k, Some a, Some f) \<Rightarrow> Some (SideEffectSkippedPayload k a f) | _ \<Rightarrow> None)"
| "unmarshal_payload (EOther _) ms = None"

text \<open>
  \<open>Decode raw T\<close> is \<^verbatim>\<open>Decode(raw, &p)\<close> with \<open>p\<close> of the payload type that belongs to
  \<open>T\<close>: the envelope first, its version, then the body.
\<close>

definition Decode :: "json \<Rightarrow> etype \<Rightarrow> decode_error + payload" where
  "Decode raw T =
     (case members raw of None \<Rightarrow> Inl BadEnvelope
      | Some ms \<Rightarrow>
         (case dec_version (field ms ''v'') of
            None \<Rightarrow> Inl BadEnvelope
          | Some None \<Rightarrow> Inl NoVersion
          | Some (Some ver) \<Rightarrow>
              if ver \<noteq> PayloadVersion then Inl (UnsupportedVersion ver)
              else (case unmarshal_payload T ms of None \<Rightarrow> Inl BadBody | Some p \<Rightarrow> Inr p)))"

section \<open>Facts\<close>

lemma ToLower_Nil [simp]: "ToLower [] = []" by (simp add: ToLower_def)
lemma ToLower_Cons [simp]: "ToLower (c # cs) = lower_char c # ToLower cs" by (simp add: ToLower_def)

lemmas omit_defs = omit_str_def omit_slice_def omit_raw_def

lemma marshal_payload_keys:
  "\<forall>m \<in> set (marshal_payload p). ToLower (fst m) = fst m \<and> fst m \<noteq> ''v''"
  by (cases p) (simp_all add: omit_defs lower_char_def split: option.splits)

lemma marshal_payload_distinct: "distinct (map fst (marshal_payload p))"
  by (cases p) (simp_all add: omit_defs split: option.splits)

lemma update_fresh: "k \<notin> fst ` set ms \<Longrightarrow> AList.update k v ms = ms @ [(k, v)]"
  by (induction ms) auto

definition stamped :: "payload \<Rightarrow> (string \<times> json) list" where
  "stamped p = marshal_payload p @ [(''v'', JNum PayloadVersion)]"

lemma Encode_stamped: "Encode p = JObj (sort_key fst (stamped p))"
proof -
  have "''v'' \<notin> fst ` set (marshal_payload p)" using marshal_payload_keys by fastforce
  then show ?thesis by (simp add: Encode_def marshal_map_def stamped_def update_fresh)
qed

lemma stamped_distinct: "distinct (map (ToLower \<circ> fst) (stamped p))"
proof -
  have "map (ToLower \<circ> fst) (marshal_payload p) = map fst (marshal_payload p)"
    using marshal_payload_keys by simp
  then have "map (ToLower \<circ> fst) (stamped p) = map fst (marshal_payload p) @ [''v'']"
    by (simp add: stamped_def lower_char_def)
  moreover have "''v'' \<notin> fst ` set (marshal_payload p)" using marshal_payload_keys by fastforce
  ultimately show ?thesis using marshal_payload_distinct by simp
qed

lemma field_Encode: "field (sort_key fst (stamped p)) k = field (stamped p) k"
  by (rule field_sort) (rule stamped_distinct)

lemma field_stamped:
  "field (stamped p) k = (if k = ''v'' then Some (JNum PayloadVersion) else field (marshal_payload p) k)"
  by (auto simp: stamped_def field_append lower_char_def)

text \<open>The integers of a Go payload are 64 bits wide.\<close>

fun payload_ints :: "payload \<Rightarrow> int list" where
  "payload_ints (RunCreatedPayload _ ver _ _ _ seed _) = [ver, seed]"
| "payload_ints (RunQueuedPayload n) = [n]"
| "payload_ints RunStartedPayload = []"
| "payload_ints (RunSucceededPayload n) = [n]"
| "payload_ints (RunFailedPayload _ _) = []"
| "payload_ints (RunCancelledPayload _) = []"
| "payload_ints (TaskScheduledPayload a _ _) = [a]"
| "payload_ints (TaskLeasedPayload a _) = [a]"
| "payload_ints (TaskStartedPayload a _) = [a]"
| "payload_ints (TaskSucceededPayload a d _ arts) = a # d # map ar_Size arts"
| "payload_ints (TaskFailedPayload a d _ _) = [a, d]"
| "payload_ints (TaskRetryScheduledPayload a n d _) = [a, n, d]"
| "payload_ints (TaskLeaseExpiredPayload a _) = [a]"
| "payload_ints (TaskRequeuedPayload a n _) = [a, n]"
| "payload_ints (TaskDeadLetteredPayload a _) = [a]"
| "payload_ints (WorkerRegisteredPayload _ _ c) = [c]"
| "payload_ints (WorkerHeartbeatPayload n) = [n]"
| "payload_ints (WorkerSuspectPayload n) = [n]"
| "payload_ints (WorkerLostPayload m l) = [m, l]"
| "payload_ints (FaultInjectedPayload _ _ _ seed d _) = [seed, d]"
| "payload_ints (SideEffectSkippedPayload _ a f) = [a, f]"

definition payload_ok :: "payload \<Rightarrow> bool" where
  "payload_ok p \<longleftrightarrow> list_all in_int64 (payload_ints p)"

lemma unmarshal_marshal_artifact: "in_int64 (ar_Size a) \<Longrightarrow> unmarshal_artifact (marshal_artifact a) = Some a"
  by (cases a) (simp add: unmarshal_artifact_def marshal_artifact_def lower_char_def)

lemma dec_artifacts: "list_all in_int64 (map ar_Size arts) \<Longrightarrow>
    dec_list unmarshal_artifact (map marshal_artifact arts) = Some arts"
  by (rule dec_list_map) (simp add: unmarshal_marshal_artifact list_all_iff)

lemma dec_strings: "dec_list unmarshal_string (map JStr ds) = Some ds"
  by (rule dec_list_map) (simp add: unmarshal_string_def)

lemma unmarshal_marshal:
  assumes "payload_ok p"
  shows "unmarshal_payload (Payload_Type p) (sort_key fst (stamped p)) = Some p"
  using assms
  by (cases p) (simp_all add: field_Encode field_stamped payload_ok_def omit_defs lower_char_def
      dec_raw_def dec_strings dec_artifacts split: option.splits)

lemma decode_encode: "payload_ok p \<Longrightarrow> Decode (Encode p) (Payload_Type p) = Inr p"
  by (simp add: Decode_def Encode_stamped field_Encode field_stamped unmarshal_marshal PayloadVersion_def in_int64_def)

lemma Type_of_text_known: "Known t \<Longrightarrow> Type_of_text (Type_String t) = t"
  by (cases t) (simp_all add: Type_of_text_def Known_def knownTypes_def)

lemma Payload_Type_known [simp]: "Known (Payload_Type p)"
  by (cases p) (simp_all add: Known_def knownTypes_def)

lemma Terminal_iff: "Terminal t \<longleftrightarrow> t = ERunSucceeded \<or> t = ERunFailed \<or> t = ERunCancelled"
  by (cases t) simp_all

section \<open>Properties\<close>



end
