(* ===== verification/Relab_Workflow.thy ===== *)
theory Relab_Workflow
  imports Relab_Prelude Complex_Main
begin

text \<open>
  Workflow definitions of \<^verbatim>\<open>internal/workflow\<close> (\<^verbatim>\<open>definition.go\<close>, \<^verbatim>\<open>validate.go\<close>): the
  data, the lookups the scheduler makes, validation with its cycle search, and the
  breadth-first \<open>descendants\<close> of \<^verbatim>\<open>internal/engine/outcome.go\<close> that decides what a dead
  task takes down with it.  YAML and SHA-256 are libraries: \<open>Parse\<close> takes them as
  arguments.
\<close>

section \<open>Data\<close>

text \<open>The fractions of a policy are finite float64 values, which are rational numbers.\<close>

record retry_policy =
  rp_MaxAttempts :: int
  rp_InitialDelay :: duration
  rp_Multiplier :: rat
  rp_MaxDelay :: duration
  rp_Jitter :: rat

record step =
  st_Name :: string
  st_Handler :: string
  st_DependsOn :: "string list"
  st_Retry :: "retry_policy option"
  st_Timeout :: duration

record wf_definition =
  d_Name :: string
  d_Version :: int
  d_Steps :: "step list"
  d_Hash :: string

definition DefaultRetryPolicy :: retry_policy where
  "DefaultRetryPolicy =
     \<lparr>rp_MaxAttempts = 3, rp_InitialDelay = 1 * second, rp_Multiplier = 2,
      rp_MaxDelay = 30 * second, rp_Jitter = 2 / 10\<rparr>"

fun step_loop :: "step list \<Rightarrow> string \<Rightarrow> step option" where
  "step_loop [] name = None"
| "step_loop (s # ss) name = (if st_Name s = name then Some s else step_loop ss name)"

definition Step :: "wf_definition \<Rightarrow> string \<Rightarrow> step option" where
  "Step d name = step_loop (d_Steps d) name"

definition RetryFor :: "wf_definition \<Rightarrow> string \<Rightarrow> retry_policy" where
  "RetryFor d name =
     (case Step d name of
        None \<Rightarrow> DefaultRetryPolicy
      | Some s \<Rightarrow> (case st_Retry s of None \<Rightarrow> DefaultRetryPolicy | Some p \<Rightarrow> p))"

definition Roots :: "wf_definition \<Rightarrow> string list" where
  "Roots d = map st_Name (filter (\<lambda>s. st_DependsOn s = []) (d_Steps d))"

definition Dependents :: "wf_definition \<Rightarrow> string \<Rightarrow> string list" where
  "Dependents d name = map st_Name (filter (\<lambda>s. name \<in> set (st_DependsOn s)) (d_Steps d))"

section \<open>Validation\<close>

datatype name_error =
    NameEmpty
  | NameTooLong nat
  | NameBadRune nat

text \<open>One constructor per message \<open>validate\<close> can collect; \<open>where\<close> is the step the message names.\<close>

datatype problem =
    BadWorkflowName name_error
  | BadVersion int
  | NoSteps
  | BadStepName string name_error
  | DuplicateStep string nat nat
  | HandlerRequired string
  | HandlerUnknown string string
  | NegativeTimeout string
  | BadMaxAttempts string int
  | TooManyAttempts string int
  | NegativeInitialDelay string
  | BadMultiplier string rat
  | DelayExceedsMax string duration duration
  | BadJitter string rat
  | DependsOnItself string
  | DependsTwice string string
  | DependsUnknown string string
  | CycleFound "string list"
  | NoRoot

definition nameMaxLen :: nat where
  "nameMaxLen = 64"

definition name_char :: "char \<Rightarrow> bool" where
  "name_char c \<longleftrightarrow>
     (CHR ''a'' \<le> c \<and> c \<le> CHR ''z'') \<or> (CHR ''A'' \<le> c \<and> c \<le> CHR ''Z'')
     \<or> (CHR ''0'' \<le> c \<and> c \<le> CHR ''9'') \<or> c = CHR ''-'' \<or> c = CHR ''_''"

fun name_loop :: "nat \<Rightarrow> string \<Rightarrow> name_error option" where
  "name_loop i [] = None"
| "name_loop i (c # cs) = (if \<not> name_char c then Some (NameBadRune (i + 1)) else name_loop (i + 1) cs)"

definition validName :: "string \<Rightarrow> name_error option" where
  "validName name =
     (if name = [] then Some NameEmpty
      else if nameMaxLen < length name then Some (NameTooLong (length name))
      else name_loop 0 name)"

definition policy_problems :: "string \<Rightarrow> retry_policy \<Rightarrow> problem list" where
  "policy_problems wh p =
     (if rp_MaxAttempts p < 1 then [BadMaxAttempts wh (rp_MaxAttempts p)] else [])
   @ (if rp_MaxAttempts p > 100 then [TooManyAttempts wh (rp_MaxAttempts p)] else [])
   @ (if rp_InitialDelay p < 0 then [NegativeInitialDelay wh] else [])
   @ (if rp_MaxAttempts p > 1 \<and> rp_Multiplier p < 1 then [BadMultiplier wh (rp_Multiplier p)] else [])
   @ (if rp_MaxDelay p > 0 \<and> rp_InitialDelay p > rp_MaxDelay p
      then [DelayExceedsMax wh (rp_InitialDelay p) (rp_MaxDelay p)] else [])
   @ (if rp_Jitter p < 0 \<or> rp_Jitter p > 1 then [BadJitter wh (rp_Jitter p)] else [])"

definition where_of :: "nat \<Rightarrow> step \<Rightarrow> string" where
  "where_of i s = (if st_Name s \<noteq> [] then st_Name s else ''step '' @ show_nat (i + 1))"

text \<open>First pass: names, handlers, timeouts and policies; it builds the name index.\<close>

fun step_pass ::
  "string list option \<Rightarrow> nat \<Rightarrow> (string \<times> nat) list \<Rightarrow> step list \<Rightarrow> problem list \<times> (string \<times> nat) list"
where
  "step_pass known i names [] = ([], names)"
| "step_pass known i names (s # ss) =
     (let wh = where_of i s;
          (p1, names') =
            (case validName (st_Name s) of
               Some e \<Rightarrow> ([BadStepName wh e], names)
             | None \<Rightarrow>
                (case map_of names (st_Name s) of
                   Some first \<Rightarrow> ([DuplicateStep (st_Name s) (first + 1) (i + 1)], names)
                 | None \<Rightarrow> ([], AList.update (st_Name s) i names)));
          p2 = (if st_Handler s = [] then [HandlerRequired wh]
                else (case known of
                        Some hs \<Rightarrow> if st_Handler s \<in> set hs then [] else [HandlerUnknown wh (st_Handler s)]
                      | None \<Rightarrow> []));
          p3 = (if st_Timeout s < 0 then [NegativeTimeout wh] else []);
          p4 = (case st_Retry s of Some p \<Rightarrow> policy_problems wh p | None \<Rightarrow> []);
          (ps, names'') = step_pass known (i + 1) names' ss
      in (p1 @ p2 @ p3 @ p4 @ ps, names''))"

text \<open>Second pass: the dependency lists, against the full name index.\<close>

fun dep_loop :: "(string \<times> nat) list \<Rightarrow> string \<Rightarrow> string \<Rightarrow> string list \<Rightarrow> string list \<Rightarrow> problem list" where
  "dep_loop names wh self seen [] = []"
| "dep_loop names wh self seen (dep # ds) =
     (if dep = self then [DependsOnItself wh]
      else if dep \<in> set seen then [DependsTwice wh dep]
      else if map_of names dep = None then [DependsUnknown wh dep]
      else []) @ dep_loop names wh self (dep # seen) ds"

fun dep_pass :: "(string \<times> nat) list \<Rightarrow> nat \<Rightarrow> step list \<Rightarrow> problem list" where
  "dep_pass names i [] = []"
| "dep_pass names i (s # ss) =
     dep_loop names (where_of i s) (st_Name s) [] (st_DependsOn s) @ dep_pass names (i + 1) ss"

subsection \<open>Cycle search\<close>

text \<open>
  Depth-first search with the three colours of the source.  The state is the colouring and
  the current path; \<open>walk\<close> returns the cycle it found, if any, with the state it left.
  The recursion is bounded by fuel: \<open>None\<close> means the fuel ran out, which
  \<open>findCycle_total\<close> rules out for the fuel \<open>findCycle\<close> gives it.
\<close>

datatype colour = White | Grey | Black

type_synonym colouring = "(string \<times> colour) list"

definition colour_of :: "colouring \<Rightarrow> string \<Rightarrow> colour" where
  "colour_of c n = (case map_of c n of None \<Rightarrow> White | Some k \<Rightarrow> k)"

definition deps_of :: "step list \<Rightarrow> string \<Rightarrow> string list" where
  "deps_of ss n = (case map_of (rev (map (\<lambda>s. (st_Name s, st_DependsOn s)) ss)) n of
     None \<Rightarrow> [] | Some ds \<Rightarrow> ds)"

text \<open>The path from the first occurrence of \<open>dep\<close> on, closed by \<open>dep\<close> itself.\<close>

definition close_cycle :: "string list \<Rightarrow> string \<Rightarrow> string list" where
  "close_cycle path dep =
     (if dep \<in> set path then dropWhile (\<lambda>n. n \<noteq> dep) path @ [dep] else path @ [dep])"

fun walk :: "nat \<Rightarrow> (string \<Rightarrow> string list) \<Rightarrow> string \<Rightarrow> colouring \<Rightarrow> string list
    \<Rightarrow> (string list option \<times> colouring \<times> string list) option"
and walk_deps :: "nat \<Rightarrow> (string \<Rightarrow> string list) \<Rightarrow> string list \<Rightarrow> colouring \<Rightarrow> string list
    \<Rightarrow> (string list option \<times> colouring \<times> string list) option"
where
  "walk 0 deps name c path = None"
| "walk (Suc fuel) deps name c path =
     (case walk_deps fuel deps (deps name) (AList.update name Grey c) (path @ [name]) of
        None \<Rightarrow> None
      | Some (Some cyc, c', path') \<Rightarrow> Some (Some cyc, c', path')
      | Some (None, c', path') \<Rightarrow> Some (None, AList.update name Black c', butlast path'))"
| "walk_deps fuel deps [] c path = Some (None, c, path)"
| "walk_deps fuel deps (dep # ds) c path =
     (case colour_of c dep of
        Grey \<Rightarrow> Some (Some (close_cycle path dep), c, path)
      | White \<Rightarrow>
          (case walk fuel deps dep c path of
             None \<Rightarrow> None
           | Some (Some cyc, c', path') \<Rightarrow> Some (Some cyc, c', path')
           | Some (None, c', path') \<Rightarrow> walk_deps fuel deps ds c' path')
      | Black \<Rightarrow> walk_deps fuel deps ds c path)"

fun cycle_loop :: "nat \<Rightarrow> (string \<Rightarrow> string list) \<Rightarrow> string list \<Rightarrow> colouring \<Rightarrow> string list option option" where
  "cycle_loop fuel deps [] c = Some None"
| "cycle_loop fuel deps (name # ns) c =
     (if colour_of c name = White then
        (case walk fuel deps name c [] of
           None \<Rightarrow> None
         | Some (Some cyc, _, _) \<Rightarrow> Some (Some cyc)
         | Some (None, c', _) \<Rightarrow> cycle_loop fuel deps ns c')
      else cycle_loop fuel deps ns c)"

definition findCycle_fuel :: "nat \<Rightarrow> wf_definition \<Rightarrow> string list option option" where
  "findCycle_fuel fuel d = cycle_loop fuel (deps_of (d_Steps d)) (map st_Name (d_Steps d)) []"

definition findCycle :: "wf_definition \<Rightarrow> string list option" where
  "findCycle d = (case findCycle_fuel (Suc (length (d_Steps d))) d of Some r \<Rightarrow> r | None \<Rightarrow> None)"

subsection \<open>The whole check\<close>

definition validate :: "string list option \<Rightarrow> wf_definition \<Rightarrow> problem list" where
  "validate known d =
     (let p1 = (case validName (d_Name d) of Some e \<Rightarrow> [BadWorkflowName e] | None \<Rightarrow> []);
          p2 = (if d_Version d \<le> 0 then [BadVersion (d_Version d)] else [])
      in if d_Steps d = [] then p1 @ p2 @ [NoSteps]
         else let (p3, names) = step_pass known 0 [] (d_Steps d);
                  p4 = dep_pass names 0 (d_Steps d);
                  ps = p1 @ p2 @ p3 @ p4
              in if ps = []
                 then (case findCycle d of Some cyc \<Rightarrow> [CycleFound cyc] | None \<Rightarrow> [])
                      @ (if Roots d = [] then [NoRoot] else [])
                 else ps)"

datatype parse_error = YamlError string | Invalid "problem list"

text \<open>
  \<open>decode\<close> is the strict YAML decoder, \<open>marshal\<close> the YAML encoder and \<open>sha256\<close> the
  hexadecimal digest: the three library calls \<open>Parse\<close> is made of.
\<close>

definition canonicalHash :: "(wf_definition \<Rightarrow> string) \<Rightarrow> (string \<Rightarrow> string) \<Rightarrow> wf_definition \<Rightarrow> string" where
  "canonicalHash marshal sha256 d = sha256 (marshal d)"

definition Parse ::
  "(string \<Rightarrow> string + wf_definition) \<Rightarrow> (wf_definition \<Rightarrow> string) \<Rightarrow> (string \<Rightarrow> string)
   \<Rightarrow> string \<Rightarrow> string list option \<Rightarrow> parse_error + wf_definition" where
  "Parse decode marshal sha256 data known =
     (case decode data of
        Inl e \<Rightarrow> Inl (YamlError e)
      | Inr d \<Rightarrow>
          if validate known d \<noteq> [] then Inl (Invalid (validate known d))
          else Inr (d\<lparr>d_Hash := canonicalHash marshal sha256 d\<rparr>))"

section \<open>What a dead task takes down\<close>

text \<open>
  \<open>descendants\<close> follows dependency edges forwards with a queue.  \<open>visit\<close> is the inner
  loop over the direct dependents of one step: the names it has not seen, in order, each of
  which is marked as seen, appended to the result and appended to the queue.
\<close>

fun visit :: "string list \<Rightarrow> string list \<Rightarrow> string list" where
  "visit seen [] = []"
| "visit seen (n # ns) = (if n \<in> set seen then visit seen ns else n # visit (n # seen) ns)"

lemma set_visit: "set (visit seen ns) = set ns - set seen"
  by (induction seen ns rule: visit.induct) auto

lemma distinct_visit: "distinct (visit seen ns)"
  by (induction seen ns rule: visit.induct) (auto simp: set_visit)

lemma set_Dependents: "set (Dependents d n) \<subseteq> set (map st_Name (d_Steps d))"
  by (auto simp: Dependents_def)

function descend :: "wf_definition \<Rightarrow> string list \<Rightarrow> string list \<Rightarrow> string list \<Rightarrow> string list" where
  "descend d seen out [] = out"
| "descend d seen out (current # queue) =
     (let new = visit seen (Dependents d current)
      in descend d (rev new @ seen) (out @ new) (queue @ new))"
  by pat_completeness auto
termination
proof (relation "measures [\<lambda>(d, seen, out, queue). card (set (map st_Name (d_Steps d)) - set seen),
                           \<lambda>(d, seen, out, queue). length queue]", goal_cases)
  case 1
  show ?case by simp
next
  case (2 d seen out current queue new)
  let ?N = "set (map st_Name (d_Steps d))"
  show ?case
  proof (cases "new = []")
    case True
    with 2 show ?thesis by simp
  next
    case False
    have sub: "set new \<subseteq> ?N - set seen"
      using 2 set_Dependents [of d current] by (auto simp: set_visit)
    have "card (?N - set (rev new @ seen)) < card (?N - set seen)"
    proof (rule psubset_card_mono)
      show "finite (?N - set seen)" by simp
      show "?N - set (rev new @ seen) \<subset> ?N - set seen"
        using sub False by (cases new) auto
    qed
    then show ?thesis by simp
  qed
qed

definition descendants :: "wf_definition \<Rightarrow> string \<Rightarrow> string list" where
  "descendants d name = descend d [name] [] [name]"

end
