(* ===== verification/Relab_Store.thy ===== *)
theory Relab_Store
  imports Relab_State Relab_Event Relab_Workflow
begin

text \<open>
  The database: one record per table of \<^verbatim>\<open>internal/store/migrations\<close> with the CHECK and
  key constraints the statements of the program can run into, the error classes of
  \<^verbatim>\<open>internal/store/errors.go\<close> and of the packages above it, and transactions
  (\<^verbatim>\<open>DB.InTx\<close>): a computation over the database that either commits its whole effect or
  leaves the database as it was.
\<close>

section \<open>Errors\<close>

text \<open>
  Go wraps errors with context text and callers match them with \<^verbatim>\<open>errors.Is\<close>; the model
  keeps what is matched and drops the text.
\<close>

datatype error =
    ErrNotFound | ErrConflict | ErrForeignKey | ErrCheckViolation | ErrSerialization
  | ErrDriver string
  | ErrUnknownType etype int
  | ErrRunClosed
  | ErrGap int int
  | ErrLeaseLost
  | ErrConcurrentAttempt
  | ErrWorkerLost
  | ErrRunFinished run_status
  | ErrIllegal illegal_transition
  | ErrDefinitionChanged
  | ErrParse parse_error
  | ErrHashMismatch string string
  | ErrUndeclaredTask string
  | ErrNotAStep string

text \<open>
  \<open>sentinelFor\<close> maps the SQLSTATE of a driver error to a sentinel; \<open>classify\<close> applies it
  to an error that may be the driver's.  The constraint name of a \<open>ConstraintError\<close> is
  context; the sentinel it unwraps to is what \<^verbatim>\<open>errors.Is\<close> sees.
\<close>

datatype driver_error = NoRows | PgError string | OtherError string

definition sentinelFor :: "string \<Rightarrow> error option" where
  "sentinelFor code =
     (if code = ''23505'' then Some ErrConflict
      else if code = ''23503'' then Some ErrForeignKey
      else if code = ''23514'' then Some ErrCheckViolation
      else if code = ''40001'' \<or> code = ''40P01'' then Some ErrSerialization
      else None)"

fun classify :: "driver_error \<Rightarrow> error" where
  "classify NoRows = ErrNotFound"
| "classify (PgError code) = (case sentinelFor code of None \<Rightarrow> ErrDriver code | Some e \<Rightarrow> e)"
| "classify (OtherError m) = ErrDriver m"

section \<open>Tables\<close>

record workflow_row =
  w_id :: uuid
  w_name :: string
  w_version :: int
  w_definition_yaml :: string
  w_definition_hash :: string
  w_created_at :: time

record run_row =
  r_id :: uuid
  r_workflow_id :: uuid
  r_status :: run_status
  r_scenario_name :: "string option"
  r_seed :: int
  r_event_seq :: int
  r_correlation_id :: "string option"
  r_failure_reason :: "string option"
  r_created_at :: time
  r_started_at :: "time option"
  r_completed_at :: "time option"

datatype worker_status = WorkerHealthy | WorkerSuspect | WorkerLost | WorkerStopped

record worker_row =
  wk_id :: uuid
  wk_hostname :: string
  wk_version :: string
  wk_status :: worker_status
  wk_capacity :: int
  wk_active_tasks :: int
  wk_last_heartbeat :: time
  wk_registered_at :: time

record task_row =
  t_id :: uuid
  t_run_id :: uuid
  t_name :: string
  t_attempt :: int
  t_max_attempts :: int
  t_status :: task_status
  t_worker_id :: "uuid option"
  t_lease_expires_at :: "time option"
  t_scheduled_at :: time
  t_started_at :: "time option"
  t_completed_at :: "time option"
  t_output_ref :: "json option"
  t_error :: "string option"
  t_idempotency_key :: string
  t_created_at :: time
  t_updated_at :: time

record attempt_row =
  ta_task_id :: uuid
  ta_attempt :: int
  ta_worker_id :: uuid
  ta_started_at :: time

record event_row =
  e_run_id :: uuid
  e_seq :: int
  e_type :: string
  e_task_name :: "string option"
  e_worker_id :: "uuid option"
  e_payload :: json
  e_occurred_at :: time

record effect_row =
  se_key :: string
  se_run_id :: uuid
  se_task_name :: string
  se_result :: json

record artifact_row =
  a_run_id :: uuid
  a_task_name :: string
  a_name :: string
  a_sha256 :: string
  a_size :: int
  a_content_type :: string

record dead_letter_row =
  dl_task_id :: uuid
  dl_run_id :: uuid
  dl_reason :: string
  dl_attempts :: int
  dl_last_worker :: "uuid option"
  dl_created_at :: time

record db =
  workflows :: "workflow_row list"
  runs :: "run_row list"
  workers :: "worker_row list"
  tasks :: "task_row list"
  task_attempts :: "attempt_row list"
  events :: "event_row list"
  side_effects :: "effect_row list"
  artifacts :: "artifact_row list"
  dead_letters :: "dead_letter_row list"

definition empty_db :: db where
  "empty_db = \<lparr>workflows = [], runs = [], workers = [], tasks = [], task_attempts = [], events = [],
               side_effects = [], artifacts = [], dead_letters = []\<rparr>"

section \<open>Constraints\<close>

text \<open>
  The CHECK constraints of the rows a statement of the engine can write: a run is terminal
  exactly when it has a completion time; a task has a lease exactly when a worker holds it,
  and then it names the worker.
\<close>

definition run_check :: "run_row \<Rightarrow> bool" where
  "run_check r \<longleftrightarrow> 0 \<le> r_event_seq r \<and> (RunStatus_Terminal (r_status r) \<longleftrightarrow> r_completed_at r \<noteq> None)"

definition task_check :: "task_row \<Rightarrow> bool" where
  "task_check t \<longleftrightarrow>
     0 \<le> t_attempt t \<and> 0 < t_max_attempts t
     \<and> (Holds (t_status t) \<longleftrightarrow> t_lease_expires_at t \<noteq> None)
     \<and> (Holds (t_status t) \<longrightarrow> t_worker_id t \<noteq> None)"

definition hex_digit :: "char \<Rightarrow> bool" where
  "hex_digit c \<longleftrightarrow> (CHR ''0'' \<le> c \<and> c \<le> CHR ''9'') \<or> (CHR ''a'' \<le> c \<and> c \<le> CHR ''f'')"

definition artifact_check :: "artifact_row \<Rightarrow> bool" where
  "artifact_check a \<longleftrightarrow> length (a_sha256 a) = 64 \<and> list_all hex_digit (a_sha256 a) \<and> 0 \<le> a_size a"

section \<open>Transactions\<close>

type_synonym 'a tx = "db \<Rightarrow> error + ('a \<times> db)"

definition tx_return :: "'a \<Rightarrow> 'a tx" where
  "tx_return x = (\<lambda>db. Inr (x, db))"

definition tx_fail :: "error \<Rightarrow> 'a tx" where
  "tx_fail e = (\<lambda>db. Inl e)"

definition tx_bind :: "'a tx \<Rightarrow> ('a \<Rightarrow> 'b tx) \<Rightarrow> 'b tx" where
  "tx_bind m k = (\<lambda>db. case m db of Inl e \<Rightarrow> Inl e | Inr (x, db') \<Rightarrow> k x db')"

definition tx_read :: "(db \<Rightarrow> 'a) \<Rightarrow> 'a tx" where
  "tx_read f = (\<lambda>db. Inr (f db, db))"

text \<open>A query that expects one row: none is \<open>ErrNotFound\<close>.\<close>

definition tx_row :: "(db \<Rightarrow> 'a option) \<Rightarrow> 'a tx" where
  "tx_row f = (\<lambda>db. case f db of None \<Rightarrow> Inl ErrNotFound | Some x \<Rightarrow> Inr (x, db))"

text \<open>A check the code makes before it writes, such as \<^verbatim>\<open>status.Transition(to)\<close>.\<close>

definition tx_check :: "error option \<Rightarrow> unit tx" where
  "tx_check e = (\<lambda>db. case e of Some err \<Rightarrow> Inl err | None \<Rightarrow> Inr ((), db))"

fun tx_for :: "'a list \<Rightarrow> ('a \<Rightarrow> unit tx) \<Rightarrow> unit tx" where
  "tx_for [] f = tx_return ()"
| "tx_for (x # xs) f = tx_bind (f x) (\<lambda>_. tx_for xs f)"

text \<open>A loop that collects what each pass returns.\<close>

fun tx_map :: "('a \<Rightarrow> 'b tx) \<Rightarrow> 'a list \<Rightarrow> 'b list tx" where
  "tx_map f [] = tx_return []"
| "tx_map f (x # xs) = tx_bind (f x) (\<lambda>y. tx_bind (tx_map f xs) (\<lambda>ys. tx_return (y # ys)))"

text \<open>
  \<open>InTx\<close> commits when the function returns nil and rolls back otherwise.
\<close>

definition InTx :: "'a tx \<Rightarrow> db \<Rightarrow> (error + 'a) \<times> db" where
  "InTx m db = (case m db of Inl e \<Rightarrow> (Inl e, db) | Inr (x, db') \<Rightarrow> (Inr x, db'))"

section \<open>Statements\<close>

text \<open>
  An UPDATE of \<^verbatim>\<open>tasks\<close> or \<^verbatim>\<open>runs\<close> returns the number of rows it changed and fails when a
  row it wrote violates a constraint.
\<close>

definition update_tasks :: "(task_row \<Rightarrow> bool) \<Rightarrow> (task_row \<Rightarrow> task_row) \<Rightarrow> int tx" where
  "update_tasks c f = (\<lambda>db.
     let rows = sql_update c f (tasks db);
         written = map f (filter c (tasks db))
     in if \<not> list_all task_check written then Inl ErrCheckViolation
        else if \<not> list_all (\<lambda>t. case t_worker_id t of None \<Rightarrow> True
                               | Some w \<Rightarrow> w \<in> set (map wk_id (workers db))) written
        then Inl ErrForeignKey
        else Inr (sql_count c (tasks db), db\<lparr>tasks := rows\<rparr>))"

definition update_runs :: "(run_row \<Rightarrow> bool) \<Rightarrow> (run_row \<Rightarrow> run_row) \<Rightarrow> int tx" where
  "update_runs c f = (\<lambda>db.
     if \<not> list_all run_check (map f (filter c (runs db))) then Inl ErrCheckViolation
     else Inr (sql_count c (runs db), db\<lparr>runs := sql_update c f (runs db)\<rparr>))"

text \<open>
  \<^verbatim>\<open>UPDATE ... RETURNING\<close>: the rows as they were written.  PostgreSQL promises no order for
  them; the model returns them in table order.
\<close>

definition update_tasks_returning :: "(task_row \<Rightarrow> bool) \<Rightarrow> (task_row \<Rightarrow> task_row) \<Rightarrow> task_row list tx" where
  "update_tasks_returning c f =
     tx_bind (tx_read (\<lambda>db. map f (filter c (tasks db)))) (\<lambda>rows.
     tx_bind (update_tasks c f) (\<lambda>_. tx_return rows))"

definition insert_workflow :: "workflow_row \<Rightarrow> unit tx" where
  "insert_workflow w = (\<lambda>db.
     if \<not> 0 < w_version w then Inl ErrCheckViolation
     else if \<exists>q\<in>set (workflows db). w_id q = w_id w \<or> (w_name q = w_name w \<and> w_version q = w_version w)
     then Inl ErrConflict
     else Inr ((), db\<lparr>workflows := workflows db @ [w]\<rparr>))"

definition insert_run :: "run_row \<Rightarrow> unit tx" where
  "insert_run r = (\<lambda>db.
     if \<not> run_check r then Inl ErrCheckViolation
     else if r_id r \<in> set (map r_id (runs db)) then Inl ErrConflict
     else if r_workflow_id r \<notin> set (map w_id (workflows db)) then Inl ErrForeignKey
     else Inr ((), db\<lparr>runs := runs db @ [r]\<rparr>))"

definition insert_task :: "task_row \<Rightarrow> unit tx" where
  "insert_task t = (\<lambda>db.
     if \<not> task_check t then Inl ErrCheckViolation
     else if \<exists>q\<in>set (tasks db). t_id q = t_id t \<or> (t_run_id q = t_run_id t \<and> t_name q = t_name t)
     then Inl ErrConflict
     else if t_run_id t \<notin> set (map r_id (runs db)) then Inl ErrForeignKey
     else Inr ((), db\<lparr>tasks := tasks db @ [t]\<rparr>))"

definition insert_worker :: "worker_row \<Rightarrow> unit tx" where
  "insert_worker w = (\<lambda>db.
     if \<not> 0 < wk_capacity w \<or> wk_active_tasks w < 0 then Inl ErrCheckViolation
     else if wk_id w \<in> set (map wk_id (workers db)) then Inl ErrConflict
     else Inr ((), db\<lparr>workers := workers db @ [w]\<rparr>))"

definition update_workers :: "(worker_row \<Rightarrow> bool) \<Rightarrow> (worker_row \<Rightarrow> worker_row) \<Rightarrow> int tx" where
  "update_workers c f = (\<lambda>db.
     if \<not> list_all (\<lambda>w. 0 < wk_capacity w \<and> 0 \<le> wk_active_tasks w) (map f (filter c (workers db)))
     then Inl ErrCheckViolation
     else Inr (sql_count c (workers db), db\<lparr>workers := sql_update c f (workers db)\<rparr>))"

definition insert_attempt :: "attempt_row \<Rightarrow> unit tx" where
  "insert_attempt a = (\<lambda>db.
     if ta_attempt a < 0 then Inl ErrCheckViolation
     else if \<exists>q\<in>set (task_attempts db). ta_task_id q = ta_task_id a \<and> ta_attempt q = ta_attempt a
     then Inl ErrConflict
     else if ta_task_id a \<notin> set (map t_id (tasks db)) \<or> ta_worker_id a \<notin> set (map wk_id (workers db))
     then Inl ErrForeignKey
     else Inr ((), db\<lparr>task_attempts := task_attempts db @ [a]\<rparr>))"

text \<open>\<^verbatim>\<open>INSERT ... ON CONFLICT (task_id) DO NOTHING\<close>.\<close>

definition insert_dead_letter :: "dead_letter_row \<Rightarrow> unit tx" where
  "insert_dead_letter d = (\<lambda>db.
     if \<not> 0 < dl_attempts d then Inl ErrCheckViolation
     else if dl_task_id d \<in> set (map dl_task_id (dead_letters db)) then Inr ((), db)
     else if dl_task_id d \<notin> set (map t_id (tasks db)) \<or> dl_run_id d \<notin> set (map r_id (runs db))
     then Inl ErrForeignKey
     else Inr ((), db\<lparr>dead_letters := dead_letters db @ [d]\<rparr>))"

text \<open>\<^verbatim>\<open>INSERT ... ON CONFLICT (run_id, task_name, name) DO UPDATE\<close> of the three content columns.\<close>

definition upsert_artifact :: "artifact_row \<Rightarrow> unit tx" where
  "upsert_artifact a = (\<lambda>db.
     let same = (\<lambda>q. a_run_id q = a_run_id a \<and> a_task_name q = a_task_name a \<and> a_name q = a_name a) in
     if \<not> artifact_check a then Inl ErrCheckViolation
     else if \<exists>q\<in>set (artifacts db). same q
     then Inr ((), db\<lparr>artifacts := sql_update same
            (\<lambda>q. q\<lparr>a_sha256 := a_sha256 a, a_size := a_size a, a_content_type := a_content_type a\<rparr>) (artifacts db)\<rparr>)
     else if a_run_id a \<notin> set (map r_id (runs db)) then Inl ErrForeignKey
     else Inr ((), db\<lparr>artifacts := artifacts db @ [a]\<rparr>))"

definition run_by_id :: "uuid \<Rightarrow> db \<Rightarrow> run_row option" where
  "run_by_id rid db = find (\<lambda>r. r_id r = rid) (runs db)"

definition run_tasks :: "uuid \<Rightarrow> db \<Rightarrow> task_row list" where
  "run_tasks rid db = filter (\<lambda>t. t_run_id t = rid) (tasks db)"

definition nullString :: "string \<Rightarrow> string option" where
  "nullString s = (if s = [] then None else Some s)"

section \<open>Reasoning about transactions\<close>

lemmas tx_defs = tx_return_def tx_fail_def tx_bind_def tx_read_def tx_row_def tx_check_def

lemma tx_bind_Inr:
  "tx_bind m k db = Inr (y, db2) \<longleftrightarrow> (\<exists>x db1. m db = Inr (x, db1) \<and> k x db1 = Inr (y, db2))"
  by (auto simp: tx_bind_def split: sum.splits prod.splits)

lemma tx_return_Inr [simp]: "tx_return x db = Inr (y, db') \<longleftrightarrow> y = x \<and> db' = db"
  by (auto simp: tx_return_def)

lemma tx_fail_Inr [simp]: "tx_fail e db \<noteq> Inr r"
  by (simp add: tx_fail_def)

lemma tx_read_Inr [simp]: "tx_read f db = Inr (y, db') \<longleftrightarrow> y = f db \<and> db' = db"
  by (auto simp: tx_read_def)

lemma tx_row_Inr [simp]: "tx_row f db = Inr (y, db') \<longleftrightarrow> f db = Some y \<and> db' = db"
  by (auto simp: tx_row_def split: option.splits)

lemma tx_check_Inr [simp]: "tx_check e db = Inr (y, db') \<longleftrightarrow> e = None \<and> db' = db"
  by (auto simp: tx_check_def split: option.splits)

text \<open>
  \<open>tx_keeps I m\<close>: when \<open>m\<close> commits from a state that satisfies \<open>I\<close>, it ends in one
  that does.  The rules follow the way operations are composed.
\<close>

definition tx_keeps :: "(db \<Rightarrow> bool) \<Rightarrow> 'a tx \<Rightarrow> bool" where
  "tx_keeps I m \<longleftrightarrow> (\<forall>db x db'. I db \<longrightarrow> m db = Inr (x, db') \<longrightarrow> I db')"

lemma tx_keepsI: "(\<And>db x db'. I db \<Longrightarrow> m db = Inr (x, db') \<Longrightarrow> I db') \<Longrightarrow> tx_keeps I m"
  by (auto simp: tx_keeps_def)

lemma tx_keepsD: "tx_keeps I m \<Longrightarrow> I db \<Longrightarrow> m db = Inr (x, db') \<Longrightarrow> I db'"
  by (auto simp: tx_keeps_def)

named_theorems keeps_rules \<open>how \<open>tx_keeps\<close> follows the composition of operations\<close>

lemma keeps_return [keeps_rules]: "tx_keeps I (tx_return x)"
  and keeps_fail [keeps_rules]: "tx_keeps I (tx_fail e)"
  and keeps_read [keeps_rules]: "tx_keeps I (tx_read f)"
  and keeps_row [keeps_rules]: "tx_keeps I (tx_row g)"
  and keeps_check [keeps_rules]: "tx_keeps I (tx_check c)"
  by (auto intro: tx_keepsI)

lemma keeps_bind [keeps_rules]: "tx_keeps I m \<Longrightarrow> (\<And>x. tx_keeps I (k x)) \<Longrightarrow> tx_keeps I (tx_bind m k)"
  by (rule tx_keepsI) (unfold tx_bind_Inr, blast dest: tx_keepsD)

lemma keeps_if [keeps_rules]:
  "(b \<Longrightarrow> tx_keeps I m) \<Longrightarrow> (\<not> b \<Longrightarrow> tx_keeps I n) \<Longrightarrow> tx_keeps I (if b then m else n)"
  by auto

lemma keeps_for [keeps_rules]: "(\<And>x. x \<in> set xs \<Longrightarrow> tx_keeps I (f x)) \<Longrightarrow> tx_keeps I (tx_for xs f)"
  by (induction xs) (simp_all add: keeps_return keeps_bind)

lemma keeps_map [keeps_rules]: "(\<And>x. x \<in> set xs \<Longrightarrow> tx_keeps I (f x)) \<Longrightarrow> tx_keeps I (tx_map f xs)"
  by (induction xs) (simp_all add: keeps_return keeps_bind)

lemma keeps_option [keeps_rules]:
  "tx_keeps I m \<Longrightarrow> (\<And>y. tx_keeps I (k y)) \<Longrightarrow> tx_keeps I (case x of None \<Rightarrow> m | Some y \<Rightarrow> k y)"
  by (cases x) auto

lemma keeps_prod [keeps_rules]: "(\<And>a b. tx_keeps I (f a b)) \<Longrightarrow> tx_keeps I (case_prod f p)"
  by (cases p) auto

lemma keeps_let [keeps_rules]: "tx_keeps I (f x) \<Longrightarrow> tx_keeps I (Let x f)"
  by simp

lemma keeps_update_returning:
  "tx_keeps I (update_tasks c f) \<Longrightarrow> tx_keeps I (update_tasks_returning c f)"
  unfolding update_tasks_returning_def by (intro keeps_rules)

lemma InTx_keeps: "tx_keeps I m \<Longrightarrow> I db \<Longrightarrow> I (snd (InTx m db))"
  by (auto simp: InTx_def tx_keeps_def split: sum.splits prod.splits)

lemma InTx_error: "fst (InTx m db) = Inl e \<Longrightarrow> snd (InTx m db) = db"
  by (auto simp: InTx_def split: sum.splits prod.splits)

lemma InTx_ok: "fst (InTx m db) = Inr x \<longleftrightarrow> m db = Inr (x, snd (InTx m db))"
  by (auto simp: InTx_def split: sum.splits prod.splits)

lemma update_tasks_Inr:
  "update_tasks c f db = Inr (n, db') \<longleftrightarrow>
     list_all task_check (map f (filter c (tasks db)))
     \<and> list_all (\<lambda>t. case t_worker_id t of None \<Rightarrow> True | Some w \<Rightarrow> w \<in> set (map wk_id (workers db)))
         (map f (filter c (tasks db)))
     \<and> n = sql_count c (tasks db) \<and> db' = db\<lparr>tasks := sql_update c f (tasks db)\<rparr>"
  by (auto simp: update_tasks_def Let_def)

lemma update_runs_Inr:
  "update_runs c f db = Inr (n, db') \<longleftrightarrow>
     list_all run_check (map f (filter c (runs db)))
     \<and> n = sql_count c (runs db) \<and> db' = db\<lparr>runs := sql_update c f (runs db)\<rparr>"
  by (auto simp: update_runs_def)

end
