(* ===== verification/Relab_Journal.thy ===== *)
theory Relab_Journal
  imports Relab_Store
begin

text \<open>
  The append-only run journal of \<^verbatim>\<open>internal/event/log.go\<close>: \<open>Append\<close>, which allocates the
  sequence number from the run row and refuses a closed run, \<open>ReadFrom\<close>, which verifies
  contiguity as it reads, and the invariant the pair keeps: the events of a run are
  numbered 1, 2, \dots{} up to the run's counter, in table order.
\<close>

section \<open>Operations\<close>

record event =
  ev_RunID :: uuid
  ev_Seq :: int
  ev_Type :: etype
  ev_TaskName :: string
  ev_WorkerID :: "uuid option"
  ev_Payload :: json
  ev_OccurredAt :: time

record meta =
  m_TaskName :: string
  m_WorkerID :: "uuid option"
  m_OccurredAt :: time

text \<open>
  \<open>dbnow\<close> is the database's own clock, used when the caller leaves \<open>OccurredAt\<close> zero.
  The counter is incremented on the open row of the run; when no row matches, a second
  query tells a closed run from an unknown one.
\<close>

definition insert_event :: "event_row \<Rightarrow> unit tx" where
  "insert_event e = (\<lambda>db.
     if \<not> 0 < e_seq e then Inl ErrCheckViolation
     else if \<exists>q\<in>set (events db). e_run_id q = e_run_id e \<and> e_seq q = e_seq e then Inl ErrConflict
     else Inr ((), db\<lparr>events := events db @ [e]\<rparr>))"

definition Append :: "time \<Rightarrow> uuid \<Rightarrow> payload \<Rightarrow> meta \<Rightarrow> event tx" where
  "Append dbnow rid p meta =
     (let typ = Payload_Type p; raw = Encode p in
      if \<not> Known typ then tx_fail (ErrUnknownType typ 0)
      else
        tx_bind (update_runs (\<lambda>r. r_id r = rid \<and> r_completed_at r = None)
                   (\<lambda>r. r\<lparr>r_event_seq := r_event_seq r + 1\<rparr>)) (\<lambda>n.
        if n = 0 then
          tx_bind (tx_read (run_by_id rid)) (\<lambda>probe.
          case probe of
            Some r \<Rightarrow> if r_completed_at r \<noteq> None then tx_fail ErrRunClosed else tx_fail ErrNotFound
          | None \<Rightarrow> tx_fail ErrNotFound)
        else
          tx_bind (tx_row (run_by_id rid)) (\<lambda>r.
          let seq = r_event_seq r;
              when = (if IsZero (m_OccurredAt meta) then dbnow else m_OccurredAt meta)
          in tx_bind (insert_event \<lparr>e_run_id = rid, e_seq = seq, e_type = Type_String typ,
                        e_task_name = nullString (m_TaskName meta), e_worker_id = m_WorkerID meta,
                        e_payload = raw, e_occurred_at = when\<rparr>) (\<lambda>_.
             tx_return \<lparr>ev_RunID = rid, ev_Seq = seq, ev_Type = typ, ev_TaskName = m_TaskName meta,
                        ev_WorkerID = m_WorkerID meta, ev_Payload = raw, ev_OccurredAt = when\<rparr>))))"

text \<open>\<open>scan_event\<close> is what one row of the query yields; \<^verbatim>\<open>coalesce(task_name, '')\<close> fills the name.\<close>

definition scan_event :: "event_row \<Rightarrow> event" where
  "scan_event e =
     \<lparr>ev_RunID = e_run_id e, ev_Seq = e_seq e, ev_Type = Type_of_text (e_type e),
      ev_TaskName = (case e_task_name e of None \<Rightarrow> [] | Some n \<Rightarrow> n),
      ev_WorkerID = e_worker_id e, ev_Payload = e_payload e, ev_OccurredAt = e_occurred_at e\<rparr>"

fun read_loop :: "int \<Rightarrow> event_row list \<Rightarrow> error + event list" where
  "read_loop expected [] = Inr []"
| "read_loop expected (e # es) =
     (if e_seq e \<noteq> expected then Inl (ErrGap expected (e_seq e))
      else if \<not> Known (Type_of_text (e_type e)) then Inl (ErrUnknownType (Type_of_text (e_type e)) (e_seq e))
      else (case read_loop (expected + 1) es of Inl err \<Rightarrow> Inl err | Inr evs \<Rightarrow> Inr (scan_event e # evs)))"

definition run_events :: "uuid \<Rightarrow> db \<Rightarrow> event_row list" where
  "run_events rid db = filter (\<lambda>e. e_run_id e = rid) (events db)"

definition ReadFrom :: "uuid \<Rightarrow> int \<Rightarrow> db \<Rightarrow> error + event list" where
  "ReadFrom rid afterSeq db =
     read_loop (afterSeq + 1) (order_by e_seq (filter (\<lambda>e. afterSeq < e_seq e) (run_events rid db)))"

definition Read :: "uuid \<Rightarrow> db \<Rightarrow> error + event list" where
  "Read rid db = ReadFrom rid 0 db"

definition LastSeq :: "uuid \<Rightarrow> db \<Rightarrow> error + int" where
  "LastSeq rid db = (case run_by_id rid db of None \<Rightarrow> Inl ErrNotFound | Some r \<Rightarrow> Inr (r_event_seq r))"

section \<open>What a committed append does\<close>

definition stored :: "time \<Rightarrow> uuid \<Rightarrow> payload \<Rightarrow> meta \<Rightarrow> int \<Rightarrow> event_row" where
  "stored dbnow rid p meta seq =
     \<lparr>e_run_id = rid, e_seq = seq, e_type = Type_String (Payload_Type p),
      e_task_name = nullString (m_TaskName meta), e_worker_id = m_WorkerID meta,
      e_payload = Encode p,
      e_occurred_at = (if IsZero (m_OccurredAt meta) then dbnow else m_OccurredAt meta)\<rparr>"

definition bump_seq :: "uuid \<Rightarrow> db \<Rightarrow> db" where
  "bump_seq rid db =
     db\<lparr>runs := sql_update (\<lambda>r. r_id r = rid \<and> r_completed_at r = None)
                  (\<lambda>r. r\<lparr>r_event_seq := r_event_seq r + 1\<rparr>) (runs db)\<rparr>"

lemma run_by_id_bump:
  "run_by_id rid (bump_seq q db) =
     map_option (\<lambda>r. if r_id r = q \<and> r_completed_at r = None then r\<lparr>r_event_seq := r_event_seq r + 1\<rparr> else r)
       (run_by_id rid db)"
  by (simp add: run_by_id_def bump_seq_def find_sql_update)

text \<open>
  The whole effect of an append on the database, as one equation: the open run's counter
  goes up by one and one row with that number is added.
\<close>

lemma Append_Inr:
  assumes dist: "distinct (map r_id (runs db))"
    and ok: "Append dbnow rid p meta db = Inr (evt, db')"
  obtains r where "run_by_id rid db = Some r" "r_completed_at r = None" "0 \<le> r_event_seq r"
    "db' = (bump_seq rid db)\<lparr>events := events db @ [stored dbnow rid p meta (r_event_seq r + 1)]\<rparr>"
    "evt = scan_event (stored dbnow rid p meta (r_event_seq r + 1))"
proof -
  let ?c = "\<lambda>r. r_id r = rid \<and> r_completed_at r = None"
  from ok obtain n where n: "n \<noteq> 0"
    and upd: "update_runs ?c (\<lambda>r. r\<lparr>r_event_seq := r_event_seq r + 1\<rparr>) db = Inr (n, bump_seq rid db)"
    by (auto simp: Append_def Let_def tx_bind_Inr update_runs_Inr bump_seq_def split: if_splits option.splits)
  then obtain q where q: "q \<in> set (runs db)" "r_id q = rid" "r_completed_at q = None"
    by (auto simp: update_runs_Inr)
  have r: "run_by_id rid db = Some q" using find_key_in [OF dist q(1)] q(2) by (simp add: run_by_id_def)
  have chk: "run_check (q\<lparr>r_event_seq := r_event_seq q + 1\<rparr>)"
    using upd q by (auto simp: update_runs_Inr list_all_iff)
  have r': "run_by_id rid (bump_seq rid db) = Some (q\<lparr>r_event_seq := r_event_seq q + 1\<rparr>)"
    using r q by (simp add: run_by_id_bump)
  from ok upd n r' have db': "db' = (bump_seq rid db)\<lparr>events := events (bump_seq rid db) @ [stored dbnow rid p meta (r_event_seq q + 1)]\<rparr>"
    and evt: "evt = scan_event (stored dbnow rid p meta (r_event_seq q + 1))" and pos: "0 < r_event_seq q + 1"
    by (auto simp: Append_def Let_def tx_bind_Inr insert_event_def stored_def scan_event_def nullString_def
        Type_of_text_known split: if_splits)
  have "events (bump_seq rid db) = events db" by (simp add: bump_seq_def)
  with that r q db' evt pos show ?thesis by simp
qed

lemma Append_closed:
  assumes "distinct (map r_id (runs db))" and "run_by_id rid db = Some r" and "r_completed_at r \<noteq> None"
  shows "Append dbnow rid p meta db = Inl ErrRunClosed"
proof -
  have none: "\<not> (r_id q = rid \<and> r_completed_at q = None)" if "q \<in> set (runs db)" for q
  proof
    assume "r_id q = rid \<and> r_completed_at q = None"
    with find_key_in [OF assms(1) that] assms(2,3) show False by (auto simp: run_by_id_def)
  qed
  let ?c = "\<lambda>r. r_id r = rid \<and> r_completed_at r = None"
  have f: "filter ?c (runs db) = []" using none by (auto simp: filter_empty_conv)
  have s: "sql_update ?c (\<lambda>r. r\<lparr>r_event_seq := r_event_seq r + 1\<rparr>) (runs db) = runs db"
    using none by (intro sql_update_none) auto
  have "sql_count ?c (runs db) = 0" using none by simp
  then have "update_runs ?c (\<lambda>r. r\<lparr>r_event_seq := r_event_seq r + 1\<rparr>) db = Inr (0, db)"
    using f s by (simp add: update_runs_def)
  then show ?thesis using assms(2,3)
    by (simp add: Append_def Let_def tx_bind_def tx_read_def tx_fail_def)
qed

lemma Append_unknown:
  assumes "run_by_id rid db = None"
  shows "Append dbnow rid p meta db = Inl ErrNotFound"
proof -
  have none: "r_id q \<noteq> rid" if "q \<in> set (runs db)" for q
    using assms that by (auto simp: run_by_id_def find_None_iff)
  let ?c = "\<lambda>r. r_id r = rid \<and> r_completed_at r = None"
  have f: "filter ?c (runs db) = []" using none by (auto simp: filter_empty_conv)
  have s: "sql_update ?c (\<lambda>r. r\<lparr>r_event_seq := r_event_seq r + 1\<rparr>) (runs db) = runs db"
    using none by (intro sql_update_none) auto
  have "sql_count ?c (runs db) = 0" using none by simp
  then have "update_runs ?c (\<lambda>r. r\<lparr>r_event_seq := r_event_seq r + 1\<rparr>) db = Inr (0, db)"
    using f s by (simp add: update_runs_def)
  then show ?thesis using assms
    by (simp add: Append_def Let_def tx_bind_def tx_read_def tx_fail_def)
qed

section \<open>The journal invariant\<close>

definition numbered :: "event_row list \<Rightarrow> bool" where
  "numbered es \<longleftrightarrow> map e_seq es = map int [1..<Suc (length es)]"

text \<open>
  Run identifiers are unique, every event belongs to a run, and the events of each run are
  numbered without a gap up to the run's counter and carry types of this build.
\<close>

definition journal_ok :: "db \<Rightarrow> bool" where
  "journal_ok db \<longleftrightarrow>
     distinct (map r_id (runs db))
     \<and> e_run_id ` set (events db) \<subseteq> r_id ` set (runs db)
     \<and> (\<forall>r\<in>set (runs db). numbered (run_events (r_id r) db)
                          \<and> r_event_seq r = int (length (run_events (r_id r) db)))
     \<and> (\<forall>e\<in>set (events db). Known (Type_of_text (e_type e)))"

lemma numbered_snoc: "numbered es \<Longrightarrow> e_seq e = int (length es) + 1 \<Longrightarrow> numbered (es @ [e])"
  by (simp add: numbered_def)

lemma numbered_nth: "numbered es \<Longrightarrow> i < length es \<Longrightarrow> e_seq (es ! i) = int i + 1"
proof -
  assume n: "numbered es" and i: "i < length es"
  from n i have "map e_seq es ! i = map int [1..<Suc (length es)] ! i" by (simp only: numbered_def)
  with i show ?thesis by (simp add: nth_upt del: upt_Suc)
qed

lemma read_loop_numbered:
  assumes "map e_seq es = map int [Suc k..<Suc k + length es]" and "\<forall>e\<in>set es. Known (Type_of_text (e_type e))"
  shows "read_loop (int k + 1) es = Inr (map scan_event es)"
  using assms
proof (induction es arbitrary: k)
  case Nil
  then show ?case by simp
next
  case (Cons e es)
  from Cons.prems(1) have hd: "e_seq e = int k + 1" and tl: "map e_seq es = map int [Suc (Suc k)..<Suc (Suc k) + length es]"
    by (simp_all add: upt_conv_Cons del: upt_Suc)
  from Cons.IH [OF tl] Cons.prems(2) have "read_loop (int (Suc k) + 1) es = Inr (map scan_event es)" by simp
  then show ?case using hd Cons.prems(2) by (simp add: algebra_simps)
qed

lemma order_by_numbered: "numbered es \<Longrightarrow> order_by e_seq es = es"
proof -
  assume "numbered es"
  then have "sorted (map e_seq es)"
    by (simp add: numbered_def sorted_map sorted_wrt_upt sorted_wrt_map del: upt_Suc) 
  then show ?thesis by (simp add: order_by_def sort_key_id_if_sorted)
qed

lemma Read_journal:
  assumes ok: "journal_ok db" and r: "run_by_id rid db = Some r"
  shows "Read rid db = Inr (map scan_event (run_events rid db))"
proof -
  from find_key_Some [OF r [unfolded run_by_id_def]] have mem: "r \<in> set (runs db)" and rid: "r_id r = rid" by auto
  with ok have num: "numbered (run_events rid db)" and known: "\<forall>e\<in>set (run_events rid db). Known (Type_of_text (e_type e))"
    by (auto simp: journal_ok_def run_events_def)
  have pos: "0 < e_seq e" if "e \<in> set (run_events rid db)" for e
    using that num by (auto simp: in_set_conv_nth numbered_nth)
  have all: "filter (\<lambda>e. 0 < e_seq e) (run_events rid db) = run_events rid db"
    using pos by (simp add: filter_id_conv)
  have "read_loop (int 0 + 1) (run_events rid db) = Inr (map scan_event (run_events rid db))"
    by (rule read_loop_numbered) (use num known in \<open>simp_all add: numbered_def\<close>)
  then show ?thesis using num all by (simp add: Read_def ReadFrom_def order_by_numbered)
qed

lemma journal_ok_append:
  assumes ok: "journal_ok db" and app: "Append dbnow rid p meta db = Inr (evt, db')"
  shows "journal_ok db'"
proof -
  have dist: "distinct (map r_id (runs db))" using ok by (simp add: journal_ok_def)
  from Append_Inr [OF dist app] obtain r where r: "run_by_id rid db = Some r" "r_completed_at r = None"
    and db': "db' = (bump_seq rid db)\<lparr>events := events db @ [stored dbnow rid p meta (r_event_seq r + 1)]\<rparr>"
    by metis
  from find_key_Some [OF r(1) [unfolded run_by_id_def]] have mem: "r \<in> set (runs db)" and rid: "r_id r = rid" by auto
  let ?e = "stored dbnow rid p meta (r_event_seq r + 1)"
  have ids: "map r_id (runs db') = map r_id (runs db)"
    by (simp add: db' bump_seq_def map_sql_update)
  have evs: "run_events q db' = run_events q db @ (if q = rid then [?e] else [])" for q
    by (simp add: db' run_events_def stored_def)
  have each: "numbered (run_events (r_id q') db') \<and> r_event_seq q' = int (length (run_events (r_id q') db'))"
    if q': "q' \<in> set (runs db')" for q'
  proof -
    from q' obtain q where q: "q \<in> set (runs db)" and
      eq: "q' = (if r_id q = rid \<and> r_completed_at q = None then q\<lparr>r_event_seq := r_event_seq q + 1\<rparr> else q)"
      by (auto simp: db' bump_seq_def in_sql_update)
    have old: "numbered (run_events (r_id q) db)" "r_event_seq q = int (length (run_events (r_id q) db))"
      using ok q by (auto simp: journal_ok_def)
    show ?thesis
    proof (cases "r_id q = rid")
      case True
      then have "q = r" using distinct_key_eq [OF dist q mem] rid by simp
      with eq r old True evs show ?thesis by (auto intro!: numbered_snoc simp: stored_def)
    next
      case False
      with eq old evs show ?thesis by auto
    qed
  qed
  have "\<forall>e\<in>set (events db'). Known (Type_of_text (e_type e))"
    using ok by (auto simp: db' journal_ok_def stored_def Type_of_text_known)
  moreover have "e_run_id ` set (events db') \<subseteq> r_id ` set (runs db')"
  proof -
    have "r_id ` set (runs db') = r_id ` set (runs db)" using ids by (metis set_map)
    then show ?thesis using ok mem rid by (auto simp: db' journal_ok_def stored_def)
  qed
  ultimately show ?thesis using each ids dist by (simp add: journal_ok_def)
qed

section \<open>Appending to a journal\<close>

text \<open>
  \<^verbatim>\<open>Append\<close> on an open run succeeds with the next number, adds exactly that event and
  nothing else; on a closed run it fails with \<^verbatim>\<open>ErrRunClosed\<close>, and on an unknown one with
  \<^verbatim>\<open>ErrNotFound\<close>.
\<close>

lemma append_outcome:
  assumes ok: "journal_ok db" and checks: "list_all run_check (runs db)"
  shows "case run_by_id rid db of
      None \<Rightarrow> Append now rid p meta db = Inl ErrNotFound
    | Some r \<Rightarrow>
        (if r_completed_at r \<noteq> None then Append now rid p meta db = Inl ErrRunClosed
         else Append now rid p meta db =
           Inr (scan_event (stored now rid p meta (r_event_seq r + 1)),
                (bump_seq rid db)\<lparr>events := events db @ [stored now rid p meta (r_event_seq r + 1)]\<rparr>))"
proof (cases "run_by_id rid db")
  case None
  then show ?thesis by (simp add: Append_unknown)
next
  case (Some r)
  have dist: "distinct (map r_id (runs db))" using ok by (simp add: journal_ok_def)
  note mem = find_key_Some [OF Some [unfolded run_by_id_def]]
  show ?thesis
  proof (cases "r_completed_at r = None")
    case False
    then show ?thesis using Append_closed [OF dist Some] Some by simp
  next
    case True
    let ?c = "\<lambda>q. r_id q = rid \<and> r_completed_at q = None" and ?f = "\<lambda>q. q\<lparr>r_event_seq := r_event_seq q + 1\<rparr> :: run_row"
    have "list_all run_check (map ?f (filter ?c (runs db)))"
      using checks by (auto simp: list_all_iff run_check_def)
    moreover have cnt: "sql_count ?c (runs db) \<noteq> 0" using mem True by auto
    ultimately have u: "update_runs ?c ?f db = Inr (sql_count ?c (runs db), bump_seq rid db)"
      by (simp add: update_runs_def bump_seq_def)
    have r': "run_by_id rid (bump_seq rid db) = Some (?f r)" using Some mem True by (simp add: run_by_id_bump)
    have len: "r_event_seq r = int (length (run_events rid db))" "numbered (run_events rid db)"
      using ok mem by (auto simp: journal_ok_def)
    have "e_seq q \<noteq> r_event_seq r + 1" if "q \<in> set (events db)" "e_run_id q = rid" for q
    proof -
      have "q \<in> set (run_events rid db)" using that by (simp add: run_events_def)
      then obtain i where "i < length (run_events rid db)" "q = run_events rid db ! i" by (auto simp: in_set_conv_nth)
      then show ?thesis using numbered_nth [OF len(2)] len(1) by simp
    qed
    then have ins: "insert_event (stored now rid p meta (r_event_seq r + 1)) (bump_seq rid db) =
        Inr ((), (bump_seq rid db)\<lparr>events := events db @ [stored now rid p meta (r_event_seq r + 1)]\<rparr>)"
      using len(1) by (auto simp: insert_event_def stored_def bump_seq_def)
    show ?thesis
      using Some True ins [unfolded stored_def]
      by (simp add: Append_def Let_def tx_bind_def tx_row_def tx_return_def u cnt r' stored_def scan_event_def nullString_def
          Type_of_text_known del: sql_count_zero not_None_eq)
  qed
qed

end
