(* ===== verification/Relab_Config.thy ===== *)
theory Relab_Config
  imports Relab_Json
begin

text \<open>
  Runtime settings of \<^verbatim>\<open>internal/config/config.go\<close>: the recovery timing with its validation,
  the environment readers, the API settings with the token list, and the rule that an
  unauthenticated server binds to loopback only.  Durations are 64-bit, and the one product
  the validation forms wraps as Go's does.
\<close>

section \<open>Sixty-four-bit arithmetic\<close>

definition wrap64 :: "int \<Rightarrow> int" where
  "wrap64 i = (i + 2 ^ 63) mod 2 ^ 64 - 2 ^ 63"

lemma wrap64_id: "in_int64 i \<Longrightarrow> wrap64 i = i"
  by (simp add: wrap64_def in_int64_def)

lemma wrap64_range: "in_int64 (wrap64 i)"
  by (simp add: wrap64_def in_int64_def)

section \<open>Timing\<close>

record timing =
  LeaseDuration :: duration
  LeaseRenewInterval :: duration
  HeartbeatInterval :: duration
  SuspectAfterBeats :: int
  LostAfterBeats :: int
  ReaperInterval :: duration
  TaskTimeout :: duration

definition DefaultTiming :: timing where
  "DefaultTiming =
     \<lparr>LeaseDuration = 30 * second, LeaseRenewInterval = 10 * second, HeartbeatInterval = 5 * second,
      SuspectAfterBeats = 3, LostAfterBeats = 5, ReaperInterval = 1 * second,
      TaskTimeout = 5 * 60 * second\<rparr>"

datatype config_error =
    BadLeaseDuration | BadRenewInterval | RenewTooLong | BadHeartbeat | BadSuspect | BadLost
  | BadReaper | BadTaskTimeout
  | NotABoolean string | NotAnInteger string | NotADuration string | NotPositive string
  | InvalidTokenEntry | UnknownRole | DuplicateToken | EmptyToken
  | BadMaxBody | BadMaxLimit | BadRate | BadBurst
  | InsecureBind string | NoDatabase

definition Timing_Validate :: "timing \<Rightarrow> config_error option" where
  "Timing_Validate t =
     (if LeaseDuration t \<le> 0 then Some BadLeaseDuration
      else if LeaseRenewInterval t \<le> 0 then Some BadRenewInterval
      else if wrap64 (LeaseRenewInterval t * 2) > LeaseDuration t then Some RenewTooLong
      else if HeartbeatInterval t \<le> 0 then Some BadHeartbeat
      else if SuspectAfterBeats t < 2 then Some BadSuspect
      else if LostAfterBeats t \<le> SuspectAfterBeats t then Some BadLost
      else if ReaperInterval t \<le> 0 then Some BadReaper
      else if TaskTimeout t \<le> 0 then Some BadTaskTimeout
      else None)"

section \<open>Reading the environment\<close>

text \<open>
  \<^verbatim>\<open>os.Getenv\<close> is a function from names to values, the empty string when unset.
  \<open>parse_int64\<close> is \<^verbatim>\<open>strconv.ParseInt(s, 10, 64)\<close> and \<^verbatim>\<open>strconv.Atoi\<close>, \<open>parse_bool\<close> is
  \<^verbatim>\<open>strconv.ParseBool\<close>; \<^verbatim>\<open>time.ParseDuration\<close> is an argument.
\<close>

type_synonym environ = "string \<Rightarrow> string"

definition digit_val :: "char \<Rightarrow> int option" where
  "digit_val c = (let n = (of_char c :: nat) in if 48 \<le> n \<and> n \<le> 57 then Some (int n - 48) else None)"

fun digits_val :: "int \<Rightarrow> string \<Rightarrow> int option" where
  "digits_val acc [] = Some acc"
| "digits_val acc (c # cs) = (case digit_val c of None \<Rightarrow> None | Some d \<Rightarrow> digits_val (acc * 10 + d) cs)"

definition unsigned_val :: "string \<Rightarrow> int option" where
  "unsigned_val s = (if s = [] then None else digits_val 0 s)"

definition parse_int64 :: "string \<Rightarrow> int option" where
  "parse_int64 s =
     (let v = (case s of
                 [] \<Rightarrow> None
               | c # cs \<Rightarrow> if c = CHR ''-'' then map_option uminus (unsigned_val cs)
                          else if c = CHR ''+'' then unsigned_val cs
                          else unsigned_val s)
      in case v of None \<Rightarrow> None | Some i \<Rightarrow> if in_int64 i then Some i else None)"

definition parse_bool :: "string \<Rightarrow> bool option" where
  "parse_bool s =
     (if s \<in> set [''1'', ''t'', ''T'', ''TRUE'', ''true'', ''True''] then Some True
      else if s \<in> set [''0'', ''f'', ''F'', ''FALSE'', ''false'', ''False''] then Some False
      else None)"

definition Env_Bool :: "environ \<Rightarrow> string \<Rightarrow> bool \<Rightarrow> config_error + bool" where
  "Env_Bool getenv key fallback =
     (if getenv key = [] then Inr fallback
      else case parse_bool (getenv key) of None \<Rightarrow> Inl (NotABoolean key) | Some v \<Rightarrow> Inr v)"

definition Env_Int :: "environ \<Rightarrow> string \<Rightarrow> int \<Rightarrow> config_error + int" where
  "Env_Int getenv key fallback =
     (if getenv key = [] then Inr fallback
      else case parse_int64 (getenv key) of None \<Rightarrow> Inl (NotAnInteger key) | Some v \<Rightarrow> Inr v)"

definition Env_Int64 :: "environ \<Rightarrow> string \<Rightarrow> int \<Rightarrow> config_error + int" where
  "Env_Int64 getenv key fallback =
     (if getenv key = [] then Inr fallback
      else case parse_int64 (getenv key) of None \<Rightarrow> Inl (NotAnInteger key) | Some v \<Rightarrow> Inr v)"

definition Env_Duration :: "(string \<Rightarrow> duration option) \<Rightarrow> environ \<Rightarrow> string \<Rightarrow> duration \<Rightarrow> config_error + duration" where
  "Env_Duration parseDuration getenv key fallback =
     (if getenv key = [] then Inr fallback
      else case parseDuration (getenv key) of
             None \<Rightarrow> Inl (NotADuration key)
           | Some v \<Rightarrow> if v \<le> 0 then Inl (NotPositive key) else Inr v)"

definition Env_String :: "environ \<Rightarrow> string \<Rightarrow> string \<Rightarrow> string" where
  "Env_String getenv key fallback = (if getenv key \<noteq> [] then getenv key else fallback)"

definition DSN :: "environ \<Rightarrow> string \<Rightarrow> config_error + string" where
  "DSN getenv flagValue =
     (if flagValue \<noteq> [] then Inr flagValue
      else if getenv ''RELAB_DSN'' \<noteq> [] then Inr (getenv ''RELAB_DSN'')
      else Inl NoDatabase)"

text \<open>The two override tables: a key, the field it reads and the field it writes.\<close>

type_synonym override = "string \<times> (timing \<Rightarrow> int) \<times> (int \<Rightarrow> timing \<Rightarrow> timing)"

definition duration_overrides :: "override list" where
  "duration_overrides =
     [(''RELAB_LEASE_DURATION'', LeaseDuration, \<lambda>v. LeaseDuration_update (\<lambda>_. v)),
      (''RELAB_LEASE_RENEW_INTERVAL'', LeaseRenewInterval, \<lambda>v. LeaseRenewInterval_update (\<lambda>_. v)),
      (''RELAB_HEARTBEAT_INTERVAL'', HeartbeatInterval, \<lambda>v. HeartbeatInterval_update (\<lambda>_. v)),
      (''RELAB_REAPER_INTERVAL'', ReaperInterval, \<lambda>v. ReaperInterval_update (\<lambda>_. v)),
      (''RELAB_TASK_TIMEOUT'', TaskTimeout, \<lambda>v. TaskTimeout_update (\<lambda>_. v))]"

definition count_overrides :: "override list" where
  "count_overrides =
     [(''RELAB_SUSPECT_AFTER_BEATS'', SuspectAfterBeats, \<lambda>v. SuspectAfterBeats_update (\<lambda>_. v)),
      (''RELAB_LOST_AFTER_BEATS'', LostAfterBeats, \<lambda>v. LostAfterBeats_update (\<lambda>_. v))]"

fun override_loop ::
  "(string \<Rightarrow> int \<Rightarrow> config_error + int) \<Rightarrow> override list \<Rightarrow> timing \<Rightarrow> config_error + timing" where
  "override_loop rd [] t = Inr t"
| "override_loop rd ((key, get, put) # os) t =
     (case rd key (get t) of Inl e \<Rightarrow> Inl e | Inr v \<Rightarrow> override_loop rd os (put v t))"

definition TimingFromEnv :: "(string \<Rightarrow> duration option) \<Rightarrow> environ \<Rightarrow> config_error + timing" where
  "TimingFromEnv parseDuration getenv =
     (case override_loop (Env_Duration parseDuration getenv) duration_overrides DefaultTiming of
        Inl e \<Rightarrow> Inl e
      | Inr t1 \<Rightarrow>
         (case override_loop (Env_Int getenv) count_overrides t1 of
            Inl e \<Rightarrow> Inl e
          | Inr t2 \<Rightarrow> (case Timing_Validate t2 of Some e \<Rightarrow> Inl e | None \<Rightarrow> Inr t2)))"

section \<open>API settings\<close>

datatype api_role = RoleViewer | RoleOperator

record api_token =
  tok_Value :: string
  tok_Role :: api_role

record api_config =
  Tokens :: "api_token list"
  InsecureNoAuth :: bool
  MaxBodyBytes :: int
  MaxLimit :: int
  RateLimitPerSecond :: int
  RateLimitBurst :: int

definition DefaultAPIConfig :: api_config where
  "DefaultAPIConfig =
     \<lparr>Tokens = [], InsecureNoAuth = False, MaxBodyBytes = 2 ^ 20, MaxLimit = 500,
      RateLimitPerSecond = 10, RateLimitBurst = 20\<rparr>"

fun token_loop :: "string list \<Rightarrow> api_token list \<Rightarrow> config_error option" where
  "token_loop seen [] = None"
| "token_loop seen (t # ts) =
     (if tok_Value t = [] then Some EmptyToken
      else if tok_Value t \<in> set seen then Some DuplicateToken
      else token_loop (tok_Value t # seen) ts)"

definition APIConfig_Validate :: "api_config \<Rightarrow> config_error option" where
  "APIConfig_Validate a =
     (if MaxBodyBytes a \<le> 0 then Some BadMaxBody
      else if MaxLimit a \<le> 0 then Some BadMaxLimit
      else if RateLimitPerSecond a \<le> 0 then Some BadRate
      else if RateLimitBurst a \<le> 0 then Some BadBurst
      else token_loop [] (Tokens a))"

text \<open>
  String functions of the standard library, on ASCII text: \<open>TrimSpace\<close>, splitting at every
  comma, and splitting once at the first colon.
\<close>

definition is_space :: "char \<Rightarrow> bool" where
  "is_space c \<longleftrightarrow> (let n = (of_char c :: nat) in n = 32 \<or> (9 \<le> n \<and> n \<le> 13))"

definition TrimSpace :: "string \<Rightarrow> string" where
  "TrimSpace s = rev (dropWhile is_space (rev (dropWhile is_space s)))"

fun Split :: "char \<Rightarrow> string \<Rightarrow> string list" where
  "Split sep [] = [[]]"
| "Split sep (c # cs) =
     (if c = sep then [] # Split sep cs
      else case Split sep cs of [] \<Rightarrow> [[c]] | p # ps \<Rightarrow> (c # p) # ps)"

definition Split2 :: "char \<Rightarrow> string \<Rightarrow> (string \<times> string) option" where
  "Split2 sep s =
     (if sep \<in> set s then Some (takeWhile (\<lambda>c. c \<noteq> sep) s, tl (dropWhile (\<lambda>c. c \<noteq> sep) s)) else None)"

definition parseRole :: "string \<Rightarrow> api_role option" where
  "parseRole raw =
     (if ToLower raw = ''viewer'' then Some RoleViewer
      else if ToLower raw = ''operator'' then Some RoleOperator
      else None)"

fun parse_tokens_loop :: "string list \<Rightarrow> string list \<Rightarrow> config_error + api_token list" where
  "parse_tokens_loop seen [] = Inr []"
| "parse_tokens_loop seen (entry # entries) =
     (case Split2 CHR '':'' (TrimSpace entry) of
        None \<Rightarrow> Inl InvalidTokenEntry
      | Some (p0, p1) \<Rightarrow>
          if TrimSpace p0 = [] \<or> TrimSpace p1 = [] then Inl InvalidTokenEntry
          else
            (case parseRole (TrimSpace p0) of
               None \<Rightarrow> Inl UnknownRole
             | Some role \<Rightarrow>
                 let v = TrimSpace p1 in
                 if v \<in> set seen then Inl DuplicateToken
                 else (case parse_tokens_loop (v # seen) entries of
                         Inl e \<Rightarrow> Inl e
                       | Inr ts \<Rightarrow> Inr (\<lparr>tok_Value = v, tok_Role = role\<rparr> # ts))))"

definition parseAPITokens :: "string \<Rightarrow> config_error + api_token list" where
  "parseAPITokens raw = parse_tokens_loop [] (Split CHR '','' raw)"

definition APIConfigFromEnv :: "environ \<Rightarrow> config_error + api_config" where
  "APIConfigFromEnv getenv =
     (case (if getenv ''RELAB_API_TOKENS'' \<noteq> [] then parseAPITokens (getenv ''RELAB_API_TOKENS'') else Inr []) of
        Inl e \<Rightarrow> Inl e
      | Inr toks \<Rightarrow>
     (case Env_Bool getenv ''RELAB_INSECURE_NO_AUTH'' False of Inl e \<Rightarrow> Inl e | Inr ins \<Rightarrow>
     (case Env_Int64 getenv ''RELAB_API_MAX_BODY_BYTES'' (2 ^ 20) of Inl e \<Rightarrow> Inl e | Inr body \<Rightarrow>
     (case Env_Int getenv ''RELAB_API_MAX_LIMIT'' 500 of Inl e \<Rightarrow> Inl e | Inr lim \<Rightarrow>
     (case Env_Int getenv ''RELAB_API_RATE_LIMIT'' 10 of Inl e \<Rightarrow> Inl e | Inr rate \<Rightarrow>
     (case Env_Int getenv ''RELAB_API_RATE_BURST'' 20 of Inl e \<Rightarrow> Inl e | Inr burst \<Rightarrow>
       let api = \<lparr>Tokens = toks, InsecureNoAuth = ins, MaxBodyBytes = body, MaxLimit = lim,
                  RateLimitPerSecond = rate, RateLimitBurst = burst\<rparr>
       in case APIConfig_Validate api of Some e \<Rightarrow> Inl e | None \<Rightarrow> Inr api))))))"

text \<open>
  \<open>splitHostPort\<close> is the host part \<^verbatim>\<open>net.SplitHostPort\<close> returns when it succeeds, and
  \<open>loopbackIP\<close> says that \<^verbatim>\<open>net.ParseIP\<close> accepts a text and the address is loopback.
\<close>

definition trim_brackets :: "string \<Rightarrow> string" where
  "trim_brackets s =
     (let b = (\<lambda>c. c = CHR ''['' \<or> c = CHR '']'') in rev (dropWhile b (rev (dropWhile b s))))"

definition bindHost :: "(string \<Rightarrow> string option) \<Rightarrow> string \<Rightarrow> string" where
  "bindHost splitHostPort addr0 =
     (let addr = TrimSpace addr0 in
      case splitHostPort addr of
        Some host \<Rightarrow> trim_brackets host
      | None \<Rightarrow>
          if addr \<noteq> [] \<and> hd addr = CHR ''['' \<and> last addr = CHR '']'' then trim_brackets addr else addr)"

definition ValidateBind ::
  "(string \<Rightarrow> string option) \<Rightarrow> (string \<Rightarrow> bool) \<Rightarrow> api_config \<Rightarrow> string \<Rightarrow> config_error option" where
  "ValidateBind splitHostPort loopbackIP a addr =
     (if Tokens a \<noteq> [] \<or> InsecureNoAuth a then None
      else let host = bindHost splitHostPort addr in
           if ToLower host = ''localhost'' then None
           else if loopbackIP host then None
           else Some (InsecureBind addr))"

section \<open>Facts\<close>

text \<open>What accepted timing guarantees, stated without the wrap-around.\<close>

definition sound_timing :: "timing \<Rightarrow> bool" where
  "sound_timing t \<longleftrightarrow>
     0 < LeaseRenewInterval t \<and> 2 * LeaseRenewInterval t \<le> LeaseDuration t
     \<and> 0 < HeartbeatInterval t \<and> 2 \<le> SuspectAfterBeats t \<and> SuspectAfterBeats t < LostAfterBeats t
     \<and> 0 < ReaperInterval t \<and> 0 < TaskTimeout t"

lemma Timing_Validate_sound:
  assumes "LeaseRenewInterval t < 2 ^ 62"
  shows "Timing_Validate t = None \<longleftrightarrow> sound_timing t"
proof (cases "LeaseRenewInterval t \<le> 0")
  case True
  then show ?thesis by (auto simp: Timing_Validate_def sound_timing_def)
next
  case False
  with assms have "wrap64 (LeaseRenewInterval t * 2) = 2 * LeaseRenewInterval t"
    by (subst wrap64_id) (auto simp: in_int64_def)
  then show ?thesis by (auto simp: Timing_Validate_def sound_timing_def)
qed

lemma TimingFromEnv_valid: "TimingFromEnv pd getenv = Inr t \<Longrightarrow> Timing_Validate t = None"
  by (auto simp: TimingFromEnv_def split: sum.splits option.splits)

lemma TimingFromEnv_default: "TimingFromEnv pd (\<lambda>_. []) = Inr DefaultTiming"
  by (simp add: TimingFromEnv_def duration_overrides_def count_overrides_def Env_Duration_def Env_Int_def
      Timing_Validate_def DefaultTiming_def second_def millisecond_def wrap64_def)

lemma token_loop_ok:
  "token_loop seen ts = None \<longleftrightarrow>
     distinct (map tok_Value ts) \<and> tok_Value ` set ts \<inter> set ([] # seen) = {}"
  by (induction seen ts rule: token_loop.induct) auto

lemma parse_tokens_values:
  "parse_tokens_loop seen es = Inr ts \<Longrightarrow>
     distinct (map tok_Value ts) \<and> tok_Value ` set ts \<inter> set ([] # seen) = {}"
proof (induction seen es arbitrary: ts rule: parse_tokens_loop.induct)
  case (1 seen)
  then show ?case by simp
next
  case (2 seen entry entries)
  from "2.prems" obtain p0 p1 role ts' where
    split: "Split2 CHR '':'' (TrimSpace entry) = Some (p0, p1)" "\<not> (TrimSpace p0 = [] \<or> TrimSpace p1 = [])"
      "parseRole (TrimSpace p0) = Some role" "TrimSpace p1 \<notin> set seen"
    and rest: "parse_tokens_loop (TrimSpace p1 # seen) entries = Inr ts'"
    and ts: "ts = \<lparr>tok_Value = TrimSpace p1, tok_Role = role\<rparr> # ts'"
    by (auto simp: Let_def split: option.splits prod.splits if_splits sum.splits)
  from "2.IH" [OF split(1) refl split(2,3) refl split(4) rest] split ts show ?case by auto
qed

lemma parseAPITokens_valid: "parseAPITokens raw = Inr ts \<Longrightarrow> token_loop [] ts = None"
  using parse_tokens_values [of "[]"] by (simp add: parseAPITokens_def token_loop_ok)

text \<open>Writing a token list the way the variable is documented and reading it back.\<close>

fun role_name :: "api_role \<Rightarrow> string" where
  "role_name RoleViewer = ''viewer''"
| "role_name RoleOperator = ''operator''"

definition token_entry :: "api_token \<Rightarrow> string" where
  "token_entry t = role_name (tok_Role t) @ '':'' @ tok_Value t"

fun join_comma :: "string list \<Rightarrow> string" where
  "join_comma [] = []"
| "join_comma [s] = s"
| "join_comma (s # ss) = s @ '','' @ join_comma ss"

definition plain_value :: "string \<Rightarrow> bool" where
  "plain_value s \<longleftrightarrow> s \<noteq> [] \<and> CHR '','' \<notin> set s \<and> \<not> is_space (hd s) \<and> \<not> is_space (last s)"

lemma Split_plain: "sep \<notin> set s \<Longrightarrow> Split sep s = [s]"
  by (induction s) auto

lemma Split_append: "sep \<notin> set s \<Longrightarrow> Split sep (s @ sep # rest) = s # Split sep rest"
  by (induction s) auto

lemma Split_join: "ss \<noteq> [] \<Longrightarrow> \<forall>s\<in>set ss. CHR '','' \<notin> set s \<Longrightarrow> Split CHR '','' (join_comma ss) = ss"
  by (induction ss rule: join_comma.induct) (auto simp: Split_plain Split_append)

lemma TrimSpace_plain:
  assumes "s \<noteq> []" and "\<not> is_space (hd s)" and "\<not> is_space (last s)"
  shows "TrimSpace s = s"
proof -
  have left: "dropWhile is_space s = s" using assms(1,2) by (cases s) auto
  have "dropWhile is_space (rev s) = rev s" using assms(1,3) by (cases s rule: rev_cases) auto
  with left show ?thesis by (simp add: TrimSpace_def)
qed

lemma role_name_facts:
  "role_name r \<noteq> [] \<and> CHR '':'' \<notin> set (role_name r) \<and> CHR '','' \<notin> set (role_name r)
   \<and> \<not> is_space (hd (role_name r)) \<and> \<not> is_space (last (role_name r)) \<and> parseRole (role_name r) = Some r"
  by (cases r) (simp_all add: is_space_def parseRole_def ToLower_def lower_char_def)

lemma entry_parsed:
  assumes "plain_value (tok_Value t)"
  shows "Split2 CHR '':'' (TrimSpace (token_entry t)) = Some (role_name (tok_Role t), tok_Value t)"
proof -
  note r = role_name_facts [of "tok_Role t"]
  have "TrimSpace (token_entry t) = token_entry t"
    using assms r by (intro TrimSpace_plain) (auto simp: token_entry_def plain_value_def)
  moreover have "takeWhile (\<lambda>c. c \<noteq> CHR '':'') (token_entry t) = role_name (tok_Role t)"
    and "dropWhile (\<lambda>c. c \<noteq> CHR '':'') (token_entry t) = CHR '':'' # tok_Value t"
    using r by (auto simp: token_entry_def takeWhile_append dropWhile_append)
  ultimately show ?thesis by (simp add: Split2_def token_entry_def)
qed

lemma parse_tokens_entries:
  "\<forall>t\<in>set ts. plain_value (tok_Value t) \<Longrightarrow> tok_Value ` set ts \<inter> set seen = {} \<Longrightarrow> distinct (map tok_Value ts) \<Longrightarrow>
   parse_tokens_loop seen (map token_entry ts) = Inr ts"
proof (induction ts arbitrary: seen)
  case Nil
  then show ?case by simp
next
  case (Cons t ts)
  have trim: "TrimSpace (tok_Value t) = tok_Value t" "TrimSpace (role_name (tok_Role t)) = role_name (tok_Role t)"
    using Cons.prems role_name_facts [of "tok_Role t"] by (auto intro!: TrimSpace_plain simp: plain_value_def)
  have "parse_tokens_loop (tok_Value t # seen) (map token_entry ts) = Inr ts"
    using Cons.prems by (intro Cons.IH) auto
  then show ?case
    using Cons.prems role_name_facts [of "tok_Role t"]
    by (simp add: entry_parsed trim Let_def) (auto simp: plain_value_def)
qed

lemma tokens_roundtrip:
  assumes "ts \<noteq> []" and "\<forall>t\<in>set ts. plain_value (tok_Value t)" and "distinct (map tok_Value ts)"
  shows "parseAPITokens (join_comma (map token_entry ts)) = Inr ts"
proof -
  have "\<forall>s\<in>set (map token_entry ts). CHR '','' \<notin> set s"
    using assms(2) role_name_facts by (auto simp: token_entry_def plain_value_def)
  then show ?thesis
    using assms parse_tokens_entries [of ts "[]"] by (simp add: parseAPITokens_def Split_join)
qed

section \<open>What accepted configuration guarantees\<close>

text \<open>
  The doubled renewal interval wraps around from \<open>2 ^ 62\<close> nanoseconds on, and timing whose
  renewal interval is longer than its lease is accepted.
\<close>

lemma timing_overflow:
  "\<exists>t. Timing_Validate t = None \<and> LeaseDuration t < LeaseRenewInterval t \<and> in_int64 (LeaseRenewInterval t)"
proof
  let ?t = "DefaultTiming\<lparr>LeaseRenewInterval := 2 ^ 62\<rparr>"
  show "Timing_Validate ?t = None \<and> LeaseDuration ?t < LeaseRenewInterval ?t \<and> in_int64 (LeaseRenewInterval ?t)"
    by code_simp
qed



end
