(* ===== verification/Relab_Retry.thy ===== *)
theory Relab_Retry
  imports Relab_Workflow Relab_Config
begin

text \<open>
  Backoff (\<^verbatim>\<open>internal/retry/retry.go\<close>) and the derived random source of \<^verbatim>\<open>internal/engine/rng.go\<close>.
  A draw is a function of the run's seed and of the parts that name it: the parts are
  written length-prefixed to FNV-128a and the sum seeds a PCG generator, both at their
  width.  Floating-point rounding and \<^verbatim>\<open>math.Pow\<close> are arguments of \<open>Delay\<close>; the facts
  about it name what they use of them.
\<close>

unbundle bit_operations_syntax

section \<open>Derived draws\<close>

text \<open>\<^verbatim>\<open>binary.BigEndian\<close>: the \<open>n\<close> low bytes of a value, most significant first.\<close>

definition be_bytes :: "nat \<Rightarrow> int \<Rightarrow> 8 word list" where
  "be_bytes n v = map (\<lambda>i. word_of_int (v div 256 ^ (n - 1 - i))) [0..<n]"

definition byte :: "char \<Rightarrow> 8 word" where
  "byte c = word_of_nat (of_char c)"

fun part_bytes :: "string list \<Rightarrow> 8 word list" where
  "part_bytes [] = []"
| "part_bytes (p # ps) = be_bytes 4 (int (length p)) @ map byte p @ part_bytes ps"

definition draw_bytes :: "int \<Rightarrow> string list \<Rightarrow> 8 word list" where
  "draw_bytes seed parts = be_bytes 8 seed @ part_bytes parts"

definition fnv128a :: "8 word list \<Rightarrow> 128 word" where
  "fnv128a bs = fold (\<lambda>b h. (h XOR ucast b) * 309485009821345068724781371) bs
                  144066263297769815596495629667062367629"

definition pcg_next :: "128 word \<Rightarrow> 128 word" where
  "pcg_next s = s * 47026247687942121848144207491837523525 + 117397592171526113268558934119004209487"

definition pcg_output :: "128 word \<Rightarrow> 64 word" where
  "pcg_output s =
     (let hi = (ucast (drop_bit 64 s) :: 64 word);
          lo = (ucast s :: 64 word);
          hi1 = (hi XOR drop_bit 32 hi) * 0xda942042e4dd58b5;
          hi2 = hi1 XOR drop_bit 48 hi1
      in hi2 * (lo OR 1))"

text \<open>
  \<open>DerivedRand\<close> is the generator's initial state; \<open>Float64\<close> is its first draw, the low
  53 bits of the output over \<open>2 ^ 53\<close>, which a float64 holds exactly.
\<close>

definition DerivedRand :: "int \<Rightarrow> string list \<Rightarrow> 128 word" where
  "DerivedRand seed parts = fnv128a (draw_bytes seed parts)"

definition Float64 :: "128 word \<Rightarrow> rat" where
  "Float64 s = of_int (uint (take_bit 53 (pcg_output (pcg_next s)))) / 2 ^ 53"

section \<open>Policies\<close>

definition FromWorkflow :: "retry_policy \<Rightarrow> retry_policy" where
  "FromWorkflow p =
     \<lparr>rp_MaxAttempts = rp_MaxAttempts p, rp_InitialDelay = rp_InitialDelay p,
      rp_Multiplier = rp_Multiplier p, rp_MaxDelay = rp_MaxDelay p, rp_Jitter = rp_Jitter p\<rparr>"

definition ShouldRetry :: "retry_policy \<Rightarrow> int \<Rightarrow> bool \<Rightarrow> bool" where
  "ShouldRetry p attempt permanent = (if permanent then False else attempt < rp_MaxAttempts p)"

datatype retry_error = BadAttempts | BadDelay | BadGrowth | BadJitterRange

definition Policy_Validate :: "retry_policy \<Rightarrow> retry_error option" where
  "Policy_Validate p =
     (if rp_MaxAttempts p < 1 then Some BadAttempts
      else if rp_InitialDelay p < 0 then Some BadDelay
      else if rp_MaxAttempts p > 1 \<and> rp_Multiplier p < 1 then Some BadGrowth
      else if rp_Jitter p < 0 \<or> rp_Jitter p > 1 then Some BadJitterRange
      else None)"

section \<open>Delay\<close>

text \<open>
  \<open>fl\<close> rounds to a float64, \<open>pow\<close> is \<^verbatim>\<open>math.Pow\<close> with \<open>None\<close> for positive infinity, and
  \<open>huge\<close> is what the conversion to an integer yields for a value outside 64 bits, which
  the language leaves to the implementation.
\<close>

record arith =
  fl :: "rat \<Rightarrow> rat"
  pow :: "rat \<Rightarrow> rat \<Rightarrow> rat option"
  huge :: "rat \<Rightarrow> int"

definition MaxFloat64 :: rat where
  "MaxFloat64 = 2 ^ 1024 - 2 ^ 971"

definition trunc_rat :: "rat \<Rightarrow> int" where
  "trunc_rat x = (if x < 0 then \<lceil>x\<rceil> else \<lfloor>x\<rfloor>)"

definition to_int64 :: "arith \<Rightarrow> rat \<Rightarrow> int" where
  "to_int64 ar x = (if in_int64 (trunc_rat x) then trunc_rat x else huge ar x)"

definition grown :: "arith \<Rightarrow> retry_policy \<Rightarrow> int \<Rightarrow> rat" where
  "grown ar p attempt =
     (let base = fl ar (of_int (rp_InitialDelay p)) in
      if rp_Multiplier p > 1 then
        (case pow ar (rp_Multiplier p) (fl ar (of_int (attempt - 1))) of
           None \<Rightarrow> fl ar (of_int (rp_MaxDelay p))
         | Some growth \<Rightarrow>
             if growth > fl ar (MaxFloat64 / max base 1) then fl ar (of_int (rp_MaxDelay p))
             else fl ar (base * growth))
      else base)"

definition capped :: "arith \<Rightarrow> retry_policy \<Rightarrow> int \<Rightarrow> rat" where
  "capped ar p attempt =
     (let base = grown ar p attempt in
      if rp_MaxDelay p > 0 \<and> base > fl ar (of_int (rp_MaxDelay p))
      then fl ar (of_int (rp_MaxDelay p)) else base)"

definition jittered :: "arith \<Rightarrow> retry_policy \<Rightarrow> rat \<Rightarrow> rat \<Rightarrow> rat" where
  "jittered ar p base f =
     (if rp_Jitter p > 0
      then fl ar (base * fl ar (1 + fl ar (rp_Jitter p * fl ar (fl ar (2 * f) - 1))))
      else base)"

definition Delay :: "arith \<Rightarrow> retry_policy \<Rightarrow> int \<Rightarrow> rat \<Rightarrow> duration" where
  "Delay ar p attempt0 f =
     (let attempt = (if attempt0 < 1 then 1 else attempt0);
          base = jittered ar p (capped ar p attempt) f;
          base' = (if base < 0 then 0 else base)
      in to_int64 ar base')"

section \<open>Facts about draws\<close>

lemma length_be_bytes [simp]: "length (be_bytes n v) = n"
  by (simp add: be_bytes_def)

lemma Float64_range: "0 \<le> Float64 s \<and> Float64 s < 1"
proof -
  define k where "k = uint (take_bit 53 (pcg_output (pcg_next s)))"
  have "0 \<le> k" and "k < 2 ^ 53"
    using take_bit_int_less_exp [of 53] by (simp_all add: k_def unsigned_take_bit_eq)
  then have "0 \<le> (of_int k :: rat)" and "(of_int k :: rat) < of_int (2 ^ 53)"
    by (simp_all only: of_int_0_le_iff of_int_less_iff)
  then show ?thesis unfolding Float64_def k_def [symmetric] by simp
qed

text \<open>The byte streams of two draws are equal only when the draws are named alike.\<close>

lemma be_bytes_Suc: "be_bytes (Suc n) v = be_bytes n (v div 256) @ [word_of_int v]"
proof -
  have "v div 256 ^ (n - i) = v div 256 div 256 ^ (n - Suc i)" if "i < n" for i
  proof -
    have "n - i = Suc (n - Suc i)" using that by simp
    then show ?thesis by (simp only: power_Suc) (simp add: zdiv_zmult2_eq)
  qed
  then show ?thesis by (simp add: be_bytes_def)
qed

definition from_be :: "8 word list \<Rightarrow> int" where
  "from_be bs = foldl (\<lambda>a b. a * 256 + uint b) 0 bs"

lemma from_be_bytes: "from_be (be_bytes n v) = v mod 256 ^ n"
proof (induction n arbitrary: v)
  case 0
  then show ?case by (simp add: be_bytes_def from_be_def)
next
  case (Suc n)
  have "from_be (be_bytes (Suc n) v) = from_be (be_bytes n (v div 256)) * 256 + v mod 256"
    by (simp add: be_bytes_Suc from_be_def uint_word_of_int)
  also have "\<dots> = v mod (256 * 256 ^ n)"
    using zmod_zmult2_eq [of "256 ^ n" v 256] by (simp add: Suc.IH)
  finally show ?case by simp
qed

lemma be_bytes_inj:
  assumes "be_bytes n v = be_bytes n w" and "v mod 256 ^ n = v" and "w mod 256 ^ n = w"
  shows "v = w"
  using from_be_bytes [of n v] from_be_bytes [of n w] assms by metis

lemma be_bytes_seed_inj:
  assumes "be_bytes 8 v = be_bytes 8 w" and "in_int64 v" and "in_int64 w"
  shows "v = w"
proof -
  have "v mod 2 ^ 64 = w mod 2 ^ 64"
    using assms(1) from_be_bytes [of 8 v] from_be_bytes [of 8 w] by simp
  then have "wrap64 v = wrap64 w" by (simp add: wrap64_def mod_add_cong)
  with assms show ?thesis by (simp add: wrap64_id)
qed

lemma byte_inj: "inj byte"
proof (rule injI)
  fix c d :: char
  assume "byte c = byte d"
  then have "unat (byte c) = unat (byte d)" by simp
  then have "(of_char c :: nat) mod 256 = of_char d mod 256" by (simp add: byte_def unat_of_nat)
  then show "c = d" by (simp add: of_char_mod_256)
qed

lemma part_bytes_inj:
  "part_bytes ps = part_bytes qs \<Longrightarrow> \<forall>p\<in>set ps. length p < 2 ^ 32 \<Longrightarrow> \<forall>q\<in>set qs. length q < 2 ^ 32 \<Longrightarrow> ps = qs"
proof (induction ps arbitrary: qs)
  case Nil
  then show ?case by (cases qs) (auto dest: arg_cong [of _ _ length])
next
  case (Cons p ps)
  from Cons.prems(1) obtain q qs' where qs: "qs = q # qs'"
    by (cases qs) (auto dest: arg_cong [of _ _ length])
  with Cons.prems(1) have len: "be_bytes 4 (int (length p)) = be_bytes 4 (int (length q))"
    and rest: "map byte p @ part_bytes ps = map byte q @ part_bytes qs'"
    by (simp_all add: append_eq_append_conv)
  have "int (length p) = int (length q)"
    by (rule be_bytes_inj [OF len]) (use Cons.prems qs in auto)
  with rest have "map byte p = map byte q" and tl: "part_bytes ps = part_bytes qs'"
    by (simp_all add: append_eq_append_conv)
  then have "p = q" using byte_inj by (simp add: inj_map_eq_map)
  moreover have "ps = qs'" using Cons.IH [OF tl] Cons.prems qs by simp
  ultimately show ?case using qs by simp
qed

lemma draw_bytes_inj:
  assumes "draw_bytes s ps = draw_bytes t qs" and "in_int64 s" and "in_int64 t"
    and "\<forall>p\<in>set ps. length p < 2 ^ 32" and "\<forall>q\<in>set qs. length q < 2 ^ 32"
  shows "s = t \<and> ps = qs"
proof -
  from assms(1) have "be_bytes 8 s = be_bytes 8 t" and "part_bytes ps = part_bytes qs"
    by (simp_all add: draw_bytes_def append_eq_append_conv)
  then show ?thesis using be_bytes_seed_inj part_bytes_inj assms(2-5) by blast
qed

section \<open>Facts about delays\<close>

text \<open>
  What the bound on delays uses of the arithmetic: rounding is monotone, is idempotent and
  leaves the small numbers alone, and a power of a number above one is not negative.  The
  parameters of a policy are float64 values.
\<close>

definition arith_ok :: "arith \<Rightarrow> bool" where
  "arith_ok ar \<longleftrightarrow>
     mono (fl ar) \<and> (\<forall>x. fl ar (fl ar x) = fl ar x)
     \<and> fl ar 0 = 0 \<and> fl ar 1 = 1 \<and> fl ar (- 1) = - 1 \<and> fl ar 2 = 2
     \<and> (\<forall>x y g. 1 < x \<longrightarrow> pow ar x y = Some g \<longrightarrow> 0 \<le> g)"

lemma fl_nonneg: "arith_ok ar \<Longrightarrow> 0 \<le> x \<Longrightarrow> 0 \<le> fl ar x"
  by (metis arith_ok_def monoD)

lemma capped_bounds:
  assumes ar: "arith_ok ar" and p: "0 \<le> rp_InitialDelay p" "0 < rp_MaxDelay p"
  shows "0 \<le> capped ar p n \<and> capped ar p n \<le> fl ar (of_int (rp_MaxDelay p))"
proof -
  have init: "0 \<le> fl ar (of_int (rp_InitialDelay p))" using ar p(1) by (simp add: fl_nonneg)
  have m: "0 \<le> fl ar (of_int (rp_MaxDelay p))" using ar p(2) by (simp add: fl_nonneg)
  have pw: "0 \<le> g" if "1 < x" "pow ar x y = Some g" for x y g
    using ar that by (simp add: arith_ok_def)
  have "0 \<le> grown ar p n"
    using init m by (auto simp: grown_def Let_def split: option.splits intro!: fl_nonneg [OF ar] mult_nonneg_nonneg dest: pw)
  then show ?thesis using m p(2) by (auto simp: capped_def Let_def)
qed

lemma jitter_factor:
  assumes ar: "arith_ok ar" and j: "0 \<le> j" "j \<le> 1" "fl ar j = j" and f: "0 \<le> f" "f < 1"
  shows "0 \<le> fl ar (1 + fl ar (j * fl ar (fl ar (2 * f) - 1)))
    \<and> fl ar (1 + fl ar (j * fl ar (fl ar (2 * f) - 1))) \<le> fl ar (1 + j)"
proof -
  have mono: "fl ar x \<le> fl ar y" if "x \<le> y" for x y using ar that by (auto simp: arith_ok_def dest: monoD)
  have c: "fl ar 0 = 0" "fl ar 1 = 1" "fl ar (- 1) = - 1" "fl ar 2 = 2" using ar by (simp_all add: arith_ok_def)
  have "0 \<le> fl ar (2 * f)" "fl ar (2 * f) \<le> 2" using mono [of 0 "2 * f"] mono [of "2 * f" 2] f c by auto
  then have u: "- 1 \<le> fl ar (fl ar (2 * f) - 1)" "fl ar (fl ar (2 * f) - 1) \<le> 1"
    using mono [of "- 1" "fl ar (2 * f) - 1"] mono [of "fl ar (2 * f) - 1" 1] c by auto
  let ?u = "fl ar (fl ar (2 * f) - 1)"
  have "- 1 \<le> j * ?u" using j u mult_left_mono [of "- 1" ?u j] by linarith
  moreover have "j * ?u \<le> j" using j u mult_left_mono [of ?u 1 j] by linarith
  ultimately have v: "- 1 \<le> fl ar (j * ?u)" "fl ar (j * ?u) \<le> j"
    using mono [of "- 1" "j * ?u"] mono [of "j * ?u" j] c j by auto
  then show ?thesis using mono [of 0 "1 + fl ar (j * ?u)"] mono [of "1 + fl ar (j * ?u)" "1 + j"] c by auto
qed

text \<open>
  A delay is never negative and never above the cap by more than the jitter, as long as
  that bound fits a duration at all.
\<close>

lemma Delay_bounds:
  assumes ar: "arith_ok ar" and valid: "Policy_Validate p = None" and cap: "0 < rp_MaxDelay p"
    and j: "fl ar (rp_Jitter p) = rp_Jitter p" and f: "0 \<le> f" "f < 1"
    and fits: "fl ar (fl ar (of_int (rp_MaxDelay p)) * fl ar (1 + rp_Jitter p)) < 2 ^ 63"
  shows "0 \<le> Delay ar p n f
    \<and> of_int (Delay ar p n f) \<le> fl ar (fl ar (of_int (rp_MaxDelay p)) * fl ar (1 + rp_Jitter p))"
proof -
  let ?M = "fl ar (of_int (rp_MaxDelay p))" and ?B = "fl ar (fl ar (of_int (rp_MaxDelay p)) * fl ar (1 + rp_Jitter p))"
  let ?n = "if n < 1 then 1 else n"
  have p: "0 \<le> rp_InitialDelay p" "0 \<le> rp_Jitter p" "rp_Jitter p \<le> 1"
    using valid by (auto simp: Policy_Validate_def split: if_splits)
  have mono: "fl ar x \<le> fl ar y" if "x \<le> y" for x y using ar that by (auto simp: arith_ok_def dest: monoD)
  have c: "0 \<le> capped ar p ?n" "capped ar p ?n \<le> ?M" using capped_bounds [OF ar p(1) cap] by auto
  have M: "0 \<le> ?M" using c by linarith
  have J: "1 \<le> fl ar (1 + rp_Jitter p)" using mono [of 1 "1 + rp_Jitter p"] p ar by (simp add: arith_ok_def)
  have "0 \<le> jittered ar p (capped ar p ?n) f \<and> jittered ar p (capped ar p ?n) f \<le> ?B"
  proof (cases "0 < rp_Jitter p")
    case True
    let ?F = "fl ar (1 + fl ar (rp_Jitter p * fl ar (fl ar (2 * f) - 1)))"
    have F: "0 \<le> ?F" "?F \<le> fl ar (1 + rp_Jitter p)" using jitter_factor [OF ar p(2,3) j f] by auto
    then have "capped ar p ?n * ?F \<le> ?M * fl ar (1 + rp_Jitter p)" using c M by (intro mult_mono) auto
    then show ?thesis using True c F by (auto simp: jittered_def intro!: mono fl_nonneg [OF ar])
  next
    case False
    then have "?M \<le> ?B"
      using mono [of "of_int (rp_MaxDelay p)" "?M * fl ar (1 + rp_Jitter p)"] mono [of ?M "?M * fl ar (1 + rp_Jitter p)"]
        mult_left_mono [OF J M] ar by (simp add: arith_ok_def)
    then show ?thesis using False c by (simp add: jittered_def)
  qed
  then obtain b where b: "b = jittered ar p (capped ar p ?n) f" "0 \<le> b" "b \<le> ?B" by blast
  have "\<lfloor>b\<rfloor> < 2 ^ 63" using b(3) fits by (simp add: floor_less_iff)
  then have "in_int64 \<lfloor>b\<rfloor>" using b(2) by (simp add: in_int64_def)
  then have "Delay ar p n f = \<lfloor>b\<rfloor>"
    using b(1,2) by (simp add: Delay_def Let_def to_int64_def trunc_rat_def)
  then show ?thesis using b(2) order_trans [OF of_int_floor_le b(3)] by simp
qed

section \<open>What retries guarantee\<close>

text \<open>
  Two random draws are seeded from the same bytes only when they have the same run seed
  and the same name parts, so the jitter of different tasks or attempts is drawn
  independently and a replay draws what the original did.
\<close>

lemma draws_separate:
  assumes "draw_bytes s ps = draw_bytes t qs" and "in_int64 s" and "in_int64 t"
    and "\<forall>p\<in>set ps. length p < 2 ^ 32" and "\<forall>q\<in>set qs. length q < 2 ^ 32"
  shows "s = t \<and> ps = qs"
  using assms by (rule draw_bytes_inj)

text \<open>
  (C23) A draw is in the half-open unit interval, and the delay it gives is not negative and
  above the policy's cap by at most the jitter, provided the cap is set and that bound fits a
  duration.
\<close>

theorem delay_within_bounds:
  assumes "arith_ok ar" and "Policy_Validate p = None" and "0 < rp_MaxDelay p" and "fl ar (rp_Jitter p) = rp_Jitter p"
    and "fl ar (fl ar (of_int (rp_MaxDelay p)) * fl ar (1 + rp_Jitter p)) < 2 ^ 63"
  shows "0 \<le> Delay ar p n (Float64 s)
    \<and> of_int (Delay ar p n (Float64 s)) \<le> fl ar (fl ar (of_int (rp_MaxDelay p)) * fl ar (1 + rp_Jitter p))"
  using Float64_range [of s] by (intro Delay_bounds assms) auto

theorem delay_within_bounds_witness:
  "0 \<le> Delay \<lparr>fl = id, pow = (\<lambda>x y. Some x), huge = (\<lambda>x. 0)\<rparr> DefaultRetryPolicy 2 (Float64 5)"
proof -
  let ?ar = "\<lparr>fl = id, pow = (\<lambda>x y. Some x), huge = (\<lambda>x. 0)\<rparr>"
  have "arith_ok ?ar" by (auto simp: arith_ok_def mono_def)
  moreover have "Policy_Validate DefaultRetryPolicy = None" by code_simp
  ultimately show ?thesis
    using delay_within_bounds [of ?ar DefaultRetryPolicy 2 5]
    by (simp add: DefaultRetryPolicy_def second_def millisecond_def)
qed

text \<open>
  A policy that sets no cap is valid, and its delay then grows until the conversion to a
  duration is left to the implementation: the value can be anything it yields, a negative
  number included.
\<close>

lemma uncapped_delay_overflows:
  "\<exists>p. Policy_Validate p = None \<and>
     Delay \<lparr>fl = id, pow = (\<lambda>x y. if y = 36 then Some (2 ^ 36) else Some 1), huge = h\<rparr> p 37 0 = h (of_int (second * 2 ^ 36))"
proof
  let ?p = "DefaultRetryPolicy\<lparr>rp_MaxDelay := 0, rp_Jitter := 0\<rparr>"
  show "Policy_Validate ?p = None \<and>
     Delay \<lparr>fl = id, pow = (\<lambda>x y. if y = 36 then Some (2 ^ 36) else Some 1), huge = h\<rparr> ?p 37 0 = h (of_int (second * 2 ^ 36))"
    by (simp add: Policy_Validate_def DefaultRetryPolicy_def Delay_def Let_def capped_def grown_def jittered_def to_int64_def
        trunc_rat_def in_int64_def second_def millisecond_def MaxFloat64_def)
qed

end
