(* ===== verification/Relab_Engine.thy ===== *)
theory Relab_Engine
  imports Relab_Journal Relab_Retry
begin

text \<open>
  The engine's environment and the operations of \<^verbatim>\<open>internal/engine\<close> that register workflows
  and create and read runs (\<^verbatim>\<open>engine.go\<close>, \<^verbatim>\<open>types.go\<close>, \<^verbatim>\<open>workflows.go\<close>, \<^verbatim>\<open>runs.go\<close>).  Every
  operation is a function of the environment, the clock reading it makes, the identifiers
  \<^verbatim>\<open>uuid.New\<close> hands it, and the database.
\<close>

section \<open>Environment and values\<close>

text \<open>
  The timing the engine was built with and the libraries it calls: the text of a UUID, the
  YAML decoder and encoder, the hexadecimal SHA-256 digest and floating-point arithmetic.
\<close>

record env =
  env_timing :: timing
  env_uuid_String :: "uuid \<Rightarrow> string"
  env_yaml_decode :: "string \<Rightarrow> string + wf_definition"
  env_yaml_marshal :: "wf_definition \<Rightarrow> string"
  env_sha256 :: "string \<Rightarrow> string"
  env_arith :: arith

text \<open>A \<^verbatim>\<open>Task\<close> is the row \<open>scanTask\<close> reads; a worker keeps such a copy while the row moves on.\<close>

type_synonym task = task_row

record create_run_options =
  co_ScenarioName :: string
  co_ScenarioHash :: string
  co_Seed :: int
  co_CorrelationID :: string
  co_Now :: time

record run =
  run_ID :: uuid
  run_WorkflowID :: uuid
  run_WorkflowName :: string
  run_WorkflowVer :: int
  run_Status :: run_status
  run_ScenarioName :: string
  run_Seed :: int
  run_EventSeq :: int
  run_CorrelationID :: string
  run_FailureReason :: string
  run_CreatedAt :: time
  run_StartedAt :: "time option"
  run_CompletedAt :: "time option"

text \<open>\<open>New\<close> refuses timing that does not validate; zero timing means the defaults.\<close>

definition zero_timing :: timing where
  "zero_timing = \<lparr>LeaseDuration = 0, LeaseRenewInterval = 0, HeartbeatInterval = 0, SuspectAfterBeats = 0,
                  LostAfterBeats = 0, ReaperInterval = 0, TaskTimeout = 0\<rparr>"

definition New :: "timing \<Rightarrow> config_error + timing" where
  "New opts_timing =
     (let t = (if opts_timing = zero_timing then DefaultTiming else opts_timing) in
      case Timing_Validate t of Some e \<Rightarrow> Inl e | None \<Rightarrow> Inr t)"

definition NewSeed :: "64 word \<Rightarrow> int" where
  "NewSeed buf = uint (buf AND NOT (push_bit 63 1))"

definition idempotencyPrefix :: "env \<Rightarrow> uuid \<Rightarrow> string \<Rightarrow> string" where
  "idempotencyPrefix env rid name = env_uuid_String env rid @ '':'' @ name"

definition coalesce :: "string option \<Rightarrow> string" where
  "coalesce s = (case s of None \<Rightarrow> [] | Some x \<Rightarrow> x)"

section \<open>Workflows\<close>

definition WorkflowByName :: "string \<Rightarrow> int \<Rightarrow> db \<Rightarrow> error + workflow_row" where
  "WorkflowByName name version db =
     (if version \<le> 0 then
        (case rev (sort_key w_version (filter (\<lambda>w. w_name w = name) (workflows db))) of
           [] \<Rightarrow> Inl ErrNotFound | w # _ \<Rightarrow> Inr w)
      else
        (case find (\<lambda>w. w_name w = name \<and> w_version w = version) (workflows db) of
           None \<Rightarrow> Inl ErrNotFound | Some w \<Rightarrow> Inr w))"

definition WorkflowByID :: "uuid \<Rightarrow> db \<Rightarrow> error + workflow_row" where
  "WorkflowByID wid db =
     (case find (\<lambda>w. w_id w = wid) (workflows db) of None \<Rightarrow> Inl ErrNotFound | Some w \<Rightarrow> Inr w)"

definition same_hash :: "workflow_row \<Rightarrow> wf_definition \<Rightarrow> error + workflow_row" where
  "same_hash w def = (if w_definition_hash w \<noteq> d_Hash def then Inl ErrDefinitionChanged else Inr w)"

definition registerRaced :: "wf_definition \<Rightarrow> db \<Rightarrow> error + workflow_row" where
  "registerRaced def db =
     (case WorkflowByName (d_Name def) (d_Version def) db of
        Inl e \<Rightarrow> Inl e | Inr w \<Rightarrow> same_hash w def)"

definition RegisterWorkflow ::
  "env \<Rightarrow> uuid \<Rightarrow> time \<Rightarrow> wf_definition \<Rightarrow> db \<Rightarrow> (error + workflow_row) \<times> db" where
  "RegisterWorkflow env wid dbnow def db =
     (case WorkflowByName (d_Name def) (d_Version def) db of
        Inr w \<Rightarrow> (same_hash w def, db)
      | Inl e \<Rightarrow>
          if e \<noteq> ErrNotFound then (Inl e, db)
          else
            let wfl = \<lparr>w_id = wid, w_name = d_Name def, w_version = d_Version def,
                      w_definition_yaml = env_yaml_marshal env def, w_definition_hash = d_Hash def,
                      w_created_at = dbnow\<rparr>
            in case InTx (insert_workflow wfl) db of
                 (Inr _, db') \<Rightarrow> (Inr wfl, db')
               | (Inl err, db') \<Rightarrow>
                   if err = ErrConflict then (registerRaced def db', db') else (Inl err, db'))"

text \<open>The stored definition, parsed again and checked against its recorded hash.\<close>

definition Definition :: "env \<Rightarrow> uuid \<Rightarrow> db \<Rightarrow> error + wf_definition" where
  "Definition env wid db =
     (case WorkflowByID wid db of
        Inl e \<Rightarrow> Inl e
      | Inr w \<Rightarrow>
         (case Parse (env_yaml_decode env) (env_yaml_marshal env) (env_sha256 env) (w_definition_yaml w) None of
            Inl pe \<Rightarrow> Inl (ErrParse pe)
          | Inr def \<Rightarrow>
              if d_Hash def \<noteq> w_definition_hash w
              then Inl (ErrHashMismatch (d_Hash def) (w_definition_hash w)) else Inr def))"

definition tx_lift :: "(db \<Rightarrow> error + 'a) \<Rightarrow> 'a tx" where
  "tx_lift f = (\<lambda>db. case f db of Inl e \<Rightarrow> Inl e | Inr x \<Rightarrow> Inr (x, db))"

definition definitionForRun :: "env \<Rightarrow> uuid \<Rightarrow> wf_definition tx" where
  "definitionForRun env rid =
     tx_bind (tx_row (run_by_id rid)) (\<lambda>r. tx_lift (Definition env (r_workflow_id r)))"

definition retryPolicyFor :: "wf_definition \<Rightarrow> string \<Rightarrow> retry_policy" where
  "retryPolicyFor def name = FromWorkflow (RetryFor def name)"

section \<open>Creating a run\<close>

definition at_run :: "time \<Rightarrow> meta" where
  "at_run now = \<lparr>m_TaskName = [], m_WorkerID = None, m_OccurredAt = now\<rparr>"

definition at_task :: "string \<Rightarrow> uuid option \<Rightarrow> time \<Rightarrow> meta" where
  "at_task name w now = \<lparr>m_TaskName = name, m_WorkerID = w, m_OccurredAt = now\<rparr>"

definition append :: "time \<Rightarrow> uuid \<Rightarrow> payload \<Rightarrow> meta \<Rightarrow> unit tx" where
  "append now rid p m = tx_bind (Append now rid p m) (\<lambda>_. tx_return ())"

definition new_task_row :: "env \<Rightarrow> wf_definition \<Rightarrow> uuid \<Rightarrow> time \<Rightarrow> uuid \<Rightarrow> step \<Rightarrow> task_row" where
  "new_task_row env def rid now tid st =
     \<lparr>t_id = tid, t_run_id = rid, t_name = st_Name st, t_attempt = 0,
      t_max_attempts = rp_MaxAttempts (RetryFor def (st_Name st)),
      t_status = (if st_DependsOn st = [] then TaskReady else TaskPending),
      t_worker_id = None, t_lease_expires_at = None, t_scheduled_at = now, t_started_at = None,
      t_completed_at = None, t_output_ref = None, t_error = None,
      t_idempotency_key = idempotencyPrefix env rid (st_Name st), t_created_at = now, t_updated_at = now\<rparr>"

definition create_task :: "env \<Rightarrow> wf_definition \<Rightarrow> uuid \<Rightarrow> time \<Rightarrow> uuid \<Rightarrow> step \<Rightarrow> unit tx" where
  "create_task env def rid now tid st =
     tx_bind (insert_task (new_task_row env def rid now tid st)) (\<lambda>_.
     if st_DependsOn st = []
     then append now rid (TaskScheduledPayload 0 now (st_DependsOn st)) (at_task (st_Name st) None now)
     else tx_return ())"

definition new_run_row :: "uuid \<Rightarrow> uuid \<Rightarrow> create_run_options \<Rightarrow> int \<Rightarrow> time \<Rightarrow> run_row" where
  "new_run_row rid wid opts seed now =
     \<lparr>r_id = rid, r_workflow_id = wid, r_status = RunCreated, r_scenario_name = nullString (co_ScenarioName opts),
      r_seed = seed, r_event_seq = 0, r_correlation_id = nullString (co_CorrelationID opts),
      r_failure_reason = None, r_created_at = now, r_started_at = None, r_completed_at = None\<rparr>"

definition create_run_tx ::
  "env \<Rightarrow> uuid \<Rightarrow> (nat \<Rightarrow> uuid) \<Rightarrow> workflow_row \<Rightarrow> wf_definition \<Rightarrow> create_run_options \<Rightarrow> int \<Rightarrow> time \<Rightarrow> unit tx" where
  "create_run_tx env rid new_id wfl def opts seed now =
     tx_bind (insert_run (new_run_row rid (w_id wfl) opts seed now)) (\<lambda>_.
     tx_bind (append now rid (RunCreatedPayload (w_name wfl) (w_version wfl) (w_definition_hash wfl)
                (co_ScenarioName opts) (co_ScenarioHash opts) seed (co_CorrelationID opts)) (at_run now)) (\<lambda>_.
     tx_bind (tx_for (enumerate 0 (d_Steps def)) (\<lambda>(i, st). create_task env def rid now (new_id i) st)) (\<lambda>_.
     tx_bind (tx_check (map_option ErrIllegal (RunStatus_Transition RunCreated RunQueued))) (\<lambda>_.
     tx_bind (update_runs (\<lambda>r. r_id r = rid \<and> r_status r = RunCreated) (\<lambda>r. r\<lparr>r_status := RunQueued\<rparr>)) (\<lambda>_.
     append now rid (RunQueuedPayload (int (length (d_Steps def)))) (at_run now))))))"

definition CreateRun ::
  "env \<Rightarrow> 64 word \<Rightarrow> uuid \<Rightarrow> (nat \<Rightarrow> uuid) \<Rightarrow> time \<Rightarrow> workflow_row \<Rightarrow> wf_definition \<Rightarrow> create_run_options
   \<Rightarrow> db \<Rightarrow> (error + run) \<times> db" where
  "CreateRun env rnd rid new_id clock wfl def opts db =
     (if d_Hash def \<noteq> w_definition_hash wfl then (Inl (ErrHashMismatch (d_Hash def) (w_definition_hash wfl)), db)
      else
        let seed = (if co_Seed opts = 0 then NewSeed rnd else co_Seed opts);
            now = (if IsZero (co_Now opts) then clock else co_Now opts)
        in case InTx (create_run_tx env rid new_id wfl def opts seed now) db of
             (Inl e, db') \<Rightarrow> (Inl e, db')
           | (Inr _, db') \<Rightarrow>
               (Inr \<lparr>run_ID = rid, run_WorkflowID = w_id wfl, run_WorkflowName = w_name wfl,
                     run_WorkflowVer = w_version wfl, run_Status = RunQueued,
                     run_ScenarioName = co_ScenarioName opts, run_Seed = seed, run_EventSeq = 0,
                     run_CorrelationID = co_CorrelationID opts, run_FailureReason = [],
                     run_CreatedAt = now, run_StartedAt = None, run_CompletedAt = None\<rparr>, db'))"

section \<open>Reading runs\<close>

text \<open>The join of a run with its workflow; a run without one yields no row.\<close>

definition scanRun :: "db \<Rightarrow> run_row \<Rightarrow> run option" where
  "scanRun db r =
     (case find (\<lambda>w. w_id w = r_workflow_id r) (workflows db) of
        None \<Rightarrow> None
      | Some w \<Rightarrow>
          Some \<lparr>run_ID = r_id r, run_WorkflowID = r_workflow_id r, run_WorkflowName = w_name w,
                run_WorkflowVer = w_version w, run_Status = r_status r,
                run_ScenarioName = coalesce (r_scenario_name r), run_Seed = r_seed r,
                run_EventSeq = r_event_seq r, run_CorrelationID = coalesce (r_correlation_id r),
                run_FailureReason = coalesce (r_failure_reason r), run_CreatedAt = r_created_at r,
                run_StartedAt = r_started_at r, run_CompletedAt = r_completed_at r\<rparr>)"

definition RunByID :: "uuid \<Rightarrow> db \<Rightarrow> error + run" where
  "RunByID rid db =
     (case run_by_id rid db of
        None \<Rightarrow> Inl ErrNotFound
      | Some r \<Rightarrow> (case scanRun db r of None \<Rightarrow> Inl ErrNotFound | Some x \<Rightarrow> Inr x))"

definition ListRuns :: "string \<Rightarrow> string \<Rightarrow> int \<Rightarrow> db \<Rightarrow> run list" where
  "ListRuns status workflow limit0 db =
     (let limit = (if limit0 \<le> 0 then 50 else limit0) in
      take (nat limit)
        (sort_key (\<lambda>x. - run_CreatedAt x)
          (filter (\<lambda>x. (status = [] \<or> RunStatus_String (run_Status x) = status)
                     \<and> (workflow = [] \<or> run_WorkflowName x = workflow))
            (List.map_filter (scanRun db) (runs db)))))"

definition ListWorkflows :: "int \<Rightarrow> db \<Rightarrow> workflow_row list" where
  "ListWorkflows limit0 db =
     (let limit = (if limit0 \<le> 0 then 50 else limit0) in
      take (nat limit) (sort_key w_name (sort_key (\<lambda>w. - w_version w) (workflows db))))"

definition TasksPage :: "uuid \<Rightarrow> string \<Rightarrow> int \<Rightarrow> db \<Rightarrow> task list \<times> bool" where
  "TasksPage rid afterTask limit0 db =
     (let limit = nat (if limit0 \<le> 0 then 1 else limit0);
          ts = take (limit + 1) (sort_key t_name (filter (\<lambda>t. afterTask < t_name t) (run_tasks rid db)))
      in (take limit ts, limit < length ts))"

definition tasksOf :: "uuid \<Rightarrow> db \<Rightarrow> task list" where
  "tasksOf rid db = sort_key t_created_at (sort_key t_name (run_tasks rid db))"

definition EventsPage :: "uuid \<Rightarrow> int \<Rightarrow> int \<Rightarrow> db \<Rightarrow> error + (event list \<times> bool)" where
  "EventsPage rid afterSeq limit0 db =
     (let limit = nat (if limit0 \<le> 0 then 1 else limit0);
          rows = take (limit + 1) (order_by e_seq (filter (\<lambda>e. afterSeq < e_seq e) (run_events rid db)))
      in case read_loop (afterSeq + 1) rows of
           Inl e \<Rightarrow> Inl e
         | Inr evs \<Rightarrow> Inr (take limit evs, limit < length evs))"

record stats =
  RunsByStatus :: "string \<Rightarrow> int"
  TasksByStatus :: "string \<Rightarrow> int"
  WorkersByStatus :: "string \<Rightarrow> int"
  stats_QueueDepth :: int
  stats_DeadLetters :: int

fun WorkerStatus_String :: "worker_status \<Rightarrow> string" where
  "WorkerStatus_String WorkerHealthy = ''HEALTHY''"
| "WorkerStatus_String WorkerSuspect = ''SUSPECT''"
| "WorkerStatus_String WorkerLost = ''LOST''"
| "WorkerStatus_String WorkerStopped = ''STOPPED''"

text \<open>A status with no row is absent from the Go map, and reading it gives zero.\<close>

definition countByStatus :: "('r \<Rightarrow> string) \<Rightarrow> 'r list \<Rightarrow> string \<Rightarrow> int" where
  "countByStatus st rows s = sql_count (\<lambda>r. st r = s) rows"

definition Stats :: "db \<Rightarrow> stats" where
  "Stats db =
     (let ts = countByStatus (\<lambda>t. TaskStatus_String (t_status t)) (tasks db) in
      \<lparr>RunsByStatus = countByStatus (\<lambda>r. RunStatus_String (r_status r)) (runs db),
       TasksByStatus = ts,
       WorkersByStatus = countByStatus (\<lambda>w. WorkerStatus_String (wk_status w)) (workers db),
       stats_QueueDepth = ts ''READY'' + ts ''RETRYING'',
       stats_DeadLetters = int (length (dead_letters db))\<rparr>)"

end
