(* ===== verification/Relab_Outcome.thy ===== *)
theory Relab_Outcome
  imports Relab_Engine
begin

text \<open>
  Claiming, starting and completing tasks: \<^verbatim>\<open>internal/engine/tasks.go\<close> and
  \<^verbatim>\<open>internal/engine/outcome.go\<close>.  The statements appear in the order of the code, each with
  its WHERE clause as the condition of the update.
\<close>

section \<open>Claiming\<close>

text \<open>
  Rows another transaction holds are skipped; \<open>locked\<close> says which those are when the
  statement runs.
\<close>

definition runnable :: "(task_row \<Rightarrow> bool) \<Rightarrow> time \<Rightarrow> int \<Rightarrow> uuid option \<Rightarrow> db \<Rightarrow> uuid list" where
  "runnable locked now limit rid db =
     map t_id (take (nat limit) (skip_locked locked (order_by t_scheduled_at
       (filter (\<lambda>t. t_status t = TaskReady \<and> t_scheduled_at t \<le> now
                  \<and> (case rid of None \<Rightarrow> True | Some r \<Rightarrow> t_run_id t = r)) (tasks db)))))"

record claimed_task =
  ct_Task :: task
  ct_RunID :: uuid
  ct_WorkflowName :: string
  ct_Handler :: string
  ct_Inputs :: "(string \<times> json option) list"
  ct_Timeout :: duration
  ct_LeaseExpiresAt :: time

definition dependencyOutputs :: "uuid \<Rightarrow> string list \<Rightarrow> db \<Rightarrow> (string \<times> json option) list" where
  "dependencyOutputs rid deps db =
     (if deps = [] then []
      else fold (\<lambda>t out. AList.update (t_name t) (t_output_ref t) out)
             (filter (\<lambda>t. t_name t \<in> set deps) (run_tasks rid db)) [])"

definition hydrate :: "env \<Rightarrow> task \<Rightarrow> time \<Rightarrow> claimed_task tx" where
  "hydrate env task leaseUntil =
     tx_bind (tx_row (run_by_id (t_run_id task))) (\<lambda>r.
     tx_bind (tx_lift (Definition env (r_workflow_id r))) (\<lambda>def.
     case Step def (t_name task) of
       None \<Rightarrow> tx_fail (ErrUndeclaredTask (t_name task))
     | Some st \<Rightarrow>
         tx_bind (tx_read (dependencyOutputs (t_run_id task) (st_DependsOn st))) (\<lambda>inputs.
         tx_return \<lparr>ct_Task = task, ct_RunID = t_run_id task, ct_WorkflowName = d_Name def,
                    ct_Handler = st_Handler st, ct_Inputs = inputs,
                    ct_Timeout = (if st_Timeout st \<le> 0 then TaskTimeout (env_timing env) else st_Timeout st),
                    ct_LeaseExpiresAt = leaseUntil\<rparr>)))"

definition lease :: "uuid \<Rightarrow> time \<Rightarrow> time \<Rightarrow> task_row \<Rightarrow> task_row" where
  "lease w until now t =
     t\<lparr>t_status := TaskLeased, t_worker_id := Some w, t_lease_expires_at := Some until,
       t_attempt := t_attempt t + 1, t_updated_at := now\<rparr>"

definition claim_one :: "env \<Rightarrow> uuid \<Rightarrow> time \<Rightarrow> time \<Rightarrow> task \<Rightarrow> claimed_task tx" where
  "claim_one env w leaseUntil now task =
     tx_bind (append now (t_run_id task) (TaskLeasedPayload (t_attempt task) leaseUntil)
                (at_task (t_name task) (Some w) now)) (\<lambda>_.
     hydrate env task leaseUntil)"

definition claim_tx ::
  "env \<Rightarrow> (task_row \<Rightarrow> bool) \<Rightarrow> time \<Rightarrow> uuid \<Rightarrow> uuid option \<Rightarrow> int \<Rightarrow> claimed_task list tx" where
  "claim_tx env locked now w rid limit =
     (let leaseUntil = now + LeaseDuration (env_timing env) in
      tx_bind (tx_read (runnable locked now limit rid)) (\<lambda>ids.
      tx_bind (update_tasks_returning (\<lambda>t. t_id t \<in> set ids) (lease w leaseUntil now)) (\<lambda>ts.
      tx_map (claim_one env w leaseUntil now) ts)))"

definition claim ::
  "env \<Rightarrow> (task_row \<Rightarrow> bool) \<Rightarrow> time \<Rightarrow> uuid \<Rightarrow> uuid option \<Rightarrow> int \<Rightarrow> db \<Rightarrow> (error + claimed_task list) \<times> db" where
  "claim env locked now w rid limit db =
     (if limit \<le> 0 then (Inr [], db) else InTx (claim_tx env locked now w rid limit) db)"

definition ClaimTasks where
  "ClaimTasks env locked now w limit = claim env locked now w None limit"

definition ClaimTasksForRun where
  "ClaimTasksForRun env locked now w rid limit = claim env locked now w (Some rid) limit"

section \<open>Starting\<close>

definition markRunStarted :: "uuid \<Rightarrow> time \<Rightarrow> unit tx" where
  "markRunStarted rid now =
     tx_bind (update_runs (\<lambda>r. r_id r = rid \<and> r_status r = RunQueued)
                (\<lambda>r. r\<lparr>r_status := RunRunning, r_started_at := Some now\<rparr>)) (\<lambda>n.
     if n = 0 then tx_return () else append now rid RunStartedPayload (at_run now))"

definition record_attempt :: "attempt_row \<Rightarrow> unit tx" where
  "record_attempt a = (\<lambda>db.
     case insert_attempt a db of
       Inl e \<Rightarrow> Inl (if e = ErrConflict then ErrConcurrentAttempt else e)
     | Inr r \<Rightarrow> Inr r)"

definition held_by :: "uuid \<Rightarrow> task \<Rightarrow> task_row \<Rightarrow> bool" where
  "held_by w task t \<longleftrightarrow> t_id t = t_id task \<and> t_worker_id t = Some w \<and> t_attempt t = t_attempt task"

definition start :: "time \<Rightarrow> task_row \<Rightarrow> task_row" where
  "start now t =
     t\<lparr>t_status := TaskRunning,
       t_started_at := (case t_started_at t of None \<Rightarrow> Some now | Some s \<Rightarrow> Some s), t_updated_at := now\<rparr>"

definition start_tx :: "uuid \<Rightarrow> task \<Rightarrow> string \<Rightarrow> time \<Rightarrow> unit tx" where
  "start_tx w task handler now =
     tx_bind (update_tasks (\<lambda>t. held_by w task t \<and> t_status t = TaskLeased) (start now)) (\<lambda>n.
     if n = 0 then tx_fail ErrLeaseLost
     else
       tx_bind (record_attempt \<lparr>ta_task_id = t_id task, ta_attempt = t_attempt task, ta_worker_id = w,
                                ta_started_at = now\<rparr>) (\<lambda>_.
       tx_bind (append now (t_run_id task) (TaskStartedPayload (t_attempt task) handler)
                  (at_task (t_name task) (Some w) now)) (\<lambda>_.
       markRunStarted (t_run_id task) now)))"

definition StartTask :: "uuid \<Rightarrow> task \<Rightarrow> string \<Rightarrow> time \<Rightarrow> db \<Rightarrow> (error + unit) \<times> db" where
  "StartTask w task handler now db = InTx (start_tx w task handler now) db"

section \<open>Outcomes\<close>

record artifact_record =
  arec_Name :: string
  arec_SHA256 :: string
  arec_Size :: int
  arec_ContentType :: string

record outcome =
  o_Output :: "json option"
  o_Artifacts :: "artifact_record list"
  o_Err :: "string option"
  o_Permanent :: bool
  o_Duration :: duration

definition errorMaxLen :: nat where
  "errorMaxLen = 2048"

definition truncateError :: "string \<Rightarrow> string" where
  "truncateError s = (if length s \<le> errorMaxLen then s else take errorMaxLen s @ ''... (truncated)'')"

definition record_artifact :: "task \<Rightarrow> artifact_record \<Rightarrow> artifact_ref tx" where
  "record_artifact task a =
     tx_bind (upsert_artifact \<lparr>a_run_id = t_run_id task, a_task_name = t_name task, a_name = arec_Name a,
                a_sha256 = arec_SHA256 a, a_size = arec_Size a, a_content_type = arec_ContentType a\<rparr>) (\<lambda>_.
     tx_return \<lparr>ar_Name = arec_Name a, ar_SHA256 = arec_SHA256 a, ar_Size = arec_Size a,
                ar_ContentType = arec_ContentType a\<rparr>)"

definition recordArtifacts :: "task \<Rightarrow> artifact_record list \<Rightarrow> artifact_ref list tx" where
  "recordArtifacts task as = tx_map (record_artifact task) as"

definition succeededTasks :: "uuid \<Rightarrow> db \<Rightarrow> string list" where
  "succeededTasks rid db = map t_name (filter (\<lambda>t. t_status t = TaskSucceeded) (run_tasks rid db))"

definition promote :: "time \<Rightarrow> task_row \<Rightarrow> task_row" where
  "promote now t = t\<lparr>t_status := TaskReady, t_scheduled_at := now, t_updated_at := now\<rparr>"

definition unlock_one :: "wf_definition \<Rightarrow> uuid \<Rightarrow> time \<Rightarrow> string list \<Rightarrow> string \<Rightarrow> unit tx" where
  "unlock_one def rid now succeeded name =
     (case Step def name of
        None \<Rightarrow> tx_fail (ErrNotAStep name)
      | Some st \<Rightarrow>
          if \<not> list_all (\<lambda>dep. dep \<in> set succeeded) (st_DependsOn st) then tx_return ()
          else
            tx_bind (update_tasks (\<lambda>t. t_run_id t = rid \<and> t_name t = name \<and> t_status t = TaskPending)
                       (promote now)) (\<lambda>n.
            if n = 0 then tx_return ()
            else append now rid (TaskScheduledPayload 0 now (st_DependsOn st)) (at_task name None now)))"

definition unlockDependents :: "wf_definition \<Rightarrow> uuid \<Rightarrow> string \<Rightarrow> time \<Rightarrow> unit tx" where
  "unlockDependents def rid completed now =
     (if Dependents def completed = [] then tx_return ()
      else tx_bind (tx_read (succeededTasks rid)) (\<lambda>succeeded.
           tx_for (Dependents def completed) (unlock_one def rid now succeeded)))"

text \<open>
  Closing a run: the row is locked and looked at again, the terminal event is appended
  while the run is still open, and only then is the completion time set.
\<close>

definition close_run :: "uuid \<Rightarrow> time \<Rightarrow> run_status \<Rightarrow> payload \<Rightarrow> string \<Rightarrow> unit tx" where
  "close_run rid now status payload reason =
     tx_bind (tx_row (run_by_id rid)) (\<lambda>r.
     if r_status r \<noteq> RunQueued \<and> r_status r \<noteq> RunRunning then tx_return ()
     else
       tx_bind (tx_check (map_option ErrIllegal (RunStatus_Transition (r_status r) status))) (\<lambda>_.
       tx_bind (append now rid payload (at_run now)) (\<lambda>_.
       tx_bind (update_runs (\<lambda>q. r_id q = rid)
                  (\<lambda>q. q\<lparr>r_status := status, r_completed_at := Some now, r_failure_reason := nullString reason\<rparr>)) (\<lambda>_.
       tx_return ()))))"

definition settleRun :: "uuid \<Rightarrow> time \<Rightarrow> unit tx" where
  "settleRun rid now =
     tx_bind (tx_read (run_tasks rid)) (\<lambda>ts.
     let total = int (length ts);
         succeeded = sql_count (\<lambda>t. t_status t = TaskSucceeded) ts;
         dead = sql_count (\<lambda>t. t_status t = TaskDead) ts
     in
     if succeeded + dead < total then tx_return ()
     else if dead > 0 then
       let reason = show_int dead @ '' of '' @ show_int total @ '' tasks did not succeed'' in
       close_run rid now RunFailed (RunFailedPayload ''tasks dead-lettered'' reason) reason
     else close_run rid now RunSucceeded (RunSucceededPayload succeeded) [])"

definition succeed :: "json option \<Rightarrow> time \<Rightarrow> task_row \<Rightarrow> task_row" where
  "succeed output now t =
     t\<lparr>t_status := TaskSucceeded, t_output_ref := output, t_completed_at := Some now, t_updated_at := now,
       t_lease_expires_at := None, t_error := None\<rparr>"

definition recordSuccess :: "uuid \<Rightarrow> task \<Rightarrow> outcome \<Rightarrow> wf_definition \<Rightarrow> time \<Rightarrow> unit tx" where
  "recordSuccess w task out def now =
     tx_bind (update_tasks (\<lambda>t. held_by w task t \<and> t_status t = TaskRunning) (succeed (o_Output out) now)) (\<lambda>n.
     if n = 0 then tx_fail ErrLeaseLost
     else
       tx_bind (recordArtifacts task (o_Artifacts out)) (\<lambda>refs.
       tx_bind (append now (t_run_id task)
                  (TaskSucceededPayload (t_attempt task) (Milliseconds (o_Duration out)) (o_Output out) refs)
                  (at_task (t_name task) (Some w) now)) (\<lambda>_.
       tx_bind (unlockDependents def (t_run_id task) (t_name task) now) (\<lambda>_.
       settleRun (t_run_id task) now))))"

definition retrying :: "time \<Rightarrow> time \<Rightarrow> task_row \<Rightarrow> task_row" where
  "retrying runAt now t =
     t\<lparr>t_status := TaskRetrying, t_scheduled_at := runAt, t_completed_at := None, t_updated_at := now,
       t_worker_id := None\<rparr>"

definition retry_delay :: "env \<Rightarrow> retry_policy \<Rightarrow> task \<Rightarrow> int \<Rightarrow> duration" where
  "retry_delay env policy task seed =
     Delay (env_arith env) policy (t_attempt task)
       (Float64 (DerivedRand seed [env_uuid_String env (t_run_id task), ''retry-jitter'', t_name task,
                                   show_int (t_attempt task)]))"

definition scheduleRetry :: "env \<Rightarrow> task \<Rightarrow> retry_policy \<Rightarrow> time \<Rightarrow> unit tx" where
  "scheduleRetry env task policy now =
     tx_bind (tx_row (run_by_id (t_run_id task))) (\<lambda>r.
     let delay = retry_delay env policy task (r_seed r); runAt = now + delay in
     tx_bind (tx_check (map_option ErrIllegal (TaskStatus_Transition TaskFailed TaskRetrying))) (\<lambda>_.
     tx_bind (update_tasks (\<lambda>t. t_id t = t_id task \<and> t_status t = TaskFailed) (retrying runAt now)) (\<lambda>_.
     append now (t_run_id task)
       (TaskRetryScheduledPayload (t_attempt task) (t_attempt task + 1) (Milliseconds delay) runAt)
       (at_task (t_name task) None now))))"

definition bury :: "time \<Rightarrow> task_row \<Rightarrow> task_row" where
  "bury now t = t\<lparr>t_status := TaskDead, t_completed_at := Some now, t_updated_at := now, t_worker_id := None\<rparr>"

definition buriable :: "task_status \<Rightarrow> bool" where
  "buriable s \<longleftrightarrow> s = TaskFailed \<or> s = TaskPending \<or> s = TaskReady \<or> s = TaskRetrying"

definition deadLetter :: "task \<Rightarrow> string \<Rightarrow> string \<Rightarrow> time \<Rightarrow> unit tx" where
  "deadLetter task reason detail now =
     tx_bind (tx_check (map_option ErrIllegal (TaskStatus_Transition TaskFailed TaskDead))) (\<lambda>_.
     tx_bind (update_tasks (\<lambda>t. t_id t = t_id task \<and> buriable (t_status t)) (bury now)) (\<lambda>_.
     tx_bind (insert_dead_letter \<lparr>dl_task_id = t_id task, dl_run_id = t_run_id task, dl_reason = reason,
                dl_attempts = max (t_attempt task) 1, dl_last_worker = t_worker_id task, dl_created_at = now\<rparr>) (\<lambda>_.
     append now (t_run_id task)
       (TaskDeadLetteredPayload (t_attempt task) (reason @ '': '' @ truncateError detail))
       (at_task (t_name task) None now))))"

definition task_by_name :: "uuid \<Rightarrow> string \<Rightarrow> db \<Rightarrow> task option" where
  "task_by_name rid name db = find (\<lambda>t. t_run_id t = rid \<and> t_name t = name) (tasks db)"

definition abandon_one :: "uuid \<Rightarrow> string \<Rightarrow> time \<Rightarrow> string \<Rightarrow> unit tx" where
  "abandon_one rid failed now name =
     tx_bind (tx_row (task_by_name rid name)) (\<lambda>t.
     if TaskStatus_Terminal (t_status t) then tx_return ()
     else deadLetter t (''upstream task '' @ failed @ '' did not succeed'') [] now)"

definition abandonDependents :: "wf_definition \<Rightarrow> uuid \<Rightarrow> string \<Rightarrow> time \<Rightarrow> unit tx" where
  "abandonDependents def rid failed now = tx_for (descendants def failed) (abandon_one rid failed now)"

definition fail :: "string \<Rightarrow> time \<Rightarrow> task_row \<Rightarrow> task_row" where
  "fail err now t =
     t\<lparr>t_status := TaskFailed, t_error := Some err, t_completed_at := Some now, t_updated_at := now,
       t_lease_expires_at := None\<rparr>"

definition recordFailure :: "env \<Rightarrow> uuid \<Rightarrow> task \<Rightarrow> outcome \<Rightarrow> string \<Rightarrow> wf_definition \<Rightarrow> time \<Rightarrow> unit tx" where
  "recordFailure env w task out err def now =
     (let policy = retryPolicyFor def (t_name task);
          willRetry = ShouldRetry policy (t_attempt task) (o_Permanent out)
      in
      tx_bind (update_tasks (\<lambda>t. held_by w task t \<and> (t_status t = TaskRunning \<or> t_status t = TaskLeased))
                 (fail (truncateError err) now)) (\<lambda>n.
      if n = 0 then tx_fail ErrLeaseLost
      else
        tx_bind (append now (t_run_id task)
                   (TaskFailedPayload (t_attempt task) (Milliseconds (o_Duration out)) (truncateError err) willRetry)
                   (at_task (t_name task) (Some w) now)) (\<lambda>_.
        if willRetry then scheduleRetry env task policy now
        else
          let reason = (if o_Permanent out then ''permanent failure'' else ''attempts exhausted'') in
          tx_bind (deadLetter task reason err now) (\<lambda>_.
          tx_bind (abandonDependents def (t_run_id task) (t_name task) now) (\<lambda>_.
          settleRun (t_run_id task) now)))))"

definition complete_tx :: "env \<Rightarrow> uuid \<Rightarrow> task \<Rightarrow> outcome \<Rightarrow> time \<Rightarrow> unit tx" where
  "complete_tx env w task out now =
     tx_bind (definitionForRun env (t_run_id task)) (\<lambda>def.
     case o_Err out of
       Some err \<Rightarrow> recordFailure env w task out err def now
     | None \<Rightarrow> recordSuccess w task out def now)"

definition CompleteTask :: "env \<Rightarrow> uuid \<Rightarrow> task \<Rightarrow> outcome \<Rightarrow> time \<Rightarrow> db \<Rightarrow> (error + unit) \<times> db" where
  "CompleteTask env w task out now db = InTx (complete_tx env w task out now) db"

text \<open>\<^verbatim>\<open>coalesce(min(attempt), 0)\<close> over the task's recorded attempts.\<close>

definition first_attempt :: "uuid \<Rightarrow> db \<Rightarrow> int" where
  "first_attempt tid db =
     (case map ta_attempt (filter (\<lambda>a. ta_task_id a = tid) (task_attempts db)) of
        [] \<Rightarrow> 0 | a # as \<Rightarrow> fold min as a)"

definition skipped_tx :: "task \<Rightarrow> string \<Rightarrow> time \<Rightarrow> unit tx" where
  "skipped_tx task key now =
     tx_bind (tx_read (first_attempt (t_id task))) (\<lambda>fst_att.
     append now (t_run_id task) (SideEffectSkippedPayload key (t_attempt task) fst_att)
       (at_task (t_name task) None now))"

definition appendSideEffectSkipped :: "task \<Rightarrow> string \<Rightarrow> time \<Rightarrow> db \<Rightarrow> (error + unit) \<times> db" where
  "appendSideEffectSkipped task key now db = InTx (skipped_tx task key now) db"

end
