(* ===== verification/Relab_Idem.thy ===== *)
theory Relab_Idem
  imports Relab_Engine
begin

text \<open>
  The side-effect ledger of \<^verbatim>\<open>internal/idem/idem.go\<close>.  The effect itself is outside the
  database: \<open>Do\<close> is split at the two points where it touches the ledger, and \<open>Do_ledger\<close>
  composes them around what the effect returned and around whatever other transactions
  did to the ledger meanwhile.
\<close>

section \<open>Operations\<close>

definition NewKey :: "env \<Rightarrow> uuid \<Rightarrow> string \<Rightarrow> string \<Rightarrow> string" where
  "NewKey env rid taskName op = env_uuid_String env rid @ '':'' @ taskName @ '':'' @ op"

definition Lookup :: "string \<Rightarrow> db \<Rightarrow> effect_row option" where
  "Lookup key db = find (\<lambda>s. se_key s = key) (side_effects db)"

text \<open>
  \<^verbatim>\<open>INSERT ... ON CONFLICT DO NOTHING RETURNING result\<close>: the stored result when this call
  wrote the row, nothing when the key was there.
\<close>

definition record_effect :: "string \<Rightarrow> uuid \<Rightarrow> string \<Rightarrow> json \<Rightarrow> json option tx" where
  "record_effect key rid taskName raw = (\<lambda>db.
     if key \<in> set (map se_key (side_effects db)) then Inr (None, db)
     else if rid \<notin> set (map r_id (runs db)) then Inl ErrForeignKey
     else Inr (Some raw, db\<lparr>side_effects := side_effects db @
                 [\<lparr>se_key = key, se_run_id = rid, se_task_name = taskName, se_result = raw\<rparr>]\<rparr>))"

datatype do_error = EffectFailed string | LedgerFailed error | NotRecorded

text \<open>
  \<open>Do_ledger\<close>: \<open>db\<close> is the database at the first lookup, \<open>db2\<close> the one at the insert, after
  the effect ran; the effect's outcome is an error or a JSON value.  The result carries
  whether the effect was skipped, and whether it was performed.
\<close>

definition Do_ledger ::
  "string \<Rightarrow> uuid \<Rightarrow> string \<Rightarrow> string + json \<Rightarrow> db \<Rightarrow> db \<Rightarrow> ((do_error + (json \<times> bool)) \<times> bool) \<times> db" where
  "Do_ledger key rid taskName effect db db2 =
     (case Lookup key db of
        Some s \<Rightarrow> ((Inr (se_result s, True), False), db)
      | None \<Rightarrow>
         (case effect of
            Inl err \<Rightarrow> ((Inl (EffectFailed err), True), db2)
          | Inr raw \<Rightarrow>
             (case InTx (record_effect key rid taskName raw) db2 of
                (Inl e, db3) \<Rightarrow> ((Inl (LedgerFailed e), True), db3)
              | (Inr (Some v), db3) \<Rightarrow> ((Inr (v, False), True), db3)
              | (Inr None, db3) \<Rightarrow>
                 (case Lookup key db3 of
                    Some s \<Rightarrow> ((Inr (se_result s, True), True), db3)
                  | None \<Rightarrow> ((Inl NotRecorded, True), db3)))))"

definition CountForRun :: "uuid \<Rightarrow> db \<Rightarrow> int" where
  "CountForRun rid db = sql_count (\<lambda>s. se_run_id s = rid) (side_effects db)"

section \<open>The contract of a ledger\<close>

text \<open>
  What callers rely on: a key that is recorded stays recorded with the same result, and
  recording reports whether it was this call that wrote.
\<close>

locale ledger =
  fixes lookup :: "'k \<Rightarrow> 's \<Rightarrow> 'v option"
    and put :: "'k \<Rightarrow> 'v \<Rightarrow> 's \<Rightarrow> (bool \<times> 's) option"
  assumes fresh: "put k v s = Some (True, s') \<Longrightarrow> lookup k s = None \<and> lookup k s' = Some v"
    and taken: "put k v s = Some (False, s') \<Longrightarrow> lookup k s \<noteq> None \<and> s' = s"
    and other: "put k v s = Some (b, s') \<Longrightarrow> lookup j s = Some w \<Longrightarrow> lookup j s' = Some w"
begin

text \<open>A sequence of recordings, each with whether it wrote.\<close>

fun recordings :: "('k \<times> 'v) list \<Rightarrow> 's \<Rightarrow> (bool list \<times> 's) option" where
  "recordings [] s = Some ([], s)"
| "recordings ((k, v) # rs) s =
     (case put k v s of None \<Rightarrow> None
      | Some (b, s') \<Rightarrow> (case recordings rs s' of None \<Rightarrow> None | Some (bs, s'') \<Rightarrow> Some (b # bs, s'')))"

lemma recorded_stays:
  "recordings rs s = Some (bs, s') \<Longrightarrow> lookup k s = Some w \<Longrightarrow> lookup k s' = Some w"
  by (induction rs s arbitrary: bs rule: recordings.induct) (auto split: option.splits prod.splits dest: other)

lemma written_once:
  assumes "recordings rs s = Some (bs, s')"
  shows "length (filter (\<lambda>((k', v), b). k' = k \<and> b) (zip rs bs)) \<le> (if lookup k s = None then 1 else 0)"
  using assms
proof (induction rs s arbitrary: bs rule: recordings.induct)
  case (1 s)
  then show ?case by simp
next
  case (2 k' v rs s)
  from "2.prems" obtain b s1 bs1 where r: "put k' v s = Some (b, s1)" "recordings rs s1 = Some (bs1, s')"
    and bs: "bs = b # bs1" by (auto split: option.splits)
  note ih = "2.IH" [OF r(1) refl r(2)]
  show ?case
  proof (cases "k' = k \<and> b")
    case True
    with fresh r(1) have "lookup k s = None" "lookup k s1 = Some v" by auto
    with ih bs True show ?thesis by simp
  next
    case False
    have "(if lookup k s1 = None then 1 else 0) \<le> (if lookup k s = None then 1 else (0::nat))"
      using other [OF r(1), of k] by (cases "lookup k s") auto
    with ih bs False show ?thesis by auto
  qed
qed

end

text \<open>The table implements the contract, for each run and task the effects belong to.\<close>

definition record_flag :: "uuid \<Rightarrow> string \<Rightarrow> string \<Rightarrow> json \<Rightarrow> db \<Rightarrow> (bool \<times> db) option" where
  "record_flag rid taskName key raw db =
     (case record_effect key rid taskName raw db of
        Inl _ \<Rightarrow> None | Inr (v, db') \<Rightarrow> Some (v \<noteq> None, db'))"

definition result_of :: "string \<Rightarrow> db \<Rightarrow> json option" where
  "result_of key db = map_option se_result (Lookup key db)"

lemma record_flag_cases:
  assumes "record_flag rid n k v db = Some (b, db')"
  shows "(b \<and> Lookup k db = None
          \<and> db' = db\<lparr>side_effects := side_effects db @ [\<lparr>se_key = k, se_run_id = rid, se_task_name = n, se_result = v\<rparr>]\<rparr>)
       \<or> (\<not> b \<and> Lookup k db \<noteq> None \<and> db' = db)"
  using assms unfolding Lookup_def find_key_None
  by (auto simp: record_flag_def record_effect_def simp del: not_None_eq split: if_splits sum.splits prod.splits)

lemma Lookup_snoc:
  "Lookup j (db\<lparr>side_effects := side_effects db @ [row]\<rparr>) =
     (case Lookup j db of Some z \<Rightarrow> Some z | None \<Rightarrow> if se_key row = j then Some row else None)"
  by (simp add: Lookup_def find_snoc)

interpretation table: ledger result_of "record_flag rid taskName" for rid taskName
  by unfold_locales
    (auto simp: result_of_def Lookup_snoc dest!: record_flag_cases split: option.splits)

section \<open>Keys\<close>

text \<open>
  A UUID's text has a fixed length, and task names contain no colon, so the three parts of
  a key can be read back from it.
\<close>

lemma split_at_colon: "CHR '':'' \<notin> set a \<Longrightarrow> CHR '':'' \<notin> set b \<Longrightarrow> a @ '':'' @ x = b @ '':'' @ y \<Longrightarrow> a = b \<and> x = y"
  by (induction a arbitrary: b) (auto simp: Cons_eq_append_conv)

lemma NewKey_inj:
  assumes "inj (env_uuid_String env)" and "\<And>u. CHR '':'' \<notin> set (env_uuid_String env u)"
    and "CHR '':'' \<notin> set n" and "CHR '':'' \<notin> set m"
    and eq: "NewKey env r n op = NewKey env q m oq"
  shows "r = q \<and> n = m \<and> op = oq"
proof -
  from eq have "env_uuid_String env r = env_uuid_String env q \<and> n @ '':'' @ op = m @ '':'' @ oq"
    using split_at_colon [OF assms(2) assms(2)] by (simp add: NewKey_def)
  then show ?thesis using split_at_colon [OF assms(3,4), of op oq] assms(1) by (auto dest: injD)
qed

lemma name_loop_colon: "name_loop i s = None \<Longrightarrow> CHR '':'' \<notin> set s"
  by (induction i s rule: name_loop.induct) (auto simp: name_char_def less_eq_char_def split: if_splits)

lemma validName_colon: "validName s = None \<Longrightarrow> CHR '':'' \<notin> set s"
  by (auto simp: validName_def name_loop_colon split: if_splits)

section \<open>What the ledger guarantees\<close>

text \<open>
  Keys of different runs, tasks or operations never collide: a UUID's text and a valid
  task name contain no colon.
\<close>

lemma keys_distinct:
  assumes "inj (env_uuid_String env)" and "\<And>u. CHR '':'' \<notin> set (env_uuid_String env u)"
    and "validName n = None" and "validName m = None" and "NewKey env r n op = NewKey env q m oq"
  shows "r = q \<and> n = m \<and> op = oq"
  using NewKey_inj [OF assms(1,2) validName_colon [OF assms(3)] validName_colon [OF assms(4)] assms(5)] .

text \<open>
  Whatever the interleaving of workers that record effects, at most one recording under a
  key writes, and none does once the key is taken.
\<close>

lemma effect_written_once:
  assumes "table.recordings rid name rs db = Some (bs, db')"
  shows "length (filter (\<lambda>((k', v), b). k' = k \<and> b) (zip rs bs)) \<le> (if result_of k db = None then 1 else 0)"
  using assms by (rule table.written_once)

end
