(* ===== verification/Relab_Fault.thy ===== *)
theory Relab_Fault
  imports Relab_Outcome Relab_Idem
begin

text \<open>
  Fault scenarios (\<^verbatim>\<open>internal/fault/types.go\<close>, \<^verbatim>\<open>scenario.go\<close>), the injector that decides
  and applies them (\<^verbatim>\<open>inject.go\<close>, \<^verbatim>\<open>apply.go\<close>) and the per-worker cache of injectors
  (\<^verbatim>\<open>internal/faultengine/source.go\<close>).  A fault type and a trigger point are strings, as in
  the code.  What a fault does to the process is a value: the call returns, returns an
  error, or the process is killed.
\<close>

section \<open>Types and points\<close>

type_synonym fault_type = string
type_synonym point = string

definition WorkerCrash :: fault_type where "WorkerCrash = ''worker-crash''"
definition DuplicateDelivery :: fault_type where "DuplicateDelivery = ''duplicate-delivery''"
definition Latency :: fault_type where "Latency = ''latency''"
definition HTTPError :: fault_type where "HTTPError = ''http-error''"
definition DBDisconnect :: fault_type where "DBDisconnect = ''db-disconnect''"
definition QueueOverload :: fault_type where "QueueOverload = ''queue-overload''"

lemmas fault_types = WorkerCrash_def DuplicateDelivery_def Latency_def HTTPError_def DBDisconnect_def QueueOverload_def

definition TypeNames :: "string list" where
  "TypeNames = [WorkerCrash, DuplicateDelivery, Latency, HTTPError, DBDisconnect]"

definition Type_Known :: "fault_type \<Rightarrow> bool" where
  "Type_Known t \<longleftrightarrow> t \<in> set [WorkerCrash, DuplicateDelivery, Latency, HTTPError, DBDisconnect]"

definition Unimplemented :: "fault_type \<Rightarrow> bool" where
  "Unimplemented t \<longleftrightarrow> t = QueueOverload"

definition BeforeClaim :: point where "BeforeClaim = ''before-claim''"
definition AfterTaskLease :: point where "AfterTaskLease = ''after-task-lease''"
definition AfterTaskStart :: point where "AfterTaskStart = ''after-task-start''"
definition BeforeTaskAck :: point where "BeforeTaskAck = ''before-task-ack''"
definition AfterTaskFinish :: point where "AfterTaskFinish = ''after-task-finish''"

lemmas fault_points = BeforeClaim_def AfterTaskLease_def AfterTaskStart_def BeforeTaskAck_def AfterTaskFinish_def

definition PointNames :: "string list" where
  "PointNames = [BeforeClaim, AfterTaskLease, AfterTaskStart, BeforeTaskAck, AfterTaskFinish]"

definition Point_Known :: "point \<Rightarrow> bool" where
  "Point_Known p \<longleftrightarrow> p \<in> set [BeforeClaim, AfterTaskLease, AfterTaskStart, BeforeTaskAck, AfterTaskFinish]"

section \<open>Scenarios\<close>

text \<open>
  A float64 read from YAML is a number, an infinity or not a number; comparisons with the
  last are false.  \<open>any\<close> is a decoded YAML value by its dynamic type: \<open>AUint\<close> is an integer
  above 63 bits and \<open>AKeyed\<close> a map with keys that are not strings, which \<^verbatim>\<open>encoding/json\<close>
  does not write.  A handler may also return a \<^verbatim>\<open>json.RawMessage\<close>, \<open>ARaw\<close>, which is written as it is.
\<close>

datatype float = Finite rat | PosInf | NegInf | NaN

fun float_less :: "float \<Rightarrow> float \<Rightarrow> bool" where
  "float_less NaN _ = False"
| "float_less _ NaN = False"
| "float_less (Finite x) (Finite y) = (x < y)"
| "float_less (Finite _) PosInf = True"
| "float_less (Finite _) NegInf = False"
| "float_less NegInf NegInf = False"
| "float_less NegInf _ = True"
| "float_less PosInf _ = False"

datatype any =
    ANil | ABool bool | AInt int | AUint int | AFloat float | AStr string | ATime time
  | ASlice "any list" | AMap "(string \<times> any) list" | AKeyed | ARaw json

record target =
  tg_Task :: string
  tg_Attempt :: int
  tg_Workflow :: string

record fault =
  f_Type :: fault_type
  f_Target :: target
  f_At :: point
  f_Probability :: float
  f_Params :: "(string \<times> any) list"

record assertions =
  as_RunStatus :: string
  as_LostTasks :: "int option"
  as_DuplicateEffects :: "int option"
  as_MaxRecoveryTimeMS :: "int option"
  as_MaxRetriesPerTask :: "int option"
  as_MinRetriesPerTask :: "int option"
  as_FaultsInjected :: "int option"

record scenario =
  sc_Name :: string
  sc_Seed :: int
  sc_Workflow :: string
  sc_Faults :: "fault list"
  sc_Assert :: assertions
  sc_Hash :: string

datatype scenario_problem =
    NameRequired | SeedRequired
  | NotImplemented nat fault_type | UnknownFaultType nat fault_type
  | NoTrigger nat | TwoTriggers nat | UnknownPoint nat point | BadProbability nat float
  | NegativeAttempt nat

definition type_problems :: "nat \<Rightarrow> fault \<Rightarrow> scenario_problem list" where
  "type_problems i f =
     (if Type_Known (f_Type f) then []
      else if Unimplemented (f_Type f) then [NotImplemented i (f_Type f)]
      else [UnknownFaultType i (f_Type f)])"

definition trigger_problems :: "nat \<Rightarrow> fault \<Rightarrow> scenario_problem list" where
  "trigger_problems i f =
     (if f_At f = [] \<and> f_Probability f = Finite 0 then [NoTrigger i]
      else if f_At f \<noteq> [] \<and> f_Probability f \<noteq> Finite 0 then [TwoTriggers i]
      else if f_At f \<noteq> [] \<and> \<not> Point_Known (f_At f) then [UnknownPoint i (f_At f)]
      else if float_less (f_Probability f) (Finite 0) \<or> float_less (Finite 1) (f_Probability f)
      then [BadProbability i (f_Probability f)]
      else [])"

definition fault_problems :: "nat \<Rightarrow> fault \<Rightarrow> scenario_problem list" where
  "fault_problems i f = type_problems i f @ trigger_problems i f @
     (if tg_Attempt (f_Target f) < 0 then [NegativeAttempt i] else [])"

definition Scenario_validate :: "scenario \<Rightarrow> scenario_problem list" where
  "Scenario_validate s =
     (if sc_Name s = [] then [NameRequired] else []) @ (if sc_Seed s = 0 then [SeedRequired] else [])
     @ concat (map (\<lambda>(i, f). fault_problems (i + 1) f) (enumerate 0 (sc_Faults s)))"

datatype scenario_error = ScenarioUnreadable string | ScenarioYaml string | ScenarioInvalid "scenario_problem list"

definition ParseScenario ::
  "(string \<Rightarrow> string + scenario) \<Rightarrow> (scenario \<Rightarrow> string + string) \<Rightarrow> (string \<Rightarrow> string) \<Rightarrow> string \<Rightarrow> scenario_error + scenario" where
  "ParseScenario decode marshal sha256 data =
     (case decode data of
        Inl e \<Rightarrow> Inl (ScenarioYaml e)
      | Inr sc \<Rightarrow>
          if Scenario_validate sc \<noteq> [] then Inl (ScenarioInvalid (Scenario_validate sc))
          else (case marshal sc of
                  Inl e \<Rightarrow> Inl (ScenarioYaml e)
                | Inr canonical \<Rightarrow> Inr (sc\<lparr>sc_Hash := sha256 canonical\<rparr>)))"

definition LoadScenario ::
  "(string \<Rightarrow> string + string) \<Rightarrow> (string \<Rightarrow> string + scenario) \<Rightarrow> (scenario \<Rightarrow> string + string) \<Rightarrow> (string \<Rightarrow> string)
   \<Rightarrow> string \<Rightarrow> scenario_error + scenario" where
  "LoadScenario readFile decode marshal sha256 path =
     (case readFile path of
        Inl e \<Rightarrow> Inl (ScenarioUnreadable e)
      | Inr data \<Rightarrow> ParseScenario decode marshal sha256 data)"

definition Deterministic :: "scenario \<Rightarrow> bool" where
  "Deterministic s \<longleftrightarrow> list_all (\<lambda>f. f_Probability f = Finite 0) (sc_Faults s)"

definition NeedsSeparateWorkers :: "scenario \<Rightarrow> bool" where
  "NeedsSeparateWorkers s \<longleftrightarrow> list_ex (\<lambda>f. f_Type f = WorkerCrash) (sc_Faults s)"

section \<open>Applying a fault\<close>

datatype fault_error =
    InjectedError fault_type string
  | BadParam string
  | NoInjector fault_type
  | EncodeFailed fault_type
  | RecordFailed fault_type error
  | KillFailed string
  | ContextEnded string

fun IsInjected :: "fault_error \<Rightarrow> bool" where
  "IsInjected (InjectedError _ _) = True"
| "IsInjected _ = False"

text \<open>
  What a call that may kill the process does.  \<open>host\<close> is what the process sees around it:
  the error of signalling itself, if any, whether a wait of some length is cut short by the
  end of its context and with which error, \<^verbatim>\<open>time.ParseDuration\<close>, and the JSON text of a
  finite float.
\<close>

datatype 'e outcome_of = Returns | Fails 'e | Killed

record host =
  h_kill :: "string option"
  h_wait :: "duration \<Rightarrow> string option"
  h_ParseDuration :: "string \<Rightarrow> duration option"
  h_float_json :: "rat \<Rightarrow> json"
  h_arith :: arith

definition paramDuration :: "host \<Rightarrow> (string \<times> any) list \<Rightarrow> string \<Rightarrow> duration \<Rightarrow> fault_error + duration" where
  "paramDuration h params key fallback =
     (case map_of params key of
        None \<Rightarrow> Inr fallback
      | Some (AStr s) \<Rightarrow> (case h_ParseDuration h s of None \<Rightarrow> Inl (BadParam key) | Some d \<Rightarrow> Inr d)
      | Some _ \<Rightarrow> Inl (BadParam key))"

text \<open>
  \<^verbatim>\<open>int(v)\<close> of a float64 truncates; a value that is not a finite number in range yields
  whatever the implementation yields.
\<close>

fun int_of_float :: "arith \<Rightarrow> float \<Rightarrow> int" where
  "int_of_float ar (Finite x) = to_int64 ar x"
| "int_of_float ar PosInf = huge ar (2 ^ 1024)"
| "int_of_float ar NegInf = huge ar (- (2 ^ 1024))"
| "int_of_float ar NaN = huge ar 0"

definition paramInt :: "host \<Rightarrow> (string \<times> any) list \<Rightarrow> string \<Rightarrow> int \<Rightarrow> fault_error + int" where
  "paramInt h params key fallback =
     (case map_of params key of
        None \<Rightarrow> Inr fallback
      | Some (AInt v) \<Rightarrow> Inr v
      | Some (AFloat v) \<Rightarrow> Inr (int_of_float (h_arith h) v)
      | Some _ \<Rightarrow> Inl (BadParam key))"

definition applyWorkerCrash :: "host \<Rightarrow> fault_error outcome_of" where
  "applyWorkerCrash h = (case h_kill h of Some e \<Rightarrow> Fails (KillFailed e) | None \<Rightarrow> Killed)"

definition applyLatency :: "host \<Rightarrow> fault \<Rightarrow> fault_error outcome_of" where
  "applyLatency h f =
     (case paramDuration h (f_Params f) ''duration'' (2 * second) of
        Inl e \<Rightarrow> Fails e
      | Inr d \<Rightarrow> (case h_wait h d of Some e \<Rightarrow> Fails (ContextEnded e) | None \<Rightarrow> Returns))"

definition applyHTTPError :: "host \<Rightarrow> fault \<Rightarrow> fault_error outcome_of" where
  "applyHTTPError h f =
     (case paramInt h (f_Params f) ''status'' 503 of
        Inl e \<Rightarrow> Fails e
      | Inr code \<Rightarrow> Fails (InjectedError HTTPError (''upstream returned '' @ show_int code)))"

definition applyDBDisconnect :: "fault_error outcome_of" where
  "applyDBDisconnect = Fails (InjectedError DBDisconnect ''database connection lost'')"

definition apply_fault :: "host \<Rightarrow> fault \<Rightarrow> fault_error outcome_of" where
  "apply_fault h f =
     (if f_Type f = WorkerCrash then applyWorkerCrash h
      else if f_Type f = Latency then applyLatency h f
      else if f_Type f = HTTPError then applyHTTPError h f
      else if f_Type f = DBDisconnect then applyDBDisconnect
      else if f_Type f = DuplicateDelivery then Returns
      else Fails (NoInjector (f_Type f)))"

section \<open>The injector\<close>

text \<open>
  \<^verbatim>\<open>json.Marshal\<close> of a parameter map: members in key order; a value \<^verbatim>\<open>encoding/json\<close> cannot
  write is an error, and a nil map is \<^verbatim>\<open>null\<close>.
\<close>

fun any_json :: "host \<Rightarrow> any \<Rightarrow> json option" where
  "any_json h ANil = Some JNull"
| "any_json h (ABool b) = Some (JBool b)"
| "any_json h (AInt i) = Some (JNum i)"
| "any_json h (AUint i) = Some (JNum i)"
| "any_json h (AFloat (Finite x)) = Some (h_float_json h x)"
| "any_json h (AFloat _) = None"
| "any_json h (AStr s) = Some (JStr s)"
| "any_json h (ATime t) = Some (JTime t)"
| "any_json h (ASlice vs) = map_option JArr (those (map (any_json h) vs))"
| "any_json h (AMap ms) = map_option marshal_map (those (map (\<lambda>m. map_option (Pair (fst m)) (any_json h (snd m))) ms))"
| "any_json h AKeyed = None"
| "any_json h (ARaw j) = Some j"

definition marshal_params :: "host \<Rightarrow> (string \<times> any) list \<Rightarrow> json option" where
  "marshal_params h ps = (if ps = [] then Some JNull else any_json h (AMap ps))"

record injector =
  in_Scenario :: "scenario option"
  in_RunID :: uuid
  in_draws :: "string \<rightharpoonup> int"
  in_fired :: int

record firing =
  fi_RunID :: uuid
  fi_TaskName :: string
  fi_Type :: fault_type
  fi_Point :: point
  fi_Scenario :: string
  fi_Seed :: int
  fi_Draw :: int
  fi_Params :: json

definition withSeed :: "scenario \<Rightarrow> int \<Rightarrow> scenario" where
  "withSeed s seed = s\<lparr>sc_Seed := seed\<rparr>"

definition NewInjector :: "scenario option \<Rightarrow> uuid \<Rightarrow> int \<Rightarrow> injector" where
  "NewInjector sc rid seedOverride =
     \<lparr>in_Scenario = (case sc of None \<Rightarrow> None
                     | Some s \<Rightarrow> if seedOverride \<noteq> 0 then Some (withSeed s seedOverride) else Some s),
      in_RunID = rid, in_draws = (\<lambda>_. None), in_fired = 0\<rparr>"

definition fault_matches :: "fault \<Rightarrow> point \<Rightarrow> string \<Rightarrow> int \<Rightarrow> bool" where
  "fault_matches f p taskName attempt =
     (if f_At f \<noteq> [] \<and> f_At f \<noteq> p then False
      else if tg_Task (f_Target f) \<noteq> [] \<and> tg_Task (f_Target f) \<noteq> taskName then False
      else if tg_Attempt (f_Target f) \<noteq> 0 \<and> tg_Attempt (f_Target f) \<noteq> attempt then False
      else True)"

definition draw_key :: "nat \<Rightarrow> string \<Rightarrow> int \<Rightarrow> string" where
  "draw_key index taskName attempt = show_nat index @ '':'' @ taskName @ '':'' @ show_int attempt"

text \<open>
  A process around the injector: \<open>us\<close> writes a run's identifier, \<open>derive\<close> is the first
  \<^verbatim>\<open>Float64\<close> of the source named by a seed and the parts.
\<close>

record chance =
  ch_String :: "uuid \<Rightarrow> string"
  ch_derive :: "int \<Rightarrow> string list \<Rightarrow> rat"

definition decide :: "chance \<Rightarrow> host \<Rightarrow> scenario \<Rightarrow> fault \<Rightarrow> nat \<Rightarrow> string \<Rightarrow> int \<Rightarrow> injector \<Rightarrow> (int \<times> bool) \<times> injector" where
  "decide ch h sc f index taskName attempt i =
     (let key = draw_key index taskName attempt in
      case in_draws i key of
        Some prior \<Rightarrow> ((prior, prior \<ge> 0), i)
      | None \<Rightarrow>
          if f_Probability f = Finite 0
          then ((int index, True), i\<lparr>in_draws := (in_draws i)(key \<mapsto> int index)\<rparr>)
          else
            let v = ch_derive ch (sc_Seed sc) [ch_String ch (in_RunID i), ''fault'', key] in
            if float_less (Finite v) (f_Probability f)
            then let draw = trunc_rat (fl (h_arith h) (v * 1000000000))
                 in ((draw, True), i\<lparr>in_draws := (in_draws i)(key \<mapsto> draw)\<rparr>)
            else ((- 1, False), i\<lparr>in_draws := (in_draws i)(key \<mapsto> - 1)\<rparr>))"

text \<open>
  \<open>fire\<close> records the fault through \<open>rec\<close>, which acts on the state outside the injector,
  and only then applies it.
\<close>

type_synonym 's recorder = "firing \<Rightarrow> 's \<Rightarrow> (error + unit) \<times> 's"

definition fire :: "'s recorder option \<Rightarrow> host \<Rightarrow> scenario \<Rightarrow> fault \<Rightarrow> point \<Rightarrow> string \<Rightarrow> int \<Rightarrow> injector \<times> 's
    \<Rightarrow> fault_error outcome_of \<times> injector \<times> 's" where
  "fire recd h sc f p taskName draw = (\<lambda>(i, s).
     case marshal_params h (f_Params f) of
       None \<Rightarrow> (Fails (EncodeFailed (f_Type f)), i, s)
     | Some params \<Rightarrow>
         let firing = \<lparr>fi_RunID = in_RunID i, fi_TaskName = taskName, fi_Type = f_Type f, fi_Point = p,
                       fi_Scenario = sc_Name sc, fi_Seed = sc_Seed sc, fi_Draw = draw, fi_Params = params\<rparr>
         in case (case recd of None \<Rightarrow> (Inr (), s) | Some r \<Rightarrow> r firing s) of
              (Inl e, s') \<Rightarrow> (Fails (RecordFailed (f_Type f) e), i, s')
            | (Inr _, s') \<Rightarrow> (apply_fault h f, i\<lparr>in_fired := in_fired i + 1\<rparr>, s'))"

fun point_loop :: "'s recorder option \<Rightarrow> chance \<Rightarrow> host \<Rightarrow> scenario \<Rightarrow> point \<Rightarrow> string \<Rightarrow> int \<Rightarrow> nat \<Rightarrow> fault list
    \<Rightarrow> injector \<times> 's \<Rightarrow> fault_error outcome_of \<times> injector \<times> 's" where
  "point_loop recd ch h sc p taskName attempt idx [] (i, s) = (Returns, i, s)"
| "point_loop recd ch h sc p taskName attempt idx (f # fs) (i, s) =
     (if \<not> fault_matches f p taskName attempt then (Returns, i, s)
      else case decide ch h sc f idx taskName attempt i of
             ((draw, fires), i') \<Rightarrow>
               if \<not> fires then point_loop recd ch h sc p taskName attempt (Suc idx) fs (i', s)
               else (case fire recd h sc f p taskName draw (i', s) of
                       (Returns, i'', s') \<Rightarrow> point_loop recd ch h sc p taskName attempt (Suc idx) fs (i'', s')
                     | r \<Rightarrow> r))"

definition Point :: "'s recorder option \<Rightarrow> chance \<Rightarrow> host \<Rightarrow> point \<Rightarrow> string \<Rightarrow> int \<Rightarrow> injector \<times> 's
    \<Rightarrow> fault_error outcome_of \<times> injector \<times> 's" where
  "Point recd ch h p taskName attempt = (\<lambda>(i, s).
     case in_Scenario i of
       None \<Rightarrow> (Returns, i, s)
     | Some sc \<Rightarrow> point_loop recd ch h sc p taskName attempt 0 (sc_Faults sc) (i, s))"

definition Fired :: "injector option \<Rightarrow> int" where
  "Fired i = (case i of None \<Rightarrow> 0 | Some j \<Rightarrow> in_fired j)"

definition hasFault :: "injector \<Rightarrow> fault_type \<Rightarrow> string \<Rightarrow> int \<Rightarrow> bool" where
  "hasFault i typ taskName attempt =
     (case in_Scenario i of
        None \<Rightarrow> False
      | Some sc \<Rightarrow> list_ex (\<lambda>f. f_Type f = typ
          \<and> \<not> (tg_Task (f_Target f) \<noteq> [] \<and> tg_Task (f_Target f) \<noteq> taskName)
          \<and> \<not> (tg_Attempt (f_Target f) \<noteq> 0 \<and> tg_Attempt (f_Target f) \<noteq> attempt)) (sc_Faults sc))"

definition ShouldDuplicate :: "injector \<Rightarrow> string \<Rightarrow> int \<Rightarrow> bool" where
  "ShouldDuplicate i taskName attempt = hasFault i DuplicateDelivery taskName attempt"

section \<open>One injector per run\<close>

text \<open>
  The cache of a worker.  An injector is shared by reference in the code, so the cache
  holds its current state; \<open>For\<close> reports whether the run has trigger points and leaves its
  injector in the cache.
\<close>

type_synonym scenario_lookup = "string \<Rightarrow> string \<Rightarrow> scenario option"

record source =
  so_injectors :: "uuid \<rightharpoonup> injector"
  so_absent :: "uuid \<Rightarrow> bool"

definition NewSource :: source where
  "NewSource = \<lparr>so_injectors = (\<lambda>_. None), so_absent = (\<lambda>_. False)\<rparr>"

datatype source_error = SourceStore error | ScenarioMissing uuid string

definition remember :: "uuid \<Rightarrow> injector option \<Rightarrow> source \<Rightarrow> source" where
  "remember rid injector s =
     (case injector of
        None \<Rightarrow> s\<lparr>so_absent := (so_absent s)(rid := True)\<rparr>
      | Some i \<Rightarrow> s\<lparr>so_injectors := (so_injectors s)(rid \<mapsto> i)\<rparr>)"

definition Source_For :: "scenario_lookup option \<Rightarrow> uuid \<Rightarrow> db \<Rightarrow> source \<Rightarrow> (source_error + bool) \<times> source" where
  "Source_For scenarios rid db s =
     (if so_absent s rid then (Inr False, s)
      else case so_injectors s rid of
        Some _ \<Rightarrow> (Inr True, s)
      | None \<Rightarrow>
         (case RunByID rid db of
            Inl e \<Rightarrow> (Inl (SourceStore e), s)
          | Inr run \<Rightarrow>
              (case (if run_ScenarioName run = [] then None else scenarios) of
                 None \<Rightarrow> (Inr False, remember rid None s)
               | Some lookup \<Rightarrow>
                   (case lookup (run_ScenarioName run) [] of
                      None \<Rightarrow> (Inl (ScenarioMissing rid (run_ScenarioName run)), s)
                    | Some sc \<Rightarrow> (Inr True, remember rid (Some (NewInjector (Some sc) rid (run_Seed run))) s)))))"

definition Source_Injector :: "uuid \<Rightarrow> source \<Rightarrow> injector option" where
  "Source_Injector rid s = so_injectors s rid"

text \<open>The callback that writes FAULT_INJECTED in its own transaction.\<close>

definition recorder :: "uuid \<Rightarrow> time \<Rightarrow> db recorder" where
  "recorder rid dbnow f db =
     (let params = (if fi_Params f \<noteq> JNull then Some (fi_Params f) else None) in
      InTx (append dbnow rid (FaultInjectedPayload (fi_Type f) (fi_Point f) (fi_Scenario f) (fi_Seed f)
              (fi_Draw f) params) (at_task (fi_TaskName f) None zero_time)) db)"

definition StaticLookup :: "scenario option \<Rightarrow> scenario_lookup" where
  "StaticLookup scenario name hash =
     (case scenario of
        None \<Rightarrow> None
      | Some sc \<Rightarrow>
          if sc_Name sc \<noteq> name then None
          else if hash \<noteq> [] \<and> sc_Hash sc \<noteq> hash then None
          else Some sc)"

text \<open>The engine's own derivation, which \<open>For\<close> hands to every injector.\<close>

definition engine_chance :: "env \<Rightarrow> chance" where
  "engine_chance env =
     \<lparr>ch_String = env_uuid_String env, ch_derive = (\<lambda>seed parts. Float64 (DerivedRand seed parts))\<rparr>"

section \<open>Decisions\<close>

text \<open>
  What an injector decides for one fault, task and attempt, as a function of the scenario
  and the run alone.
\<close>

definition decision :: "chance \<Rightarrow> host \<Rightarrow> scenario \<Rightarrow> uuid \<Rightarrow> nat \<Rightarrow> string \<Rightarrow> int \<Rightarrow> int \<times> bool" where
  "decision ch h sc rid index taskName attempt =
     (let p = f_Probability (sc_Faults sc ! index);
          v = ch_derive ch (sc_Seed sc) [ch_String ch rid, ''fault'', draw_key index taskName attempt]
      in if p = Finite 0 then (int index, True)
         else if float_less (Finite v) p then (trunc_rat (fl (h_arith h) (v * 1000000000)), True)
         else (- 1, False))"

text \<open>The draws an injector remembers are those decisions.\<close>

definition draws_ok :: "chance \<Rightarrow> host \<Rightarrow> scenario \<Rightarrow> injector \<Rightarrow> bool" where
  "draws_ok ch h sc i \<longleftrightarrow>
     (\<forall>key d. in_draws i key = Some d \<longrightarrow>
        (\<exists>index taskName attempt. key = draw_key index taskName attempt
           \<and> d = fst (decision ch h sc (in_RunID i) index taskName attempt)))"

text \<open>The sources are never negative and the arithmetic keeps it so.\<close>

definition chance_ok :: "chance \<Rightarrow> host \<Rightarrow> bool" where
  "chance_ok ch h \<longleftrightarrow> arith_ok (h_arith h) \<and> (\<forall>seed parts. 0 \<le> ch_derive ch seed parts)"

lemma engine_chance_ok: "arith_ok (h_arith h) \<Longrightarrow> chance_ok (engine_chance env) h"
  using Float64_range by (simp add: chance_ok_def engine_chance_def)

lemma of_char_digit: "(of_char (digit k) :: nat) = 48 + k mod 10"
  by (simp add: digit_def of_char_mod_256)

lemma show_int_chars: "c \<in> set (show_int i) \<Longrightarrow> (of_char c :: nat) \<le> 57"
  using of_char_digit by (auto simp: show_int_def dest!: show_nat_digits split: if_splits)

lemma show_int_no_colon: "CHR '':'' \<notin> set (show_int i)"
  using show_int_chars [of "CHR '':''" i] by auto

lemma show_nat_no_colon: "CHR '':'' \<notin> set (show_nat n)"
  using show_int_no_colon [of "int n"] by (simp add: show_int_def)

lemma show_nat_no_sign: "show_nat n \<noteq> CHR ''-'' # cs"
proof
  assume eq: "show_nat n = CHR ''-'' # cs"
  then have "CHR ''-'' \<in> set (show_nat n)" by simp
  then obtain k where "CHR ''-'' = digit k" by (auto dest!: show_nat_digits)
  then have "(of_char (CHR ''-'') :: nat) = of_char (digit k)" by simp
  then show False unfolding of_char_digit by simp
qed

lemma show_int_inj: "show_int i = show_int j \<Longrightarrow> i = j"
  by (auto simp: show_int_def show_nat_no_sign show_nat_no_sign [symmetric] dest!: show_nat_inj split: if_splits)

text \<open>A key determines the fault's position, the task and the attempt, whatever the task's name.\<close>

lemma draw_key_inj:
  assumes "draw_key m s a = draw_key n t b"
  shows "m = n \<and> s = t \<and> a = b"
proof -
  have "show_nat m = show_nat n \<and> s @ '':'' @ show_int a = t @ '':'' @ show_int b"
    using split_at_colon [OF show_nat_no_colon show_nat_no_colon] assms by (simp add: draw_key_def)
  then have m: "m = n" and eq: "rev (s @ '':'' @ show_int a) = rev (t @ '':'' @ show_int b)"
    using show_nat_inj by auto
  have "rev (show_int a) = rev (show_int b) \<and> rev s = rev t"
    by (rule split_at_colon) (use show_int_no_colon eq in auto)
  then show ?thesis using m show_int_inj by auto
qed

lemma decision_fires:
  assumes "chance_ok ch h"
  shows "snd (decision ch h sc rid index t a) \<longleftrightarrow> 0 \<le> fst (decision ch h sc rid index t a)"
proof -
  have "0 \<le> trunc_rat (fl (h_arith h) (ch_derive ch s ps * 1000000000))" for s ps
    using assms fl_nonneg [of "h_arith h" "ch_derive ch s ps * 1000000000"]
    by (simp add: chance_ok_def trunc_rat_def)
  then show ?thesis by (simp add: decision_def Let_def)
qed

lemma decide_decision:
  assumes ok: "chance_ok ch h" and i: "draws_ok ch h sc i" and f: "f = sc_Faults sc ! index"
  shows "fst (decide ch h sc f index t a i) = decision ch h sc (in_RunID i) index t a
    \<and> draws_ok ch h sc (snd (decide ch h sc f index t a i))
    \<and> (\<exists>m. snd (decide ch h sc f index t a i) = i\<lparr>in_draws := m\<rparr>)"
proof (cases "in_draws i (draw_key index t a)")
  case None
  let ?i' = "i\<lparr>in_draws := (in_draws i)(draw_key index t a \<mapsto> fst (decision ch h sc (in_RunID i) index t a))\<rparr>"
  have "decide ch h sc f index t a i = (decision ch h sc (in_RunID i) index t a, ?i')"
    using None by (simp add: decide_def decision_def Let_def f)
  moreover have "draws_ok ch h sc ?i'" using i by (auto simp: draws_ok_def)
  ultimately show ?thesis by auto
next
  case (Some d)
  with i obtain n s b where "draw_key index t a = draw_key n s b"
    and "d = fst (decision ch h sc (in_RunID i) n s b)" unfolding draws_ok_def by blast
  then have "d = fst (decision ch h sc (in_RunID i) index t a)" using draw_key_inj by blast
  then have "decide ch h sc f index t a i = (decision ch h sc (in_RunID i) index t a, i)"
    using Some decision_fires [OF ok] by (simp add: decide_def prod_eq_iff)
  moreover have "\<exists>m. i = i\<lparr>in_draws := m\<rparr>" by (rule exI [of _ "in_draws i"]) simp
  ultimately show ?thesis using i by simp
qed

lemma NewInjector_draws: "draws_ok ch h sc (NewInjector s rid seed)"
  by (simp add: draws_ok_def NewInjector_def)

section \<open>The recorder's interface\<close>

text \<open>
  A trigger point touches the state outside the injector through its recorder alone: what
  relates the state before a recording to the state after it, and composes, relates the state
  before the point to the state after it.
\<close>

locale recording =
  fixes recd :: "'s recorder" and R :: "'s \<Rightarrow> 's \<Rightarrow> bool"
  assumes same: "R s s"
    and after: "R s s' \<Longrightarrow> R s' s'' \<Longrightarrow> R s s''"
    and recorded: "recd g s = (x, s') \<Longrightarrow> R s s'"
begin

lemma fire_related: "fire (Some recd) h sc f p t draw (i, s) = (r, i', s') \<Longrightarrow> R s s'"
  using same recorded by (auto simp: fire_def Let_def split: option.splits prod.splits sum.splits)

lemma point_loop_related: "point_loop (Some recd) ch h sc p t a idx fs (i, s) = (r, i', s') \<Longrightarrow> R s s'"
proof (induction fs arbitrary: idx i s)
  case Nil
  then show ?case using same by simp
next
  case (Cons f fs)
  obtain draw fires j where d: "decide ch h sc f idx t a i = ((draw, fires), j)" by (metis prod.exhaust)
  obtain r1 i1 s1 where f: "fire (Some recd) h sc f p t draw (j, s) = (r1, i1, s1)" by (metis prod.exhaust)
  have one: "R s s1" using f by (rule fire_related)
  show ?case
  proof (cases "fault_matches f p t a \<and> fires \<and> r1 = Returns")
    case True
    with Cons.prems d f have "point_loop (Some recd) ch h sc p t a (Suc idx) fs (i1, s1) = (r, i', s')" by simp
    then show ?thesis using Cons.IH one after by blast
  next
    case False
    then show ?thesis using Cons.prems Cons.IH [of "Suc idx" j s] d f one same
      by (auto split: if_splits outcome_of.splits)
  qed
qed

lemma Point_related: "Point (Some recd) ch h p t a (i, s) = (r, i', s') \<Longrightarrow> R s s'"
  using point_loop_related same by (auto simp: Point_def split: option.splits)

end

section \<open>What a trigger point journals\<close>

definition injected_row :: "point \<Rightarrow> string \<Rightarrow> uuid \<Rightarrow> fault_type \<Rightarrow> event_row \<Rightarrow> bool" where
  "injected_row p taskName rid ty e \<longleftrightarrow>
     e_run_id e = rid \<and> e_task_name e = nullString taskName \<and> e_type e = ''FAULT_INJECTED''
     \<and> (\<exists>sc seed draw ps. e_payload e = Encode (FaultInjectedPayload ty p sc seed draw ps))"

lemma recorder_Inr:
  assumes dist: "distinct (map r_id (runs db))" and r: "recorder rid now f db = (Inr u, db')"
  shows "\<exists>e. events db' = events db @ [e] \<and> injected_row (fi_Point f) (fi_TaskName f) rid (fi_Type f) e
    \<and> map r_id (runs db') = map r_id (runs db)"
proof -
  let ?p = "FaultInjectedPayload (fi_Type f) (fi_Point f) (fi_Scenario f) (fi_Seed f) (fi_Draw f)
    (if fi_Params f \<noteq> JNull then Some (fi_Params f) else None)"
  let ?m = "at_task (fi_TaskName f) None zero_time"
  from r obtain ev where "Append now rid ?p ?m db = Inr (ev, db')"
    by (auto simp: recorder_def Let_def InTx_def append_def tx_bind_def tx_return_def split: sum.splits prod.splits)
  then obtain q :: run_row where "db' = (bump_seq rid db)\<lparr>events := events db @ [stored now rid ?p ?m (r_event_seq q + 1)]\<rparr>"
    by (rule Append_Inr [OF dist])
  moreover have "injected_row (fi_Point f) (fi_TaskName f) rid (fi_Type f) (stored now rid ?p ?m n)" for n
    unfolding injected_row_def by (auto simp: stored_def at_task_def)
  moreover have "map r_id (runs (bump_seq rid db)) = map r_id (runs db)"
    unfolding bump_seq_def by (simp add: map_sql_update)
  ultimately show ?thesis by simp
qed

lemma recorder_Inl: "recorder rid now f db = (Inl e, db') \<Longrightarrow> db' = db"
  by (auto simp: recorder_def Let_def InTx_def split: sum.splits prod.splits)

lemma apply_fault_Killed: "apply_fault h f = Killed \<Longrightarrow> f_Type f = WorkerCrash"
  by (auto simp: apply_fault_def applyLatency_def applyHTTPError_def applyDBDisconnect_def
      split: if_splits sum.splits option.splits)

text \<open>
  \<open>journaled\<close>: what was added to the events is one FAULT_INJECTED per fault fired, and a
  kill is the last of them.
\<close>

definition journaled :: "point \<Rightarrow> string \<Rightarrow> uuid \<Rightarrow> fault_error outcome_of \<Rightarrow> injector \<Rightarrow> injector \<Rightarrow> event_row list \<Rightarrow> bool" where
  "journaled p taskName rid r i i' new \<longleftrightarrow>
     int (length new) = in_fired i' - in_fired i
     \<and> (\<forall>e\<in>set new. \<exists>ty. injected_row p taskName rid ty e)
     \<and> (r = Killed \<longrightarrow> new \<noteq> [] \<and> injected_row p taskName rid WorkerCrash (last new))"

lemma fire_journaled:
  assumes dist: "distinct (map r_id (runs db))"
    and fire: "fire (Some (recorder rid now)) h sc f p taskName draw (i, db) = (r, i', db')"
  shows "\<exists>new. events db' = events db @ new \<and> journaled p taskName rid r i i' new
    \<and> map r_id (runs db') = map r_id (runs db)"
proof (cases "marshal_params h (f_Params f)")
  case None
  with fire show ?thesis by (auto simp: fire_def journaled_def)
next
  case (Some params)
  let ?f = "\<lparr>fi_RunID = in_RunID i, fi_TaskName = taskName, fi_Type = f_Type f, fi_Point = p,
             fi_Scenario = sc_Name sc, fi_Seed = sc_Seed sc, fi_Draw = draw, fi_Params = params\<rparr>"
  show ?thesis
  proof (cases "recorder rid now ?f db")
    case (Pair res db1)
    show ?thesis
    proof (cases res)
      case (Inl e)
      with Pair fire Some recorder_Inl [of rid now ?f db e db1] show ?thesis
        by (auto simp: fire_def journaled_def Let_def)
    next
      case (Inr u)
      with Pair fire Some have r: "r = apply_fault h f" "i' = i\<lparr>in_fired := in_fired i + 1\<rparr>" "db' = db1"
        by (auto simp: fire_def Let_def)
      from recorder_Inr [OF dist Pair [unfolded Inr]] obtain e where
        "events db1 = events db @ [e]" "injected_row p taskName rid (f_Type f) e" "map r_id (runs db1) = map r_id (runs db)"
        by auto
      then show ?thesis using r apply_fault_Killed [of h f]
        by (auto simp: journaled_def intro!: exI [of _ "[e]"])
    qed
  qed
qed

lemma journaled_append:
  "journaled p t rid r i i' new \<Longrightarrow> journaled p t rid r' i' i'' new' \<Longrightarrow> (r = Killed \<longrightarrow> r' = Killed)
    \<Longrightarrow> journaled p t rid r' i i'' (new @ new')"
  by (auto simp: journaled_def)

lemma decide_fired: "in_fired (snd (decide ch h sc f idx t a i)) = in_fired i"
  by (auto simp: decide_def Let_def split: option.splits)

lemma journaled_start: "in_fired j = in_fired i \<Longrightarrow> journaled p t rid r j i' new = journaled p t rid r i i' new"
  by (simp add: journaled_def)

lemma point_loop_journaled:
  assumes "distinct (map r_id (runs db))"
    and "point_loop (Some (recorder rid now)) ch h sc p t a idx fs (i, db) = (r, i', db')"
  shows "\<exists>new. events db' = events db @ new \<and> journaled p t rid r i i' new \<and> map r_id (runs db') = map r_id (runs db)"
  using assms
proof (induction fs arbitrary: idx i db)
  case Nil
  then show ?case by (auto simp: journaled_def)
next
  case (Cons f fs)
  obtain draw fires j where d: "decide ch h sc f idx t a i = ((draw, fires), j)" by (metis prod.exhaust)
  have j: "in_fired j = in_fired i" using decide_fired [of ch h sc f idx t a i] d by simp
  consider "\<not> fault_matches f p t a" | "fault_matches f p t a" "\<not> fires" | "fault_matches f p t a" "fires" by blast
  then show ?case
  proof cases
    case 1
    with Cons.prems show ?thesis by (auto simp: journaled_def)
  next
    case 2
    with Cons.prems d have "point_loop (Some (recorder rid now)) ch h sc p t a (Suc idx) fs (j, db) = (r, i', db')" by simp
    from Cons.IH [OF Cons.prems(1) this] show ?thesis by (simp add: journaled_start [OF j])
  next
    case 3
    obtain r1 i1 db1 where f: "fire (Some (recorder rid now)) h sc f p t draw (j, db) = (r1, i1, db1)" by (metis prod.exhaust)
    obtain new where new: "events db1 = events db @ new" "journaled p t rid r1 i i1 new" "map r_id (runs db1) = map r_id (runs db)"
      using fire_journaled [OF Cons.prems(1) f] by (auto simp: journaled_start [OF j])
    show ?thesis
    proof (cases "r1 = Returns")
      case True
      with Cons.prems d f 3 have "point_loop (Some (recorder rid now)) ch h sc p t a (Suc idx) fs (i1, db1) = (r, i', db')" by simp
      from Cons.IH [OF _ this] new(3) Cons.prems(1) obtain new' where
        "events db' = events db1 @ new'" "journaled p t rid r i1 i' new'" "map r_id (runs db') = map r_id (runs db1)" by auto
      with new True show ?thesis using journaled_append [OF new(2), of r i' new']
        by (auto intro!: exI [of _ "new @ new'"])
    next
      case False
      with Cons.prems d f 3 have "r = r1" "i' = i1" "db' = db1" by (auto split: outcome_of.splits)
      with new show ?thesis by blast
    qed
  qed
qed

section \<open>Reaching past a fault that does not match\<close>

text \<open>
  The loop leaves at the first fault that does not match, so only the faults before it are
  ever considered.
\<close>

lemma point_loop_prefix:
  "point_loop recd ch h sc p t a idx fs w =
   point_loop recd ch h sc p t a idx (takeWhile (\<lambda>f. fault_matches f p t a) fs) w"
  by (induction recd ch h sc p t a idx fs w rule: point_loop.induct)
    (auto split: prod.splits outcome_of.splits)

section \<open>Claims\<close>

definition good_fault :: "fault \<Rightarrow> bool" where
  "good_fault f \<longleftrightarrow>
     f_Type f \<in> set TypeNames \<and> 0 \<le> tg_Attempt (f_Target f)
     \<and> (if f_At f = [] then f_Probability f = NaN \<or> (\<exists>x. f_Probability f = Finite x \<and> 0 < x \<and> x \<le> 1)
        else f_At f \<in> set PointNames \<and> f_Probability f = Finite 0)"

lemma fault_problems_none: "fault_problems i f = [] \<longleftrightarrow> good_fault f"
proof -
  have "type_problems i f = [] \<longleftrightarrow> f_Type f \<in> set TypeNames"
    by (simp add: type_problems_def Type_Known_def TypeNames_def)
  moreover have "trigger_problems i f = [] \<longleftrightarrow>
      (if f_At f = [] then f_Probability f = NaN \<or> (\<exists>x. f_Probability f = Finite x \<and> 0 < x \<and> x \<le> 1)
       else f_At f \<in> set PointNames \<and> f_Probability f = Finite 0)"
    by (cases "f_Probability f") (auto simp: trigger_problems_def Point_Known_def PointNames_def)
  ultimately show ?thesis by (simp add: fault_problems_def good_fault_def)
qed

lemma validate_none: "Scenario_validate s = [] \<longleftrightarrow> sc_Name s \<noteq> [] \<and> sc_Seed s \<noteq> 0 \<and> list_all good_fault (sc_Faults s)"
proof -
  have "(\<forall>x\<in>set (enumerate n fs). fault_problems (fst x + 1) (snd x) = []) \<longleftrightarrow> list_all good_fault fs" for n fs
    by (induction fs arbitrary: n) (auto simp: fault_problems_none)
  from this [of 0 "sc_Faults s"] show ?thesis by (auto simp: Scenario_validate_def case_prod_beta)
qed

text \<open>
  A scenario file is accepted exactly when it has a name and a seed and every fault has
  an implemented type, a non-negative target attempt and exactly one trigger: a known point,
  or a probability in (0,1] (a probability that is not a number also passes the
  comparisons).
\<close>

lemma scenario_accepted:
  assumes "decode data = Inr sc" and "marshal sc = Inr canonical"
  shows "(\<exists>sc'. ParseScenario decode marshal digest data = Inr sc')
    \<longleftrightarrow> sc_Name sc \<noteq> [] \<and> sc_Seed sc \<noteq> 0 \<and> list_all good_fault (sc_Faults sc)"
  using assms validate_none [of sc] by (auto simp: ParseScenario_def)

definition demo_fault :: fault where
  "demo_fault = \<lparr>f_Type = WorkerCrash, f_Target = \<lparr>tg_Task = ''a'', tg_Attempt = 1, tg_Workflow = []\<rparr>,
     f_At = AfterTaskStart, f_Probability = Finite 0, f_Params = []\<rparr>"

definition demo_scenario :: scenario where
  "demo_scenario = \<lparr>sc_Name = ''crash'', sc_Seed = 7, sc_Workflow = [], sc_Faults = [demo_fault],
     sc_Assert = \<lparr>as_RunStatus = ''SUCCEEDED'', as_LostTasks = Some 0, as_DuplicateEffects = None,
       as_MaxRecoveryTimeMS = None, as_MaxRetriesPerTask = None, as_MinRetriesPerTask = None,
       as_FaultsInjected = Some 1\<rparr>, sc_Hash = []\<rparr>"

text \<open>A sequence of questions to an injector, each with what it answered.\<close>

fun ask :: "chance \<Rightarrow> host \<Rightarrow> scenario \<Rightarrow> (nat \<times> string \<times> int) list \<Rightarrow> injector \<Rightarrow> (int \<times> bool) list" where
  "ask ch h sc [] i = []"
| "ask ch h sc ((index, t, a) # qs) i =
     fst (decide ch h sc (sc_Faults sc ! index) index t a i)
     # ask ch h sc qs (snd (decide ch h sc (sc_Faults sc ! index) index t a i))"

lemma ask_decisions:
  "chance_ok ch h \<Longrightarrow> draws_ok ch h sc i \<Longrightarrow>
   ask ch h sc qs i = map (\<lambda>(index, t, a). decision ch h sc (in_RunID i) index t a) qs"
proof (induction ch h sc qs i rule: ask.induct)
  case (2 ch h sc index t a qs i)
  note d = decide_decision [OF 2(2,3) refl, of index t a]
  then have "in_RunID (snd (decide ch h sc (sc_Faults sc ! index) index t a i)) = in_RunID i" by auto
  with 2 d show ?case by simp
qed simp

text \<open>
  (C29) Injection reproduces: whatever questions an injector was asked before, and in
  whatever order, each decision is a function of the scenario, the run, the fault's position,
  the task and the attempt.
\<close>

theorem decisions_reproduce:
  assumes "arith_ok (h_arith h)"
  shows "ask (engine_chance env) h sc qs (NewInjector scenario rid seed) =
    map (\<lambda>(index, t, a). decision (engine_chance env) h sc rid index t a) qs"
  using ask_decisions [OF engine_chance_ok [OF assms] NewInjector_draws] by (simp add: NewInjector_def)

definition demo_host :: host where
  "demo_host = \<lparr>h_kill = None, h_wait = (\<lambda>_. None), h_ParseDuration = (\<lambda>_. None), h_float_json = (\<lambda>_. JNull),
     h_arith = \<lparr>fl = id, pow = (\<lambda>x y. Some x), huge = (\<lambda>x. 0)\<rparr>\<rparr>"

definition demo_fault_env :: env where
  "demo_fault_env =
     \<lparr>env_timing = DefaultTiming, env_uuid_String = show_nat, env_yaml_decode = Inl,
      env_yaml_marshal = (\<lambda>_. []), env_sha256 = id, env_arith = h_arith demo_host\<rparr>"

definition demo_chance :: chance where
  "demo_chance = engine_chance demo_fault_env"

definition demo_often :: scenario where
  "demo_often = demo_scenario\<lparr>sc_Faults := [demo_fault\<lparr>f_At := [], f_Probability := Finite (1 / 2)\<rparr>]\<rparr>"

theorem decisions_reproduce_witness:
  "\<exists>x y. ask (engine_chance demo_fault_env) demo_host demo_often [(0, ''a'', 1), (0, ''b'', 1), (0, ''a'', 1)]
     (NewInjector (Some demo_often) 3 0) = [x, y, x]"
proof -
  have "arith_ok (h_arith demo_host)" by (auto simp: demo_host_def arith_ok_def mono_def)
  from decisions_reproduce [OF this, of demo_fault_env demo_often "[(0, ''a'', 1), (0, ''b'', 1), (0, ''a'', 1)]" "Some demo_often" 3 0]
  show ?thesis by (simp del: ask.simps)
qed

text \<open>
  (C30) Every fault an injector fires at a trigger point is in the journal before it takes
  effect: the events a point adds are one FAULT_INJECTED for each fault fired, and when the
  process is killed the last of them names the crash.
\<close>

theorem fault_recorded_first:
  assumes "distinct (map r_id (runs db))"
    and "Point (Some (recorder rid now)) ch h p t a (i, db) = (r, i', db')"
  shows "\<exists>new. events db' = events db @ new \<and> int (length new) = in_fired i' - in_fired i
    \<and> (\<forall>e\<in>set new. \<exists>ty. injected_row p t rid ty e)
    \<and> (r = Killed \<longrightarrow> new \<noteq> [] \<and> injected_row p t rid WorkerCrash (last new))"
proof (cases "in_Scenario i")
  case None
  with assms(2) show ?thesis by (simp add: Point_def)
next
  case (Some sc)
  with assms(2) have "point_loop (Some (recorder rid now)) ch h sc p t a 0 (sc_Faults sc) (i, db) = (r, i', db')"
    by (simp add: Point_def)
  from point_loop_journaled [OF assms(1) this] show ?thesis unfolding journaled_def by blast
qed

definition demo_open_run :: db where
  "demo_open_run = empty_db\<lparr>runs := [\<lparr>r_id = 3, r_workflow_id = 1, r_status = RunRunning, r_scenario_name = Some ''crash'',
     r_seed = 7, r_event_seq = 0, r_correlation_id = None, r_failure_reason = None, r_created_at = 0,
     r_started_at = None, r_completed_at = None\<rparr>]\<rparr>"

theorem fault_recorded_first_witness:
  "\<exists>e. events (snd (snd (Point (Some (recorder 3 5)) demo_chance demo_host AfterTaskStart ''a'' 1
          (NewInjector (Some demo_scenario) 3 0, demo_open_run)))) = [e]
     \<and> injected_row AfterTaskStart ''a'' 3 WorkerCrash e"
proof -
  let ?x = "Point (Some (recorder 3 5)) demo_chance demo_host AfterTaskStart ''a'' 1 (NewInjector (Some demo_scenario) 3 0, demo_open_run)"
  have d: "distinct (map r_id (runs demo_open_run))" by code_simp
  have k: "fst ?x = Killed" "in_fired (fst (snd ?x)) = 1" by code_simp+
  have z: "events demo_open_run = []" "in_fired (NewInjector (Some demo_scenario) 3 0) = 0" by code_simp+
  have "?x = (fst ?x, fst (snd ?x), snd (snd ?x))" by simp
  from fault_recorded_first [OF d this] show ?thesis unfolding k z by (auto simp: length_Suc_conv)
qed


definition demo_masked :: scenario where
  "demo_masked = demo_scenario\<lparr>sc_Faults := [demo_fault\<lparr>f_At := BeforeTaskAck\<rparr>, demo_fault]\<rparr>"


end
