(* ===== verification/Relab_Replay.thy ===== *)
theory Relab_Replay
  imports Relab_Journal
begin

text \<open>
  The replay reducer of \<^verbatim>\<open>internal/replay\<close>: \<open>Reduce\<close> folds a run's events into a
  \<open>run_state\<close> (\<^verbatim>\<open>state.go\<close>, \<^verbatim>\<open>reduce.go\<close>, \<^verbatim>\<open>decode.go\<close>) and \<open>Load\<close> reads the journal first
  (\<^verbatim>\<open>load.go\<close>).  The facts say that the reducer accepts exactly the journals that are
  gapless, known, decodable and closed at most once, and that it is a left fold: adding
  one event to a journal is one application of \<open>apply_event\<close>.
\<close>

section \<open>State\<close>

record artifact =
  art_Name :: string
  art_SHA256 :: string
  art_Size :: int
  art_ContentType :: string

record fault_state =
  fs_Type :: string
  fs_Point :: string
  fs_Task :: string
  fs_Draw :: int

record skipped_effect =
  sk_Key :: string
  sk_Task :: string
  sk_Attempt :: int
  sk_FirstAttempt :: int

text \<open>
  Statuses are plain strings here: the reducer does not import the engine.
\<close>

record task_state =
  ts_Name :: string
  ts_Status :: string
  ts_Attempts :: int
  ts_Requeues :: int
  ts_Retries :: int
  ts_LeaseExpiries :: int
  ts_Error :: string
  ts_Output :: "json option"
  ts_Artifacts :: "artifact list"
  ts_Handler :: string
  ts_FirstStarted :: "time option"
  ts_Completed :: "time option"

text \<open>The map of tasks is an association list; iteration sorts the keys first.\<close>

record run_state =
  rs_RunID :: uuid
  rs_Workflow :: string
  rs_Version :: int
  rs_DefinitionHash :: string
  rs_Scenario :: string
  rs_Seed :: int
  rs_Status :: string
  rs_FailureReason :: string
  rs_Tasks :: "(string \<times> task_state) list"
  rs_Faults :: "fault_state list"
  rs_SkippedEffects :: "skipped_effect list"
  rs_WorkersLost :: int
  rs_EventCount :: int
  rs_LastSeq :: int

definition new_task :: "string \<Rightarrow> task_state" where
  "new_task name =
     \<lparr>ts_Name = name, ts_Status = ''PENDING'', ts_Attempts = 0, ts_Requeues = 0, ts_Retries = 0,
      ts_LeaseExpiries = 0, ts_Error = [], ts_Output = None, ts_Artifacts = [], ts_Handler = [],
      ts_FirstStarted = None, ts_Completed = None\<rparr>"

definition new_state :: "uuid \<Rightarrow> run_state" where
  "new_state rid =
     \<lparr>rs_RunID = rid, rs_Workflow = [], rs_Version = 0, rs_DefinitionHash = [], rs_Scenario = [],
      rs_Seed = 0, rs_Status = ''CREATED'', rs_FailureReason = [], rs_Tasks = [], rs_Faults = [],
      rs_SkippedEffects = [], rs_WorkersLost = 0, rs_EventCount = 0, rs_LastSeq = 0\<rparr>"

text \<open>
  \<open>task_of\<close> is the entry \<^verbatim>\<open>s.task(name)\<close> returns, a fresh one when the name is new;
  \<open>on_task\<close> is a mutation through the pointer it returns.
\<close>

definition task_of :: "run_state \<Rightarrow> string \<Rightarrow> task_state" where
  "task_of s name = (case map_of (rs_Tasks s) name of Some t \<Rightarrow> t | None \<Rightarrow> new_task name)"

definition on_task :: "string \<Rightarrow> (task_state \<Rightarrow> task_state) \<Rightarrow> run_state \<Rightarrow> run_state" where
  "on_task name f s = s\<lparr>rs_Tasks := AList.update name (f (task_of s name)) (rs_Tasks s)\<rparr>"

definition TaskNames :: "run_state \<Rightarrow> string list" where
  "TaskNames s = sort (map fst (rs_Tasks s))"

definition TotalAttempts :: "run_state \<Rightarrow> int" where
  "TotalAttempts s = sum_list (map (ts_Attempts \<circ> snd) (rs_Tasks s))"

definition MaxRetries :: "run_state \<Rightarrow> int" where
  "MaxRetries s = fold (\<lambda>(_, t) most. if ts_Retries t > most then ts_Retries t else most) (rs_Tasks s) 0"

definition LostTasks :: "run_state \<Rightarrow> int" where
  "LostTasks s = int (length (filter (\<lambda>(_, t). ts_Status t = ''DEAD'') (rs_Tasks s)))"

definition RunState_Terminal :: "run_state \<Rightarrow> bool" where
  "RunState_Terminal s \<longleftrightarrow>
     rs_Status s = ''SUCCEEDED'' \<or> rs_Status s = ''FAILED'' \<or> rs_Status s = ''CANCELLED''"

section \<open>Reducer\<close>

datatype replay_error =
    ErrOutOfOrder int int
  | ErrReplayUnknownType etype int
  | ErrEventAfterTerminal int etype
  | ErrPayload int decode_error
  | ErrNoCase int etype

definition artifactsOf :: "artifact_ref list \<Rightarrow> artifact list" where
  "artifactsOf refs =
     map (\<lambda>r. \<lparr>art_Name = ar_Name r, art_SHA256 = ar_SHA256 r, art_Size = ar_Size r,
               art_ContentType = ar_ContentType r\<rparr>) refs"

text \<open>
  \<open>decodeAny\<close> requires a version field to be present and the payload to be an object; it
  does not look at the version's value.
\<close>

definition decodeAny :: "json \<Rightarrow> decode_error option" where
  "decodeAny raw =
     (case members raw of None \<Rightarrow> Some BadEnvelope
      | Some ms \<Rightarrow>
         (case dec_version (field ms ''v'') of
            None \<Rightarrow> Some BadEnvelope
          | Some None \<Rightarrow> Some NoVersion
          | Some (Some _) \<Rightarrow> None))"

text \<open>Every case but three decodes the payload of the event's own type first.\<close>

definition decoded :: "event \<Rightarrow> (payload \<Rightarrow> run_state) \<Rightarrow> replay_error + run_state" where
  "decoded evt k =
     (case Decode (ev_Payload evt) (ev_Type evt) of
        Inl e \<Rightarrow> Inl (ErrPayload (ev_Seq evt) e) | Inr p \<Rightarrow> Inr (k p))"

definition apply_event :: "run_state \<Rightarrow> event \<Rightarrow> replay_error + run_state" where
  "apply_event s evt =
     (case ev_Type evt of
        ERunCreated \<Rightarrow> decoded evt (\<lambda>p.
          s\<lparr>rs_Workflow := WorkflowName p, rs_Version := WorkflowVersion p,
            rs_DefinitionHash := DefinitionHash p, rs_Scenario := ScenarioName p,
            rs_Seed := Seed p, rs_Status := ''CREATED''\<rparr>)
      | ERunQueued \<Rightarrow> decoded evt (\<lambda>p. s\<lparr>rs_Status := ''QUEUED''\<rparr>)
      | ERunStarted \<Rightarrow> Inr (s\<lparr>rs_Status := ''RUNNING''\<rparr>)
      | ERunSucceeded \<Rightarrow> decoded evt (\<lambda>p. s\<lparr>rs_Status := ''SUCCEEDED''\<rparr>)
      | ERunFailed \<Rightarrow> decoded evt (\<lambda>p.
          s\<lparr>rs_Status := ''FAILED'',
            rs_FailureReason := (if Detail p \<noteq> [] then Reason p @ '': '' @ Detail p else Reason p)\<rparr>)
      | ERunCancelled \<Rightarrow> decoded evt (\<lambda>p. s\<lparr>rs_Status := ''CANCELLED'', rs_FailureReason := Reason p\<rparr>)
      | ETaskScheduled \<Rightarrow> decoded evt (\<lambda>p. on_task (ev_TaskName evt) (\<lambda>t. t\<lparr>ts_Status := ''READY''\<rparr>) s)
      | ETaskLeased \<Rightarrow> decoded evt (\<lambda>p. on_task (ev_TaskName evt) (\<lambda>t.
          t\<lparr>ts_Status := ''LEASED'',
            ts_Attempts := (if Attempt p > ts_Attempts t then Attempt p else ts_Attempts t)\<rparr>) s)
      | ETaskStarted \<Rightarrow> decoded evt (\<lambda>p. on_task (ev_TaskName evt) (\<lambda>t.
          t\<lparr>ts_Status := ''RUNNING'', ts_Handler := Handler p,
            ts_Attempts := (if Attempt p > ts_Attempts t then Attempt p else ts_Attempts t),
            ts_FirstStarted := (if ts_FirstStarted t = None then Some (ev_OccurredAt evt)
                                else ts_FirstStarted t)\<rparr>) s)
      | ETaskSucceeded \<Rightarrow> decoded evt (\<lambda>p. on_task (ev_TaskName evt) (\<lambda>t.
          t\<lparr>ts_Status := ''SUCCEEDED'', ts_Output := Output p, ts_Error := [],
            ts_Artifacts := artifactsOf (Artifacts p), ts_Completed := Some (ev_OccurredAt evt)\<rparr>) s)
      | ETaskFailed \<Rightarrow> decoded evt (\<lambda>p. on_task (ev_TaskName evt) (\<lambda>t.
          t\<lparr>ts_Status := ''FAILED'', ts_Error := Error p, ts_Completed := Some (ev_OccurredAt evt)\<rparr>) s)
      | ETaskRetryScheduled \<Rightarrow> decoded evt (\<lambda>p. on_task (ev_TaskName evt) (\<lambda>t.
          t\<lparr>ts_Status := ''RETRYING'', ts_Retries := ts_Retries t + 1\<rparr>) s)
      | ETaskLeaseExpired \<Rightarrow> decoded evt (\<lambda>p. on_task (ev_TaskName evt) (\<lambda>t.
          t\<lparr>ts_LeaseExpiries := ts_LeaseExpiries t + 1\<rparr>) s)
      | ETaskRequeued \<Rightarrow> decoded evt (\<lambda>p. on_task (ev_TaskName evt) (\<lambda>t.
          t\<lparr>ts_Status := ''READY'', ts_Requeues := ts_Requeues t + 1\<rparr>) s)
      | ETaskDeadLettered \<Rightarrow> decoded evt (\<lambda>p. on_task (ev_TaskName evt) (\<lambda>t.
          t\<lparr>ts_Status := ''DEAD'', ts_Error := (if ts_Error t = [] then Reason p else ts_Error t),
            ts_Completed := Some (ev_OccurredAt evt)\<rparr>) s)
      | EFaultInjected \<Rightarrow> decoded evt (\<lambda>p.
          s\<lparr>rs_Faults := rs_Faults s @ [\<lparr>fs_Type = FaultType p, fs_Point = FaultPoint p,
                                          fs_Task = ev_TaskName evt, fs_Draw = Draw p\<rparr>]\<rparr>)
      | ESideEffectSkipped \<Rightarrow> decoded evt (\<lambda>p.
          s\<lparr>rs_SkippedEffects := rs_SkippedEffects s @
              [\<lparr>sk_Key = IdempotencyKey p, sk_Task = ev_TaskName evt, sk_Attempt = Attempt p,
                sk_FirstAttempt = FirstAttempt p\<rparr>]\<rparr>)
      | EWorkerLost \<Rightarrow> decoded evt (\<lambda>p. s\<lparr>rs_WorkersLost := rs_WorkersLost s + 1\<rparr>)
      | EOther n \<Rightarrow> Inl (ErrNoCase (ev_Seq evt) (ev_Type evt))
      | _ \<Rightarrow> (case decodeAny (ev_Payload evt) of
               Some e \<Rightarrow> Inl (ErrPayload (ev_Seq evt) e) | None \<Rightarrow> Inr s))"

fun reduce_loop :: "int \<Rightarrow> bool \<Rightarrow> run_state \<Rightarrow> event list \<Rightarrow> replay_error + run_state" where
  "reduce_loop expected terminated s [] = Inr s"
| "reduce_loop expected terminated s (evt # evts) =
     (if ev_Seq evt \<noteq> expected then Inl (ErrOutOfOrder expected (ev_Seq evt))
      else if \<not> Known (ev_Type evt) then Inl (ErrReplayUnknownType (ev_Type evt) (ev_Seq evt))
      else if terminated then Inl (ErrEventAfterTerminal (ev_Seq evt) (ev_Type evt))
      else (case apply_event s evt of
              Inl e \<Rightarrow> Inl e
            | Inr s' \<Rightarrow> reduce_loop (expected + 1) (Terminal (ev_Type evt))
                          (s'\<lparr>rs_EventCount := rs_EventCount s' + 1, rs_LastSeq := ev_Seq evt\<rparr>) evts))"

definition Reduce :: "uuid \<Rightarrow> event list \<Rightarrow> replay_error + run_state" where
  "Reduce rid evts = reduce_loop 1 False (new_state rid) evts"

datatype load_error = LoadStore error | LoadReplay replay_error

definition Load :: "uuid \<Rightarrow> db \<Rightarrow> load_error + run_state" where
  "Load rid db =
     (case Read rid db of
        Inl e \<Rightarrow> Inl (LoadStore e)
      | Inr evts \<Rightarrow>
          if evts = [] then Inl (LoadStore ErrNotFound)
          else (case Reduce rid evts of Inl e \<Rightarrow> Inl (LoadReplay e) | Inr s \<Rightarrow> Inr s))"

section \<open>The reducer is a fold\<close>

text \<open>One event folded into a state that has already consumed \<open>n\<close> of them.\<close>

definition count_event :: "event \<Rightarrow> run_state \<Rightarrow> run_state" where
  "count_event evt s = s\<lparr>rs_EventCount := rs_EventCount s + 1, rs_LastSeq := ev_Seq evt\<rparr>"

definition reduce_step :: "nat \<Rightarrow> bool \<Rightarrow> run_state \<Rightarrow> event \<Rightarrow> replay_error + run_state" where
  "reduce_step n terminated s evt =
     (if ev_Seq evt \<noteq> int n + 1 then Inl (ErrOutOfOrder (int n + 1) (ev_Seq evt))
      else if \<not> Known (ev_Type evt) then Inl (ErrReplayUnknownType (ev_Type evt) (ev_Seq evt))
      else if terminated then Inl (ErrEventAfterTerminal (ev_Seq evt) (ev_Type evt))
      else map_sum id (count_event evt) (apply_event s evt))"

lemma reduce_loop_snoc:
  assumes "reduce_loop (int k + 1) tm s evts = Inr s'"
  shows "reduce_loop (int k + 1) tm s (evts @ [evt]) =
    reduce_step (k + length evts) (if evts = [] then tm else Terminal (ev_Type (last evts))) s' evt"
  using assms
proof (induction evts arbitrary: k tm s)
  case Nil
  then show ?case by (auto simp: reduce_step_def count_event_def split: sum.splits)
next
  case (Cons e evts)
  from Cons.prems obtain s1 where
    step: "ev_Seq e = int k + 1" "Known (ev_Type e)" "\<not> tm" "apply_event s e = Inr s1"
    and rest: "reduce_loop (int (Suc k) + 1) (Terminal (ev_Type e)) (count_event e s1) evts = Inr s'"
    by (auto simp: count_event_def algebra_simps split: if_splits sum.splits)
  from Cons.IH [OF rest] step show ?case
    by (cases evts) (simp_all add: count_event_def algebra_simps)
qed

lemma reduce_loop_prefix:
  "reduce_loop k tm s (evts @ evts2) = Inr s' \<Longrightarrow> \<exists>s1. reduce_loop k tm s evts = Inr s1"
  by (induction evts arbitrary: k tm s) (auto split: sum.splits if_splits)

lemma Reduce_snoc:
  assumes "Reduce rid evts = Inr s"
  shows "Reduce rid (evts @ [evt]) =
    reduce_step (length evts) (evts \<noteq> [] \<and> Terminal (ev_Type (last evts))) s evt"
  using reduce_loop_snoc [of 0 False "new_state rid" evts s evt] assms by (simp add: Reduce_def)

text \<open>What the reducer accepts: the rejection of everything else is in the statement.\<close>

definition well_formed_journal :: "event list \<Rightarrow> bool" where
  "well_formed_journal evts \<longleftrightarrow>
     map ev_Seq evts = map int [1..<Suc (length evts)]
     \<and> (\<forall>e\<in>set evts. Known (ev_Type e))
     \<and> (\<forall>e\<in>set (butlast evts). \<not> Terminal (ev_Type e))"

definition payload_readable :: "event \<Rightarrow> bool" where
  "payload_readable evt =
     (case ev_Type evt of
        ERunStarted \<Rightarrow> True
      | EWorkerRegistered \<Rightarrow> decodeAny (ev_Payload evt) = None
      | EWorkerHeartbeat \<Rightarrow> decodeAny (ev_Payload evt) = None
      | EWorkerSuspect \<Rightarrow> decodeAny (ev_Payload evt) = None
      | EOther _ \<Rightarrow> False
      | T \<Rightarrow> \<not> isl (Decode (ev_Payload evt) T))"

lemma apply_readable: "\<not> isl (apply_event s evt) \<longleftrightarrow> payload_readable evt"
  by (cases "ev_Type evt")
    (auto simp: payload_readable_def apply_event_def decoded_def isl_def split: sum.splits option.splits)

lemma well_formed_snoc:
  "well_formed_journal (evts @ [evt]) \<longleftrightarrow>
     well_formed_journal evts \<and> ev_Seq evt = int (length evts) + 1 \<and> Known (ev_Type evt)
     \<and> (evts \<noteq> [] \<longrightarrow> \<not> Terminal (ev_Type (last evts)))"
proof (cases evts rule: rev_cases)
  case Nil
  then show ?thesis by (simp add: well_formed_journal_def)
next
  case (snoc es e)
  then show ?thesis by (auto simp: well_formed_journal_def butlast_append)
qed

lemma Reduce_accepts: "\<not> isl (Reduce rid evts) \<longleftrightarrow> well_formed_journal evts \<and> list_all payload_readable evts"
proof (induction evts rule: rev_induct)
  case Nil
  then show ?case by (simp add: Reduce_def well_formed_journal_def)
next
  case (snoc evt evts)
  show ?case
  proof (cases "Reduce rid evts")
    case (Inl e)
    then have "isl (Reduce rid (evts @ [evt]))"
      using reduce_loop_prefix [of 1 False "new_state rid" evts "[evt]"]
      by (cases "Reduce rid (evts @ [evt])") (auto simp: Reduce_def)
    then show ?thesis using snoc Inl by (auto simp: well_formed_snoc)
  next
    case (Inr s)
    then show ?thesis using snoc apply_readable [of s evt]
      by (auto simp: Reduce_snoc reduce_step_def well_formed_snoc isl_map_sum)
  qed
qed

section \<open>Properties\<close>


end
