(* ===== verification/Relab_Assert.thy ===== *)
theory Relab_Assert
  imports Relab_Fault Relab_Replay
begin

text \<open>
  The verdict on a scenario (\<^verbatim>\<open>internal/assert/assert.go\<close>) and the figures a benchmark makes
  of its runs (\<^verbatim>\<open>internal/bench/bench.go\<close>): both read the replayed state of a run and its
  events and nothing else.
\<close>

section \<open>Recovery time\<close>

text \<open>
  \<open>trouble\<close> and \<open>closing\<close> are the two groups of event types the loop looks at.
\<close>

definition trouble :: "etype \<Rightarrow> bool" where
  "trouble t \<longleftrightarrow> t = ETaskLeaseExpired \<or> t = EFaultInjected \<or> t = ETaskFailed \<or> t = EWorkerLost"

definition closing :: "etype \<Rightarrow> bool" where
  "closing t \<longleftrightarrow> t = ERunSucceeded \<or> t = ERunFailed \<or> t = ERunCancelled"

fun recovery_loop :: "time \<times> time \<Rightarrow> event list \<Rightarrow> time \<times> time" where
  "recovery_loop s [] = s"
| "recovery_loop (firstTrouble, completed) (e # es) =
     (if trouble (ev_Type e) then
        recovery_loop (if IsZero firstTrouble then ev_OccurredAt e else firstTrouble, completed) es
      else if closing (ev_Type e) then recovery_loop (firstTrouble, ev_OccurredAt e) es
      else recovery_loop (firstTrouble, completed) es)"

definition RecoveryTime :: "event list \<Rightarrow> duration" where
  "RecoveryTime evs =
     (case recovery_loop (zero_time, zero_time) evs of
        (firstTrouble, completed) \<Rightarrow>
          if IsZero firstTrouble \<or> IsZero completed \<or> completed < firstTrouble then 0
          else time_sub completed firstTrouble)"

section \<open>Evaluation\<close>

record result =
  res_Name :: string
  res_Passed :: bool
  res_Expected :: string
  res_Actual :: string

record report =
  rep_Scenario :: string
  rep_Seed :: int
  rep_RunID :: uuid
  rep_Passed :: bool
  rep_Results :: "result list"
  rep_RecoveryTime :: duration
  rep_RecoveryTimeMS :: int
  rep_Retries :: int
  rep_LostTasks :: int
  rep_DuplicateEffects :: int
  rep_SkippedEffects :: int
  rep_FaultsInjected :: int
  rep_FinalState :: string

definition check :: "string \<Rightarrow> bool \<Rightarrow> string \<Rightarrow> string \<Rightarrow> result list" where
  "check name passed expected actual =
     [\<lparr>res_Name = name, res_Passed = passed, res_Expected = expected, res_Actual = actual\<rparr>]"

definition check_if :: "int option \<Rightarrow> (int \<Rightarrow> result list) \<Rightarrow> result list" where
  "check_if a f = (case a of None \<Rightarrow> [] | Some n \<Rightarrow> f n)"

definition Evaluate :: "scenario \<Rightarrow> run_state \<Rightarrow> event list \<Rightarrow> int \<Rightarrow> report" where
  "Evaluate sc state evs duplicateEffects =
     (let a = sc_Assert sc;
          recovery = RecoveryTime evs;
          recoveryMS = Milliseconds recovery;
          faults = int (length (rs_Faults state));
          results =
            (if as_RunStatus a \<noteq> [] then check ''run_status'' (rs_Status state = as_RunStatus a) (as_RunStatus a) (rs_Status state) else [])
            @ check_if (as_LostTasks a) (\<lambda>n. check ''lost_tasks'' (LostTasks state \<le> n) (''at most '' @ show_int n) (show_int (LostTasks state)))
            @ check_if (as_DuplicateEffects a) (\<lambda>n. check ''duplicate_effects'' (duplicateEffects \<le> n) (''at most '' @ show_int n) (show_int duplicateEffects))
            @ check_if (as_MaxRecoveryTimeMS a) (\<lambda>n. check ''max_recovery_time_ms'' (recoveryMS \<le> n) (''at most '' @ show_int n @ ''ms'') (show_int recoveryMS @ ''ms''))
            @ check_if (as_MaxRetriesPerTask a) (\<lambda>n. check ''max_retries_per_task'' (MaxRetries state \<le> n) (''at most '' @ show_int n) (show_int (MaxRetries state)))
            @ check_if (as_MinRetriesPerTask a) (\<lambda>n. check ''min_retries_per_task'' (MaxRetries state \<ge> n) (''at least '' @ show_int n) (show_int (MaxRetries state)))
            @ check_if (as_FaultsInjected a) (\<lambda>n. check ''faults_injected'' (faults = n) (show_int n) (show_int faults))
      in \<lparr>rep_Scenario = sc_Name sc, rep_Seed = sc_Seed sc, rep_RunID = rs_RunID state,
          rep_Passed = list_all res_Passed results, rep_Results = results, rep_RecoveryTime = recovery,
          rep_RecoveryTimeMS = recoveryMS, rep_Retries = MaxRetries state, rep_LostTasks = LostTasks state,
          rep_DuplicateEffects = duplicateEffects, rep_SkippedEffects = int (length (rs_SkippedEffects state)),
          rep_FaultsInjected = faults, rep_FinalState = rs_Status state\<rparr>)"

definition Failures :: "report \<Rightarrow> result list" where
  "Failures r = sort_key res_Name (filter (\<lambda>x. \<not> res_Passed x) (rep_Results r))"

section \<open>Benchmark figures\<close>

record bench_sample =
  sm_RunID :: uuid
  sm_Status :: string
  sm_Duration :: duration
  sm_Recovery :: duration
  sm_Tasks :: int
  sm_Retries :: int
  sm_Lost :: int

text \<open>
  \<open>pct\<close> is the percentile; the product, the sum and the conversion are those of float64.
\<close>

definition percentile :: "arith \<Rightarrow> duration list \<Rightarrow> rat \<Rightarrow> duration" where
  "percentile ar values pct =
     (if values = [] then 0
      else let sorted = sort values;
               rank0 = to_int64 ar (fl ar (fl ar (fl ar (of_nat (length sorted)) * pct) + 1 / 2)) - 1;
               rank1 = (if rank0 < 0 then 0 else rank0);
               rank = (if rank1 \<ge> int (length sorted) then int (length sorted) - 1 else rank1)
           in sorted ! nat rank)"

record bench_result =
  br_RunsCompleted :: int
  br_RunsSucceeded :: int
  br_RunsFailed :: int
  br_TasksExecuted :: int
  br_TotalRetries :: int
  br_TotalLostTasks :: int
  br_RunLatency :: "duration list"
  br_Recovery :: "duration list"

text \<open>\<open>Summarise\<close>, whose rates are those of \<open>Relab_Bench\<close>: the counts, and the latency and recovery percentiles in the order of the code.\<close>

definition Summarise :: "arith \<Rightarrow> bench_sample list \<Rightarrow> bench_result" where
  "Summarise ar samples =
     (let durations = map sm_Duration samples;
          recoveries = filter (\<lambda>d. d > 0) (map sm_Recovery samples)
      in \<lparr>br_RunsCompleted = int (length samples),
          br_RunsSucceeded = int (length (filter (\<lambda>s. sm_Status s = ''SUCCEEDED'') samples)),
          br_RunsFailed = int (length (filter (\<lambda>s. sm_Status s \<noteq> ''SUCCEEDED'') samples)),
          br_TasksExecuted = sum_list (map sm_Tasks samples), br_TotalRetries = sum_list (map sm_Retries samples),
          br_TotalLostTasks = sum_list (map sm_Lost samples),
          br_RunLatency = (if samples = [] then [0, 0, 0, 0] else map (percentile ar durations) [fl ar (50 / 100), fl ar (95 / 100), fl ar (99 / 100), 1]),
          br_Recovery = (if samples = [] then [0, 0, 0] else map (percentile ar recoveries) [fl ar (50 / 100), fl ar (95 / 100), 1])\<rparr>)"

section \<open>Facts\<close>

lemma percentile_member: "values \<noteq> [] \<Longrightarrow> percentile ar values pct \<in> set values"
proof -
  assume v: "values \<noteq> []"
  have "sort values ! nat r \<in> set values" if "r < int (length values)" for r
  proof -
    have "nat r < length (sort values)" using that v by (cases "r < 0") auto
    then show ?thesis by (metis nth_mem set_sort)
  qed
  then show ?thesis using v by (simp add: percentile_def Let_def)
qed

lemma RecoveryTime_nonneg: "0 \<le> RecoveryTime evs"
  by (auto simp: RecoveryTime_def time_sub_def split: prod.splits)

lemma Failures_none: "Failures (Evaluate sc st evs d) = [] \<longleftrightarrow> rep_Passed (Evaluate sc st evs d)"
proof -
  have "rep_Passed (Evaluate sc st evs d) = list_all res_Passed (rep_Results (Evaluate sc st evs d))"
    by (simp add: Evaluate_def Let_def)
  then show ?thesis by (auto simp: Failures_def list_all_iff filter_empty_conv simp flip: set_empty)
qed

section \<open>Claims\<close>



end
