(* ===== verification/Relab_Access.thy ===== *)
theory Relab_Access
  imports Relab_Retry
begin

text \<open>
  Access control of the HTTP API (\<^verbatim>\<open>internal/api/access.go\<close>): the bearer tokens, which are
  kept as digests, the token-bucket limiter with its bounded table of clients, and the
  limits a request's parameters are clamped to (\<^verbatim>\<open>internal/api/server.go\<close>).  The digest and
  \<^verbatim>\<open>net.SplitHostPort\<close> are arguments.
\<close>

section \<open>The limiter\<close>

record bucket =
  b_tokens :: rat
  b_last :: time

record limiter =
  l_rate :: rat
  l_burst :: rat
  l_clients :: "(string \<times> bucket) list"

definition maxRateLimitClients :: nat where
  "maxRateLimitClients = 10000"

definition newClientLimiter :: "rat \<Rightarrow> rat \<Rightarrow> limiter" where
  "newClientLimiter rate burst = \<lparr>l_rate = rate, l_burst = burst, l_clients = []\<rparr>"

definition reserve :: "string \<Rightarrow> time \<Rightarrow> limiter \<Rightarrow> limiter" where
  "reserve key now l =
     l\<lparr>l_clients := AList.update key \<lparr>b_tokens = l_burst l, b_last = now\<rparr> (l_clients l)\<rparr>"

text \<open>\<^verbatim>\<open>Duration.Seconds\<close>: the whole seconds plus the rest over a billion, in float64.\<close>

definition Seconds :: "arith \<Rightarrow> duration \<Rightarrow> rat" where
  "Seconds ar d =
     (let sec = sgn d * (\<bar>d\<bar> div second); nsec = sgn d * (\<bar>d\<bar> mod second)
      in fl ar (fl ar (of_int sec) + fl ar (fl ar (of_int nsec) / 1000000000)))"

definition idleUntilFull :: "arith \<Rightarrow> limiter \<Rightarrow> duration" where
  "idleUntilFull ar l = wrap64 (to_int64 ar (fl ar (fl ar (l_burst l / l_rate l) * of_int second)) + second)"

definition evictRefilled :: "arith \<Rightarrow> time \<Rightarrow> limiter \<Rightarrow> limiter" where
  "evictRefilled ar now l =
     (if l_rate l \<le> 0 then l
      else l\<lparr>l_clients := filter (\<lambda>(k, b). \<not> time_sub now (b_last b) \<ge> idleUntilFull ar l) (l_clients l)\<rparr>)"

definition take_token :: "arith \<Rightarrow> string \<Rightarrow> time \<Rightarrow> bucket \<Rightarrow> limiter \<Rightarrow> bool \<times> limiter" where
  "take_token ar key now b l =
     (let filled = fl ar (b_tokens b + fl ar (Seconds ar (time_sub now (b_last b)) * l_rate l));
          toks = (if filled > l_burst l then l_burst l else filled)
      in if toks < 1 then (False, l\<lparr>l_clients := AList.update key \<lparr>b_tokens = toks, b_last = now\<rparr> (l_clients l)\<rparr>)
         else (True, l\<lparr>l_clients := AList.update key \<lparr>b_tokens = fl ar (toks - 1), b_last = now\<rparr> (l_clients l)\<rparr>))"

definition allow :: "arith \<Rightarrow> string \<Rightarrow> time \<Rightarrow> limiter \<Rightarrow> bool \<times> limiter" where
  "allow ar key now l =
     (case map_of (l_clients l) key of
        Some b \<Rightarrow> take_token ar key now b l
      | None \<Rightarrow>
          let l1 = (if length (l_clients l) \<ge> maxRateLimitClients then evictRefilled ar now l else l) in
          if length (l_clients l1) \<ge> maxRateLimitClients then (False, l1)
          else take_token ar key now \<lparr>b_tokens = l_burst l, b_last = now\<rparr> l1)"

section \<open>Tokens\<close>

record token_identity =
  ti_digest :: string
  ti_role :: api_role

record access_control =
  ac_tokens :: "token_identity list"
  ac_limiter :: limiter

definition newAccessControl :: "arith \<Rightarrow> (string \<Rightarrow> string) \<Rightarrow> api_config \<Rightarrow> time \<Rightarrow> access_control" where
  "newAccessControl ar sum256 cfg now =
     \<lparr>ac_tokens = map (\<lambda>t. \<lparr>ti_digest = sum256 (tok_Value t), ti_role = tok_Role t\<rparr>) (Tokens cfg),
      ac_limiter = fold (\<lambda>t. reserve (''token:'' @ sum256 (tok_Value t)) now) (Tokens cfg)
        (newClientLimiter (fl ar (of_int (RateLimitPerSecond cfg))) (fl ar (of_int (RateLimitBurst cfg))))\<rparr>"

definition bearerToken :: "string \<Rightarrow> string" where
  "bearerToken header =
     (case Split2 CHR '' '' header of
        None \<Rightarrow> []
      | Some (scheme, token) \<Rightarrow>
          if ToLower scheme \<noteq> ''bearer'' \<or> token = [] \<or> CHR '' '' \<in> set token \<or> CHR 0x09 \<in> set token then []
          else token)"

definition remoteIP :: "(string \<Rightarrow> string option) \<Rightarrow> string \<Rightarrow> string" where
  "remoteIP splitHostPort remoteAddr = (case splitHostPort remoteAddr of Some host \<Rightarrow> host | None \<Rightarrow> remoteAddr)"

text \<open>The loop over the configured tokens: whether one matched, and the role of the last that did.\<close>

definition match_tokens :: "string \<Rightarrow> token_identity list \<Rightarrow> bool \<times> api_role option" where
  "match_tokens digest tokens =
     fold (\<lambda>c (matched, role). (matched \<or> digest = ti_digest c, if digest = ti_digest c then Some (ti_role c) else role))
       tokens (False, None)"

datatype access_response = TooManyRequests | Unauthorized | Serve "api_role option"

definition authorizeAndRateLimit ::
  "arith \<Rightarrow> (string \<Rightarrow> string) \<Rightarrow> (string \<Rightarrow> string option) \<Rightarrow> string \<Rightarrow> string \<Rightarrow> time \<Rightarrow> access_control
   \<Rightarrow> access_response \<times> access_control" where
  "authorizeAndRateLimit ar sum256 splitHostPort header remoteAddr now ac =
     (let digest = sum256 (bearerToken header);
          (matched, role0) = match_tokens digest (ac_tokens ac);
          role = (if ac_tokens ac = [] then Some RoleViewer else role0);
          clientKey = (if matched then ''token:'' @ digest else ''ip:'' @ remoteIP splitHostPort remoteAddr)
      in case allow ar clientKey now (ac_limiter ac) of
           (ok, l') \<Rightarrow>
             (if \<not> ok then TooManyRequests
              else if ac_tokens ac \<noteq> [] \<and> \<not> matched then Unauthorized
              else Serve role, ac\<lparr>ac_limiter := l'\<rparr>))"

section \<open>Limits of a request\<close>

definition limitRequestBody :: "api_config \<Rightarrow> int \<Rightarrow> bool" where
  "limitRequestBody cfg contentLength \<longleftrightarrow> \<not> contentLength > MaxBodyBytes cfg"

definition pageLimit :: "api_config \<Rightarrow> string \<Rightarrow> int \<Rightarrow> int" where
  "pageLimit cfg raw fallback =
     (let v = (if raw \<noteq> [] then (case parse_int64 raw of Some parsed \<Rightarrow> if parsed > 0 then parsed else fallback | None \<Rightarrow> fallback)
               else fallback)
      in if v > MaxLimit cfg then MaxLimit cfg else v)"

definition int64Param :: "string \<Rightarrow> int \<Rightarrow> int" where
  "int64Param raw fallback =
     (if raw = [] then fallback
      else case parse_int64 raw of None \<Rightarrow> fallback | Some v \<Rightarrow> if v < 0 then fallback else v)"

section \<open>Facts\<close>

lemma pageLimit_bounds: "0 < fallback \<Longrightarrow> 0 < MaxLimit cfg \<Longrightarrow> 0 < pageLimit cfg raw fallback \<and> pageLimit cfg raw fallback \<le> MaxLimit cfg"
  by (auto simp: pageLimit_def Let_def split: option.splits)

lemma match_tokens_snoc:
  "match_tokens d (ts @ [c]) = (fst (match_tokens d ts) \<or> d = ti_digest c, if d = ti_digest c then Some (ti_role c) else snd (match_tokens d ts))"
  by (simp add: match_tokens_def case_prod_beta)

lemma match_tokens_some:
  "(fst (match_tokens d ts) \<longleftrightarrow> (\<exists>c\<in>set ts. ti_digest c = d))
   \<and> (\<forall>r. snd (match_tokens d ts) = Some r \<longrightarrow> (\<exists>c\<in>set ts. ti_digest c = d \<and> ti_role c = r))
   \<and> (fst (match_tokens d ts) \<longrightarrow> snd (match_tokens d ts) \<noteq> None)"
proof (induction ts rule: rev_induct)
  case Nil
  then show ?case by (simp add: match_tokens_def)
next
  case (snoc c ts)
  then show ?case by (auto simp: match_tokens_snoc)
qed

text \<open>The table of clients never grows past its bound, beyond the buckets reserved at the start.\<close>

lemma length_update: "length (AList.update k v al) = (if k \<in> fst ` set al then length al else Suc (length al))"
  by (induction al) auto

lemma allow_bounded:
  "length (l_clients (snd (allow ar key now l))) \<le> max maxRateLimitClients (length (l_clients l))"
proof -
  have upd: "length (l_clients (snd (take_token ar key now b q))) = length (AList.update key b (l_clients q))" for b q
    by (simp add: take_token_def Let_def length_update)
  have ev: "length (l_clients (evictRefilled ar now l)) \<le> length (l_clients l)"
    by (simp add: evictRefilled_def)
  show ?thesis
  proof (cases "map_of (l_clients l) key")
    case (Some b)
    then have "key \<in> fst ` set (l_clients l)" by (auto dest!: map_of_SomeD intro: rev_image_eqI)
    with Some upd show ?thesis by (simp add: allow_def length_update)
  next
    case None
    with upd ev show ?thesis by (auto simp: allow_def Let_def length_update)
  qed
qed

text \<open>
  The buckets reserved for the configured tokens are evicted like any other.  One new
  address then takes the freed place, and while the table is full of busy clients the token
  is refused.
\<close>

lemma reserved_bucket_lost:
  assumes full: "length others = maxRateLimitClients - 1" and keys: "token \<notin> fst ` set others" "ip \<notin> fst ` set others" "ip \<noteq> token"
    and busy: "\<And>k b. (k, b) \<in> set others \<Longrightarrow> b_last b = now" and rate: "0 < rate" "1 \<le> burst"
    and idle: "time_sub now (b_last b) \<ge> idleUntilFull ar \<lparr>l_rate = rate, l_burst = burst, l_clients = (token, b) # others\<rparr>"
    and pos: "0 < idleUntilFull ar \<lparr>l_rate = rate, l_burst = burst, l_clients = (token, b) # others\<rparr>"
  shows "\<not> fst (allow ar token now (snd (allow ar ip now \<lparr>l_rate = rate, l_burst = burst, l_clients = (token, b) # others\<rparr>)))"
proof -
  let ?l = "\<lparr>l_rate = rate, l_burst = burst, l_clients = (token, b) # others\<rparr>"
  have n: "maxRateLimitClients = Suc (length others)" using full by (simp add: maxRateLimitClients_def)
  have idl: "idleUntilFull ar \<lparr>l_rate = rate, l_burst = burst, l_clients = cs\<rparr> = idleUntilFull ar ?l" for cs
    by (simp add: idleUntilFull_def)
  have keep: "filter (\<lambda>(k, b). \<not> time_sub now (b_last b) \<ge> idleUntilFull ar ?l) others = others"
    using busy pos by (auto simp: filter_id_conv time_sub_def)
  have ev: "evictRefilled ar now ?l = ?l\<lparr>l_clients := others\<rparr>"
    using idle rate keep by (simp add: evictRefilled_def)
  have none: "map_of (l_clients ?l) ip = None" using keys by (auto simp: map_of_eq_None_iff)
  obtain ok l1 where a: "allow ar ip now ?l = (ok, l1)" by (metis prod.exhaust)
  then obtain b1 where l1: "l1 = ?l\<lparr>l_clients := AList.update ip b1 others\<rparr>" and b1: "b_last b1 = now"
    using none ev n by (auto simp: allow_def take_token_def Let_def split: if_splits)
  have len: "length (l_clients l1) = maxRateLimitClients" using l1 n keys(2) by (simp add: length_update)
  have "map_of (l_clients l1) token = None"
    using l1 keys by (auto simp: map_of_eq_None_iff AList.dom_update)
  moreover have "evictRefilled ar now l1 = l1"
  proof -
    have "(k, c) \<in> set (AList.update ip b1 others) \<Longrightarrow> b_last c = now" for k c
      using busy b1 by (induction others) (auto split: if_splits)
    then have "filter (\<lambda>(k, b). \<not> time_sub now (b_last b) \<ge> idleUntilFull ar ?l) (AList.update ip b1 others) = AList.update ip b1 others"
      using pos by (auto simp: filter_id_conv time_sub_def)
    then show ?thesis using l1 rate by (simp add: evictRefilled_def idl [of "AList.update ip b1 others"])
  qed
  ultimately show ?thesis using a len by (simp add: allow_def)
qed

section \<open>Who is served\<close>

text \<open>
  With tokens configured, a request reaches a handler only when its Authorization header
  carries the value of a configured token, and with the role of that token.
\<close>

lemma access_granted:
  assumes "APIConfig_Validate cfg = None" and "Tokens cfg \<noteq> []"
    and "ac_tokens ac = ac_tokens (newAccessControl ar0 dg cfg started)"
    and "\<And>t s. t \<in> set (Tokens cfg) \<Longrightarrow> dg s = dg (tok_Value t) \<Longrightarrow> s = tok_Value t"
    and "authorizeAndRateLimit ar dg split header addr now ac = (Serve role, ac')"
  shows "\<exists>t\<in>set (Tokens cfg). bearerToken header = tok_Value t \<and> bearerToken header \<noteq> [] \<and> role = Some (tok_Role t)"
proof -
  let ?d = "dg (bearerToken header)" and ?ids = "map (\<lambda>t. \<lparr>ti_digest = dg (tok_Value t), ti_role = tok_Role t\<rparr>) (Tokens cfg)"
  have ids: "ac_tokens ac = ?ids" using assms(3) by (simp add: newAccessControl_def)
  have m: "fst (match_tokens ?d ?ids)" "role = snd (match_tokens ?d ?ids)"
    using assms(2,5) ids by (auto simp: authorizeAndRateLimit_def Let_def split: prod.splits if_splits)
  then obtain r where r: "role = Some r" "\<exists>c\<in>set ?ids. ti_digest c = ?d \<and> ti_role c = r"
    using match_tokens_some [of ?d ?ids] by (metis not_None_eq)
  then obtain t where t: "t \<in> set (Tokens cfg)" "dg (tok_Value t) = ?d" "tok_Role t = r" by auto
  then have "bearerToken header = tok_Value t" using assms(4) [of t "bearerToken header"] by simp
  moreover have "tok_Value t \<noteq> []"
    using assms(1) t(1) by (force simp: APIConfig_Validate_def token_loop_ok split: if_splits)
  ultimately show ?thesis using t r by auto
qed

definition demo_api :: api_config where
  "demo_api = DefaultAPIConfig\<lparr>Tokens := [\<lparr>tok_Value = ''secret'', tok_Role = RoleOperator\<rparr>]\<rparr>"

definition demo_exact :: arith where
  "demo_exact = \<lparr>fl = id, pow = (\<lambda>x y. Some x), huge = (\<lambda>x. 0)\<rparr>"

end
