(* ===== verification/Relab_Migrate.thy ===== *)
theory Relab_Migrate
  imports Relab_Config "HOL-Library.Sublist"
begin

text \<open>
  The schema migrations (\<^verbatim>\<open>store/migrate.go\<close>) and the redaction of connection errors
  (\<^verbatim>\<open>store/redact.go\<close>).  The files a binary carries, the calls to the database that fail and
  what a migration's SQL does to the schema are arguments.  One call of \<open>Migrate\<close> is one step:
  the advisory lock admits one process at a time.  Strings are byte strings, blanks are those
  of ASCII; the password \<^verbatim>\<open>net/url\<close> finds in a DSN is an argument.
\<close>

section \<open>The files\<close>

record dir_entry =
  en_Name :: string
  en_IsDir :: bool
  en_Body :: "string option"

record migration =
  mg_Version :: int
  mg_Name :: string
  mg_SQL :: string
  mg_Checksum :: string

datatype mig_load_error = ReadDirFailed | BadMigrationName string | BadMigrationVersion string
  | DuplicateVersion int string string | ReadFileFailed string | NoMigrations

definition HasSuffix :: "string \<Rightarrow> string \<Rightarrow> bool" where
  "HasSuffix s suf \<longleftrightarrow> length suf \<le> length s \<and> drop (length s - length suf) s = suf"

definition TrimSuffix :: "string \<Rightarrow> string \<Rightarrow> string" where
  "TrimSuffix s suf = (if HasSuffix s suf then take (length s - length suf) s else s)"

definition parseMigrationName :: "string \<Rightarrow> mig_load_error + int \<times> string" where
  "parseMigrationName filename =
     (let base = TrimSuffix filename ''.sql'' in
      case Split2 CHR ''_'' base of
        None \<Rightarrow> Inl (BadMigrationName filename)
      | Some (numeric, name) \<Rightarrow>
          if name = [] then Inl (BadMigrationName filename)
          else (case parse_int64 numeric of
                  None \<Rightarrow> Inl (BadMigrationVersion filename)
                | Some version \<Rightarrow> if version \<le> 0 then Inl (BadMigrationVersion filename) else Inr (version, name)))"

fun load_loop :: "(string \<Rightarrow> string) \<Rightarrow> (int \<times> string) list \<Rightarrow> migration list \<Rightarrow> dir_entry list \<Rightarrow> mig_load_error + migration list" where
  "load_loop sum256 seen acc [] = Inr acc"
| "load_loop sum256 seen acc (entry # entries) =
     (if en_IsDir entry \<or> \<not> HasSuffix (en_Name entry) ''.sql'' then load_loop sum256 seen acc entries
      else case parseMigrationName (en_Name entry) of
             Inl e \<Rightarrow> Inl e
           | Inr (version, name) \<Rightarrow>
               (case map_of seen version of
                  Some prev \<Rightarrow> Inl (DuplicateVersion version prev (en_Name entry))
                | None \<Rightarrow>
                    (case en_Body entry of
                       None \<Rightarrow> Inl (ReadFileFailed (en_Name entry))
                     | Some body \<Rightarrow>
                         load_loop sum256 ((version, en_Name entry) # seen)
                           (acc @ [\<lparr>mg_Version = version, mg_Name = name, mg_SQL = body, mg_Checksum = sum256 body\<rparr>])
                           entries)))"

definition LoadMigrations :: "(string \<Rightarrow> string) \<Rightarrow> dir_entry list option \<Rightarrow> mig_load_error + migration list" where
  "LoadMigrations sum256 dir =
     (case dir of
        None \<Rightarrow> Inl ReadDirFailed
      | Some entries \<Rightarrow>
          (case load_loop sum256 [] [] entries of Inl e \<Rightarrow> Inl e | Inr ms \<Rightarrow> Inr (sort_key mg_Version ms)))"

definition ExpectedSchemaVersion :: "(string \<Rightarrow> string) \<Rightarrow> dir_entry list option \<Rightarrow> mig_load_error + int" where
  "ExpectedSchemaVersion sum256 dir =
     (case LoadMigrations sum256 dir of
        Inl e \<Rightarrow> Inl e
      | Inr ms \<Rightarrow> if ms = [] then Inl NoMigrations else Inr (mg_Version (last ms)))"

section \<open>The database\<close>

text \<open>
  \<open>sd_applied\<close> is the table \<^verbatim>\<open>schema_migrations\<close>, absent before the first migration;
  \<open>sd_schema\<close> stands for everything the migrations' SQL changes.
\<close>

record applied_row =
  am_version :: int
  am_name :: string
  am_checksum :: string

record 's schema_db =
  sd_applied :: "applied_row list option"
  sd_schema :: 's

datatype mig_call = CallAcquire | CallLock | CallCreate | CallRead
  | CallBegin int | CallApply int | CallRecord int | CallCommit int

datatype mig_error = LoadFailed mig_load_error | AcquireFailed | LockFailed | CreateFailed | ReadFailed
  | Modified int string string string | SlicePanic
  | BeginFailed int | ApplyFailed int | InsertFailed int | CommitFailed int

text \<open>
  What surrounds a call: the digest, the files of the binary, which calls fail, whether a
  commit that reported failure took effect, and what SQL does.
\<close>

record 's mig_env =
  me_sum :: "string \<Rightarrow> string"
  me_dir :: "dir_entry list option"
  me_down :: "mig_call \<Rightarrow> bool"
  me_kept :: "int \<Rightarrow> bool"
  me_exec :: "string \<Rightarrow> 's \<Rightarrow> 's option"

definition row_of :: "migration \<Rightarrow> applied_row" where
  "row_of m = \<lparr>am_version = mg_Version m, am_name = mg_Name m, am_checksum = mg_Checksum m\<rparr>"

text \<open>The insert: \<open>version\<close> is a 32-bit primary key.\<close>

definition insert_applied :: "migration \<Rightarrow> applied_row list \<Rightarrow> applied_row list option" where
  "insert_applied m rows =
     (if mg_Version m > 2147483647 \<or> mg_Version m \<in> set (map am_version rows) then None else Some (rows @ [row_of m]))"

definition applied_rows :: "'s schema_db \<Rightarrow> applied_row list" where
  "applied_rows d = (case sd_applied d of None \<Rightarrow> [] | Some rows \<Rightarrow> rows)"

definition apply_migration :: "'s mig_env \<Rightarrow> migration \<Rightarrow> 's schema_db \<Rightarrow> mig_error option \<times> 's schema_db" where
  "apply_migration env m d =
     (let v = mg_Version m in
      if me_down env (CallBegin v) then (Some (BeginFailed v), d)
      else if me_down env (CallApply v) then (Some (ApplyFailed v), d)
      else case me_exec env (mg_SQL m) (sd_schema d) of
             None \<Rightarrow> (Some (ApplyFailed v), d)
           | Some st \<Rightarrow>
               if me_down env (CallRecord v) then (Some (InsertFailed v), d)
               else (case insert_applied m (applied_rows d) of
                       None \<Rightarrow> (Some (InsertFailed v), d)
                     | Some rows \<Rightarrow>
                         let d' = d\<lparr>sd_applied := Some rows, sd_schema := st\<rparr> in
                         if me_down env (CallCommit v) then (Some (CommitFailed v), if me_kept env v then d' else d)
                         else (None, d')))"

fun migrate_loop :: "'s mig_env \<Rightarrow> (int \<times> string) list \<Rightarrow> int list \<Rightarrow> migration list \<Rightarrow> 's schema_db
    \<Rightarrow> (int list \<times> mig_error option) \<times> 's schema_db" where
  "migrate_loop env applied vs [] d = ((vs, None), d)"
| "migrate_loop env applied vs (m # ms) d =
     (case map_of applied (mg_Version m) of
        Some recorded \<Rightarrow>
          if recorded \<noteq> mg_Checksum m then
            if length recorded < 12 \<or> length (mg_Checksum m) < 12 then ((vs, Some SlicePanic), d)
            else ((vs, Some (Modified (mg_Version m) (mg_Name m) (take 12 recorded) (take 12 (mg_Checksum m)))), d)
          else migrate_loop env applied vs ms d
      | None \<Rightarrow>
          (case apply_migration env m d of
             (Some e, d') \<Rightarrow> ((vs, Some e), d')
           | (None, d') \<Rightarrow> migrate_loop env applied (vs @ [mg_Version m]) ms d'))"

definition appliedMigrations :: "applied_row list \<Rightarrow> (int \<times> string) list" where
  "appliedMigrations rows = rev (map (\<lambda>r. (am_version r, am_checksum r)) rows)"

definition create_migrations_table :: "'s schema_db \<Rightarrow> 's schema_db" where
  "create_migrations_table d = (case sd_applied d of None \<Rightarrow> d\<lparr>sd_applied := Some []\<rparr> | Some _ \<Rightarrow> d)"

definition Migrate :: "'s mig_env \<Rightarrow> 's schema_db \<Rightarrow> (int list \<times> mig_error option) \<times> 's schema_db" where
  "Migrate env d =
     (case LoadMigrations (me_sum env) (me_dir env) of
        Inl e \<Rightarrow> (([], Some (LoadFailed e)), d)
      | Inr ms \<Rightarrow>
          if me_down env CallAcquire then (([], Some AcquireFailed), d)
          else if me_down env CallLock then (([], Some LockFailed), d)
          else if me_down env CallCreate then (([], Some CreateFailed), d)
          else let d1 = create_migrations_table d in
               if me_down env CallRead then (([], Some ReadFailed), d1)
               else migrate_loop env (appliedMigrations (applied_rows d1)) [] ms d1)"

text \<open>\<open>None\<close>: the query failed, as it does when the table is not there.\<close>

definition SchemaVersion :: "'s schema_db \<Rightarrow> int option" where
  "SchemaVersion d =
     (case sd_applied d of
        None \<Rightarrow> None
      | Some rows \<Rightarrow> Some (if rows = [] then 0 else fold max (map am_version (tl rows)) (am_version (hd rows))))"

section \<open>Redaction\<close>

text \<open>
  \<^verbatim>\<open>strings.ReplaceAll\<close>, leftmost matches first; the callers never pass an empty \<open>old\<close>, for
  which the library does something else.
\<close>

function ReplaceAll :: "string \<Rightarrow> string \<Rightarrow> string \<Rightarrow> string" where
  "ReplaceAll [] old new = []"
| "ReplaceAll (c # cs) old new =
     (if old \<noteq> [] \<and> prefix old (c # cs) then new @ ReplaceAll (drop (length old) (c # cs)) old new
      else c # ReplaceAll cs old new)"
  by pat_completeness auto
termination
  by (relation "measure (\<lambda>(s, old, new). length s)") auto

fun Fields_loop :: "string \<Rightarrow> string \<Rightarrow> string list" where
  "Fields_loop cur [] = (if cur = [] then [] else [rev cur])"
| "Fields_loop cur (c # cs) =
     (if is_space c then (if cur = [] then Fields_loop [] cs else rev cur # Fields_loop [] cs)
      else Fields_loop (c # cur) cs)"

definition Fields :: "string \<Rightarrow> string list" where
  "Fields s = Fields_loop [] s"

definition CutPrefix :: "string \<Rightarrow> string \<Rightarrow> string option" where
  "CutPrefix s pre = (if prefix pre s then Some (drop (length pre) s) else None)"

fun password_field :: "string list \<Rightarrow> string option" where
  "password_field [] = None"
| "password_field (f # fs) =
     (case CutPrefix f ''password='' of
        Some rest \<Rightarrow> if rest \<noteq> [] then Some rest else password_field fs
      | None \<Rightarrow> password_field fs)"

definition passwordOf :: "(string \<Rightarrow> string option) \<Rightarrow> string \<Rightarrow> string option" where
  "passwordOf url_password dsn =
     (case url_password dsn of
        Some pw \<Rightarrow> if pw \<noteq> [] then Some pw else password_field (Fields dsn)
      | None \<Rightarrow> password_field (Fields dsn))"

text \<open>The message of the error \<^verbatim>\<open>redact\<close> returns, from the message of the one it was given.\<close>

definition redact :: "(string \<Rightarrow> string option) \<Rightarrow> string \<Rightarrow> string \<Rightarrow> string" where
  "redact url_password msg dsn =
     (let replaced = (if dsn \<noteq> [] then ReplaceAll msg dsn ''<dsn>'' else msg);
          replaced' = (case passwordOf url_password dsn of
                         Some pw \<Rightarrow> ReplaceAll replaced pw ''<redacted>'' | None \<Rightarrow> replaced)
      in if replaced' = msg then msg else replaced')"

section \<open>What is loaded\<close>

definition loaded_ok :: "(string \<Rightarrow> string) \<Rightarrow> migration list \<Rightarrow> bool" where
  "loaded_ok sum256 ms \<longleftrightarrow> distinct (map mg_Version ms) \<and> (\<forall>m\<in>set ms. 0 < mg_Version m \<and> mg_Checksum m = sum256 (mg_SQL m))"

lemma parseMigrationName_pos: "parseMigrationName f = Inr (v, n) \<Longrightarrow> 0 < v"
  by (auto simp: parseMigrationName_def Let_def split: option.splits if_splits)

lemma load_loop_ok:
  "load_loop h seen acc es = Inr ms \<Longrightarrow> set (map fst seen) = set (map mg_Version acc) \<Longrightarrow> loaded_ok h acc \<Longrightarrow> loaded_ok h ms"
proof (induction h seen acc es rule: load_loop.induct)
  case (2 h seen acc entry es)
  show ?case
  proof (cases "en_IsDir entry \<or> \<not> HasSuffix (en_Name entry) ''.sql''")
    case True
    then show ?thesis using 2 by simp
  next
    case False
    with "2.prems"(1) obtain v n body where p: "parseMigrationName (en_Name entry) = Inr (v, n)"
      and new: "map_of seen v = None" and b: "en_Body entry = Some body"
      by (auto split: sum.splits option.splits)
    have "v \<notin> set (map mg_Version acc)" using new "2.prems"(2) by (simp add: map_of_eq_None_iff)
    then show ?thesis
      using "2.IH"(2) [OF False p refl new b] "2.prems" False p new b parseMigrationName_pos [OF p]
      by (auto simp: loaded_ok_def)
  qed
qed simp

lemma LoadMigrations_ok:
  assumes "LoadMigrations h dir = Inr ms"
  shows "loaded_ok h ms" "sorted_wrt (<) (map mg_Version ms)"
proof -
  obtain es ms' where "load_loop h [] [] es = Inr ms'" and ms: "ms = sort_key mg_Version ms'"
    using assms by (auto simp: LoadMigrations_def split: option.splits sum.splits)
  then have "loaded_ok h ms'" using load_loop_ok [of h "[]" "[]" es ms'] by (simp add: loaded_ok_def [of h "[]"])
  then show ok: "loaded_ok h ms" by (simp add: loaded_ok_def ms distinct_map)
  then show "sorted_wrt (<) (map mg_Version ms)"
    unfolding strict_sorted_iff by (simp add: loaded_ok_def ms)
qed

section \<open>Schema and table stay in step\<close>

fun exec_all :: "(string \<Rightarrow> 's \<Rightarrow> 's option) \<Rightarrow> string list \<Rightarrow> 's \<Rightarrow> 's option" where
  "exec_all ex [] st = Some st"
| "exec_all ex (q # qs) st = (case ex q st of None \<Rightarrow> None | Some st' \<Rightarrow> exec_all ex qs st')"

lemma exec_all_snoc: "exec_all ex (qs @ [q]) st = (case exec_all ex qs st of None \<Rightarrow> None | Some st' \<Rightarrow> ex q st')"
  by (induction qs arbitrary: st) (auto split: option.splits)

text \<open>The schema is what the recorded migrations, run in the order of their rows, make of the first one.\<close>

definition in_step :: "(string \<Rightarrow> 's \<Rightarrow> 's option) \<Rightarrow> (string \<Rightarrow> string) \<Rightarrow> 's \<Rightarrow> 's schema_db \<Rightarrow> bool" where
  "in_step ex h st0 d \<longleftrightarrow> (\<exists>ms. applied_rows d = map row_of ms \<and> loaded_ok h ms \<and> exec_all ex (map mg_SQL ms) st0 = Some (sd_schema d))"

text \<open>Any number of processes with any binaries migrate the same database, whatever fails.\<close>

inductive deployed :: "(string \<Rightarrow> 's \<Rightarrow> 's option) \<Rightarrow> (string \<Rightarrow> string) \<Rightarrow> 's \<Rightarrow> 's schema_db \<Rightarrow> bool" for ex h st0 where
  fresh: "deployed ex h st0 \<lparr>sd_applied = None, sd_schema = st0\<rparr>"
| migrate: "deployed ex h st0 d \<Longrightarrow> me_exec env = ex \<Longrightarrow> me_sum env = h \<Longrightarrow> deployed ex h st0 (snd (Migrate env d))"

lemma rows_create [simp]: "applied_rows (create_migrations_table d) = applied_rows d"
  by (simp add: applied_rows_def create_migrations_table_def split: option.splits)

lemma schema_create [simp]: "sd_schema (create_migrations_table d) = sd_schema d"
  by (simp add: create_migrations_table_def split: option.splits)

lemma apply_migration_cases:
  assumes "apply_migration env m d = (r, d')"
  obtains "d' = d" "r \<noteq> None"
  | st where "me_exec env (mg_SQL m) (sd_schema d) = Some st" "sd_schema d' = st" "applied_rows d' = applied_rows d @ [row_of m]"
      "mg_Version m \<notin> set (map am_version (applied_rows d))"
  using assms that
  by (auto simp: apply_migration_def insert_applied_def Let_def applied_rows_def split: if_splits option.splits)

lemma in_step_apply:
  assumes s: "in_step (me_exec env) h st0 d" and a: "apply_migration env m d = (r, d')"
    and m: "0 < mg_Version m" "mg_Checksum m = h (mg_SQL m)"
  shows "in_step (me_exec env) h st0 d'"
  using a
proof (cases rule: apply_migration_cases)
  case 1
  with s show ?thesis by simp
next
  case (2 st)
  from s obtain ms where ms: "applied_rows d = map row_of ms" "loaded_ok h ms"
    "exec_all (me_exec env) (map mg_SQL ms) st0 = Some (sd_schema d)" by (auto simp: in_step_def)
  have "applied_rows d' = map row_of (ms @ [m])" using 2 ms by simp
  moreover have "loaded_ok h (ms @ [m])" using 2 ms m by (auto simp: loaded_ok_def row_of_def)
  moreover have "exec_all (me_exec env) (map mg_SQL (ms @ [m])) st0 = Some (sd_schema d')"
    using 2 ms by (simp add: exec_all_snoc)
  ultimately show ?thesis unfolding in_step_def by blast
qed

lemma in_step_loop:
  "in_step (me_exec env) h st0 d \<Longrightarrow> \<forall>m\<in>set ms. 0 < mg_Version m \<and> mg_Checksum m = h (mg_SQL m) \<Longrightarrow>
     in_step (me_exec env) h st0 (snd (migrate_loop env applied vs ms d))"
proof (induction env applied vs ms d rule: migrate_loop.induct)
  case (2 env applied vs m ms d)
  obtain r d' where a: "apply_migration env m d = (r, d')" by fastforce
  have "in_step (me_exec env) h st0 d'" using in_step_apply [OF "2.prems"(1) a] "2.prems"(2) by simp
  then show ?case using 2 a by (auto split: option.splits)
qed simp

lemma in_step_Migrate:
  assumes "in_step (me_exec env) (me_sum env) st0 d"
  shows "in_step (me_exec env) (me_sum env) st0 (snd (Migrate env d))"
proof -
  have c: "in_step (me_exec env) (me_sum env) st0 (create_migrations_table d)" using assms by (simp add: in_step_def)
  show ?thesis
    using assms c LoadMigrations_ok(1) [of "me_sum env" "me_dir env"] in_step_loop [OF c]
    by (auto simp: Migrate_def Let_def loaded_ok_def split: sum.splits)
qed

lemma deployed_in_step: "deployed ex h st0 d \<Longrightarrow> in_step ex h st0 d"
proof (induction rule: deployed.induct)
  case fresh
  show ?case by (auto simp: in_step_def applied_rows_def loaded_ok_def)
next
  case (migrate d env)
  then show ?case using in_step_Migrate [of env st0 d] by simp
qed

section \<open>A migration that succeeds is complete\<close>

abbreviation unapplied :: "(int \<times> string) list \<Rightarrow> migration \<Rightarrow> bool" where
  "unapplied applied m \<equiv> map_of applied (mg_Version m) = None"

lemma apply_migration_ok:
  assumes "apply_migration env m d = (None, d')"
  shows "me_exec env (mg_SQL m) (sd_schema d) = Some (sd_schema d')" "applied_rows d' = applied_rows d @ [row_of m]"
    "sd_applied d' \<noteq> None"
  using assms
  by (auto simp: apply_migration_def insert_applied_def Let_def applied_rows_def split: if_splits option.splits)

lemma migrate_loop_ok:
  "migrate_loop env applied vs ms d = ((vs', None), d') \<Longrightarrow> sd_applied d \<noteq> None \<Longrightarrow>
     vs' = vs @ map mg_Version (filter (unapplied applied) ms)
     \<and> applied_rows d' = applied_rows d @ map row_of (filter (unapplied applied) ms)
     \<and> exec_all (me_exec env) (map mg_SQL (filter (unapplied applied) ms)) (sd_schema d) = Some (sd_schema d')
     \<and> (\<forall>m\<in>set ms. unapplied applied m \<or> map_of applied (mg_Version m) = Some (mg_Checksum m))
     \<and> sd_applied d' \<noteq> None"
proof (induction ms arbitrary: vs d)
  case Nil
  then show ?case by simp
next
  case (Cons m ms)
  show ?case
  proof (cases "map_of applied (mg_Version m)")
    case (Some c)
    with Cons.prems(1) have "c = mg_Checksum m" and l: "migrate_loop env applied vs ms d = ((vs', None), d')"
      by (auto split: if_splits)
    then show ?thesis using Cons.IH [OF l Cons.prems(2)] Some by simp
  next
    case None
    obtain r d1 where a: "apply_migration env m d = (r, d1)" by fastforce
    with Cons.prems(1) None have "r = None" by (cases r) auto
    with a Cons.prems(1) None have l: "migrate_loop env applied (vs @ [mg_Version m]) ms d1 = ((vs', None), d')"
      and ok: "apply_migration env m d = (None, d1)" by simp_all
    show ?thesis using Cons.IH [OF l apply_migration_ok(3) [OF ok]] apply_migration_ok(1,2) [OF ok] None by simp
  qed
qed

lemma migrate_loop_idle:
  "\<forall>m\<in>set ms. map_of applied (mg_Version m) = Some (mg_Checksum m) \<Longrightarrow> migrate_loop env applied vs ms d = ((vs, None), d)"
  by (induction ms) auto

lemma map_of_applied:
  assumes "distinct (map am_version rows)"
  shows "map_of (appliedMigrations rows) v = Some c \<longleftrightarrow> (\<exists>r\<in>set rows. am_version r = v \<and> am_checksum r = c)"
  using assms by (auto simp: appliedMigrations_def map_of_eq_Some_iff rev_map [symmetric] comp_def image_iff)

definition records :: "'s schema_db \<Rightarrow> migration \<Rightarrow> bool" where
  "records d m \<longleftrightarrow> (\<exists>r\<in>set (applied_rows d). am_version r = mg_Version m \<and> am_checksum r = mg_Checksum m)"

definition known_version :: "'s schema_db \<Rightarrow> int \<Rightarrow> bool" where
  "known_version d v \<longleftrightarrow> v \<in> set (map am_version (applied_rows d))"

lemma in_step_distinct: "in_step ex h st0 d \<Longrightarrow> distinct (map am_version (applied_rows d))"
  by (auto simp: in_step_def loaded_ok_def comp_def row_of_def)

lemma Migrate_ok:
  assumes d: "distinct (map am_version (applied_rows d))" and m: "Migrate env d = ((vs, None), d')"
  obtains ms where "LoadMigrations (me_sum env) (me_dir env) = Inr ms"
    "vs = map mg_Version (filter (\<lambda>m. \<not> known_version d (mg_Version m)) ms)"
    "applied_rows d' = applied_rows d @ map row_of (filter (\<lambda>m. \<not> known_version d (mg_Version m)) ms)"
    "exec_all (me_exec env) (map mg_SQL (filter (\<lambda>m. \<not> known_version d (mg_Version m)) ms)) (sd_schema d) = Some (sd_schema d')"
    "\<forall>m\<in>set ms. records d' m" "sd_applied d' \<noteq> None"
proof -
  let ?ap = "appliedMigrations (applied_rows d)"
  obtain ms where ms: "LoadMigrations (me_sum env) (me_dir env) = Inr ms"
    and l: "migrate_loop env ?ap [] ms (create_migrations_table d) = ((vs, None), d')"
    using m by (auto simp: Migrate_def Let_def split: sum.splits if_splits)
  have t: "sd_applied (create_migrations_table d) \<noteq> None" by (auto simp: create_migrations_table_def split: option.splits)
  have un: "unapplied ?ap m \<longleftrightarrow> \<not> known_version d (mg_Version m)" for m
    by (simp add: map_of_eq_None_iff appliedMigrations_def known_version_def rev_map [symmetric] comp_def image_comp)
  note ok = migrate_loop_ok [OF l t, unfolded un]
  have rows: "applied_rows d' = applied_rows d @ map row_of (filter (\<lambda>m. \<not> known_version d (mg_Version m)) ms)" using ok by simp
  have "records d' m" if "m \<in> set ms" for m
  proof (cases "known_version d (mg_Version m)")
    case True
    with ok that have "map_of ?ap (mg_Version m) = Some (mg_Checksum m)" by blast
    then show ?thesis using map_of_applied [OF d] by (auto simp: records_def rows)
  next
    case False
    with that show ?thesis by (force simp: records_def rows row_of_def)
  qed
  with ms ok that show ?thesis by simp
qed

text \<open>The same binary has nothing left to do.\<close>

lemma Migrate_again:
  assumes d: "distinct (map am_version (applied_rows d))" and t: "sd_applied d \<noteq> None"
    and ms: "LoadMigrations (me_sum env) (me_dir env) = Inr ms" and all: "\<forall>m\<in>set ms. records d m"
    and up: "\<not> me_down env CallAcquire" "\<not> me_down env CallLock" "\<not> me_down env CallCreate" "\<not> me_down env CallRead"
  shows "Migrate env d = (([], None), d)"
proof -
  have "create_migrations_table d = d" using t by (auto simp: create_migrations_table_def)
  moreover have "\<forall>m\<in>set ms. map_of (appliedMigrations (applied_rows d)) (mg_Version m) = Some (mg_Checksum m)"
    using all map_of_applied [OF d] by (simp add: records_def)
  ultimately show ?thesis using ms up migrate_loop_idle by (simp add: Migrate_def)
qed

lemma SchemaVersion_Max:
  "sd_applied d = Some rows \<Longrightarrow> rows \<noteq> [] \<Longrightarrow> SchemaVersion d = Some (Max (am_version ` set rows))"
  using Max.set_eq_fold [of "am_version (hd rows)" "map am_version (tl rows)"]
  by (cases rows) (simp_all add: SchemaVersion_def)

section \<open>What redaction leaves\<close>

lemma ReplaceAll_prefix:
  "prefix p (ReplaceAll s old (a # new)) \<Longrightarrow> a \<notin> set p \<Longrightarrow> prefix p s"
proof (induction s old "a # new" arbitrary: p rule: ReplaceAll.induct)
  case (2 c cs old)
  show ?case
  proof (cases p)
    case (Cons b q)
    with 2 show ?thesis by (auto split: if_splits)
  qed simp
qed simp

lemma sublist_across:
  assumes "sublist xs (ys @ b # zs)" and b: "b \<notin> set xs"
  shows "sublist xs ys \<or> sublist xs zs"
proof -
  have edge: "q = []" if "prefix q (b # zs)" "set q \<subseteq> set xs" for q
    using that b by (cases q) auto
  from assms(1) consider "sublist xs ys" | "sublist xs (b # zs)" | p q where "xs = p @ q" "suffix p ys" "prefix q (b # zs)"
    unfolding sublist_append by blast
  then show ?thesis
  proof cases
    case 2
    then show ?thesis using edge [of xs] by (auto simp: sublist_Cons_right)
  next
    case (3 p q)
    then have "q = []" using edge [of q] by simp
    then show ?thesis using 3 by (simp add: suffix_imp_sublist)
  qed simp
qed

lemma ReplaceAll_removes:
  assumes "old \<noteq> []" and "a \<notin> set old" and "b \<notin> set old" and "\<not> sublist old new"
  shows "\<not> sublist old (ReplaceAll s old (a # new @ [b]))"
  using assms
proof (induction s old "a # new @ [b]" rule: ReplaceAll.induct)
  case (2 c cs old)
  show ?case
  proof (cases "prefix old (c # cs)")
    case True
    let ?rest = "ReplaceAll (drop (length old) (c # cs)) old (a # new @ [b])"
    have out: "ReplaceAll (c # cs) old (a # new @ [b]) = a # new @ b # ?rest" using True "2.prems"(1) by simp
    have rest: "\<not> sublist old ?rest" by (rule "2.hyps"(1)) (use True "2.prems" in auto)
    have head: "\<not> prefix old (z # xs)" if "z \<notin> set old" for z xs using that "2.prems"(1) by (cases old) auto
    have "\<not> sublist old (new @ b # ?rest)"
      using sublist_across [of old new b ?rest] rest "2.prems"(3,4) by blast
    then show ?thesis unfolding out using head [OF "2.prems"(2)] by (simp add: sublist_Cons_right)
  next
    case False
    have "\<not> prefix old (c # ReplaceAll cs old (a # new @ [b]))"
      using ReplaceAll_prefix [of old "c # cs" old a "new @ [b]"] False "2.prems" by auto
    moreover have "\<not> sublist old (ReplaceAll cs old (a # new @ [b]))" by (rule "2.hyps"(2)) (use False "2.prems" in auto)
    ultimately show ?thesis using False by (simp add: sublist_Cons_right)
  qed
qed simp

lemma password_field_nonempty: "password_field fs = Some pw \<Longrightarrow> pw \<noteq> []"
  by (induction fs) (auto split: option.splits if_splits)

lemma passwordOf_nonempty: "passwordOf up dsn = Some pw \<Longrightarrow> pw \<noteq> []"
  by (auto simp: passwordOf_def split: option.splits if_splits dest: password_field_nonempty)

text \<open>A quoted value with a blank in it is cut at the blank, and its rest stays in the message.\<close>

definition quoted_dsn :: string where
  "quoted_dsn = ''host=db password='' @ [CHR 0x27] @ ''my secret'' @ [CHR 0x27]"

lemma quoted_password_leaks:
  "passwordOf (\<lambda>_. None) quoted_dsn = Some (CHR 0x27 # ''my'')"
  "redact (\<lambda>_. None) (''cannot parse: password='' @ [CHR 0x27] @ ''my secret'' @ [CHR 0x27]) quoted_dsn
     = ''cannot parse: password=<redacted> secret'' @ [CHR 0x27]"
  by code_simp+

section \<open>Claims\<close>

definition demo_files :: "dir_entry list" where
  "demo_files = [\<lparr>en_Name = ''001_init.sql'', en_IsDir = False, en_Body = Some ''create''\<rparr>,
     \<lparr>en_Name = ''002_worker_stopped.sql'', en_IsDir = False, en_Body = Some ''alter''\<rparr>,
     \<lparr>en_Name = ''notes.txt'', en_IsDir = False, en_Body = Some ''text''\<rparr>]"

definition demo_exec :: "string \<Rightarrow> string list \<Rightarrow> string list option" where
  "demo_exec q st = Some (st @ [q])"

definition demo_mig :: "(mig_call \<Rightarrow> bool) \<Rightarrow> string list mig_env" where
  "demo_mig down = \<lparr>me_sum = (\<lambda>s. s), me_dir = Some demo_files, me_down = down, me_kept = (\<lambda>_. True), me_exec = demo_exec\<rparr>"

definition demo_empty :: "string list schema_db" where
  "demo_empty = \<lparr>sd_applied = None, sd_schema = []\<rparr>"


lemma demo_deployed: "deployed demo_exec (\<lambda>s. s) [] (snd (Migrate (demo_mig (\<lambda>c. c = CallCommit 1)) demo_empty))"
  unfolding demo_empty_def by (intro deployed.intros) (simp_all add: demo_mig_def)


text \<open>
  (C39) A migration that reports success has run, in ascending order of version, exactly the
  files whose version was not recorded, has every file of the binary on record with the
  checksum it has now, and leaves nothing to do for the next process with the same files.
\<close>

theorem migrate_complete:
  assumes "deployed (me_exec env) (me_sum env) st0 d" and "Migrate env d = ((vs, None), d')"
  shows "\<exists>ms. LoadMigrations (me_sum env) (me_dir env) = Inr ms \<and> sorted_wrt (<) (map mg_Version ms)
    \<and> vs = filter (\<lambda>v. \<not> known_version d v) (map mg_Version ms)
    \<and> exec_all (me_exec env) (map mg_SQL (filter (\<lambda>m. \<not> known_version d (mg_Version m)) ms)) (sd_schema d) = Some (sd_schema d')
    \<and> (\<forall>m\<in>set ms. records d' m)
    \<and> (\<forall>env'. me_sum env' = me_sum env \<and> me_dir env' = me_dir env \<and> (\<forall>c. \<not> me_down env' c) \<longrightarrow> Migrate env' d' = (([], None), d'))"
proof -
  have s: "in_step (me_exec env) (me_sum env) st0 d" using assms(1) by (rule deployed_in_step)
  have s': "in_step (me_exec env) (me_sum env) st0 d'" using in_step_Migrate [OF s] assms(2) by simp
  obtain ms where ms: "LoadMigrations (me_sum env) (me_dir env) = Inr ms"
    "vs = map mg_Version (filter (\<lambda>m. \<not> known_version d (mg_Version m)) ms)"
    "exec_all (me_exec env) (map mg_SQL (filter (\<lambda>m. \<not> known_version d (mg_Version m)) ms)) (sd_schema d) = Some (sd_schema d')"
    "\<forall>m\<in>set ms. records d' m" "sd_applied d' \<noteq> None"
    by (rule Migrate_ok [OF in_step_distinct [OF s] assms(2)]) (rule that)
  have "Migrate env' d' = (([], None), d')"
    if "me_sum env' = me_sum env" "me_dir env' = me_dir env" "\<forall>c. \<not> me_down env' c" for env' :: "'a mig_env"
    using that ms by (intro Migrate_again [OF in_step_distinct [OF s'] ms(5), of env' ms]) auto
  then show ?thesis using ms LoadMigrations_ok(2) [OF ms(1)] by (auto simp: filter_map comp_def)
qed

theorem migrate_complete_witness:
  "Migrate (demo_mig (\<lambda>_. False)) (snd (Migrate (demo_mig (\<lambda>_. False)) (snd (Migrate (demo_mig (\<lambda>c. c = CallCommit 1)) demo_empty))))
     = (([], None), \<lparr>sd_applied = Some [\<lparr>am_version = 1, am_name = ''init'', am_checksum = ''create''\<rparr>,
          \<lparr>am_version = 2, am_name = ''worker_stopped'', am_checksum = ''alter''\<rparr>], sd_schema = [''create'', ''alter'']\<rparr>)"
proof -
  let ?env = "demo_mig (\<lambda>_. False)" and ?d = "snd (Migrate (demo_mig (\<lambda>c. c = CallCommit 1)) demo_empty)"
  let ?d' = "\<lparr>sd_applied = Some [\<lparr>am_version = 1, am_name = ''init'', am_checksum = ''create''\<rparr>,
          \<lparr>am_version = 2, am_name = ''worker_stopped'', am_checksum = ''alter''\<rparr>], sd_schema = [''create'', ''alter'']\<rparr>"
  have m: "Migrate ?env ?d = (([2], None), ?d')" by code_simp
  have "deployed (me_exec ?env) (me_sum ?env) [] ?d" using demo_deployed by (simp add: demo_mig_def)
  from migrate_complete [OF this m] have "Migrate ?env ?d' = (([], None), ?d')" by (auto simp: demo_mig_def)
  then show ?thesis by (simp add: m)
qed



end
