(* ===== verification/Relab_Reaper.thy ===== *)
theory Relab_Reaper
  imports Relab_Outcome
begin

text \<open>
  Recovery and operator actions: \<^verbatim>\<open>internal/engine/reaper.go\<close>, \<^verbatim>\<open>promote.go\<close>, \<^verbatim>\<open>workers.go\<close> and
  \<^verbatim>\<open>cancel.go\<close>.
\<close>

section \<open>Expired leases\<close>

definition expired_tasks :: "(task_row \<Rightarrow> bool) \<Rightarrow> time \<Rightarrow> db \<Rightarrow> task list" where
  "expired_tasks locked now db =
     take 200 (skip_locked locked (order_by (\<lambda>t. case t_lease_expires_at t of Some l \<Rightarrow> l | None \<Rightarrow> 0)
       (filter (\<lambda>t. Holds (t_status t) \<and> (case t_lease_expires_at t of Some l \<Rightarrow> l \<le> now | None \<Rightarrow> False))
         (tasks db))))"

definition runIsTerminal :: "uuid \<Rightarrow> bool tx" where
  "runIsTerminal rid = tx_bind (tx_row (run_by_id rid)) (\<lambda>r. tx_return (RunStatus_Terminal (r_status r)))"

definition end_held :: "string \<Rightarrow> time \<Rightarrow> task_row \<Rightarrow> task_row" where
  "end_held why now t =
     t\<lparr>t_status := TaskDead, t_worker_id := None, t_lease_expires_at := None, t_completed_at := Some now,
       t_updated_at := now, t_error := (case t_error t of None \<Rightarrow> Some why | Some e \<Rightarrow> Some e)\<rparr>"

definition releaseAbandoned :: "task \<Rightarrow> time \<Rightarrow> unit tx" where
  "releaseAbandoned task now =
     tx_bind (update_tasks (\<lambda>t. t_id t = t_id task \<and> Holds (t_status t))
                (end_held ''run was no longer active when the lease expired'' now)) (\<lambda>_. tx_return ())"

definition recordLeaseExpiry :: "task \<Rightarrow> time \<Rightarrow> unit tx" where
  "recordLeaseExpiry task now =
     append now (t_run_id task)
       (TaskLeaseExpiredPayload (t_attempt task) (case t_lease_expires_at task of Some l \<Rightarrow> l | None \<Rightarrow> now))
       (at_task (t_name task) (t_worker_id task) now)"

definition hand_back :: "time \<Rightarrow> task_row \<Rightarrow> task_row" where
  "hand_back now t =
     t\<lparr>t_status := TaskReady, t_worker_id := None, t_lease_expires_at := None, t_scheduled_at := now,
       t_updated_at := now, t_started_at := None\<rparr>"

definition requeue :: "task \<Rightarrow> time \<Rightarrow> unit tx" where
  "requeue task now =
     tx_bind (tx_check (map_option ErrIllegal (TaskStatus_Transition (t_status task) TaskReady))) (\<lambda>_.
     tx_bind (update_tasks (\<lambda>t. t_id t = t_id task \<and> Holds (t_status t) \<and> t_attempt t = t_attempt task)
                (hand_back now)) (\<lambda>n.
     if n = 0 then tx_return ()
     else append now (t_run_id task) (TaskRequeuedPayload (t_attempt task) (t_attempt task + 1) ''lease expired'')
            (at_task (t_name task) None now)))"

definition expiry_reason :: string where
  "expiry_reason = ''lease expired with no attempts remaining''"

definition deadLetterExpired :: "task \<Rightarrow> time \<Rightarrow> unit tx" where
  "deadLetterExpired task now =
     tx_bind (update_tasks (\<lambda>t. t_id t = t_id task \<and> Holds (t_status t) \<and> t_attempt t = t_attempt task)
                (end_held expiry_reason now)) (\<lambda>_.
     tx_bind (insert_dead_letter \<lparr>dl_task_id = t_id task, dl_run_id = t_run_id task, dl_reason = expiry_reason,
                dl_attempts = max (t_attempt task) 1, dl_last_worker = t_worker_id task, dl_created_at = now\<rparr>) (\<lambda>_.
     append now (t_run_id task) (TaskDeadLetteredPayload (t_attempt task) expiry_reason)
       (at_task (t_name task) None now)))"

datatype expiry = Requeued | Ended

definition expire_one :: "env \<Rightarrow> time \<Rightarrow> task \<Rightarrow> expiry tx" where
  "expire_one env now task =
     tx_bind (runIsTerminal (t_run_id task)) (\<lambda>finished.
     if finished then tx_bind (releaseAbandoned task now) (\<lambda>_. tx_return Ended)
     else
       tx_bind (recordLeaseExpiry task now) (\<lambda>_.
       tx_bind (definitionForRun env (t_run_id task)) (\<lambda>def.
       if t_attempt task < rp_MaxAttempts (retryPolicyFor def (t_name task))
       then tx_bind (requeue task now) (\<lambda>_. tx_return Requeued)
       else
         tx_bind (deadLetterExpired task now) (\<lambda>_.
         tx_bind (abandonDependents def (t_run_id task) (t_name task) now) (\<lambda>_.
         tx_bind (settleRun (t_run_id task) now) (\<lambda>_.
         tx_return Ended))))))"

definition expire_tx :: "env \<Rightarrow> (task_row \<Rightarrow> bool) \<Rightarrow> time \<Rightarrow> expiry list tx" where
  "expire_tx env locked now =
     tx_bind (tx_read (expired_tasks locked now)) (\<lambda>ts. tx_map (expire_one env now) ts)"

text \<open>The counts: expired, requeued, dead.\<close>

definition expireLeases ::
  "env \<Rightarrow> (task_row \<Rightarrow> bool) \<Rightarrow> time \<Rightarrow> db \<Rightarrow> (error + (int \<times> int \<times> int)) \<times> db" where
  "expireLeases env locked now db =
     (case InTx (expire_tx env locked now) db of
        (Inl e, db') \<Rightarrow> (Inl e, db')
      | (Inr rs, db') \<Rightarrow>
          (Inr (int (length rs), sql_count (\<lambda>r. r = Requeued) rs, sql_count (\<lambda>r. r = Ended) rs), db'))"

section \<open>Workers\<close>

definition RegisterWorker ::
  "uuid \<Rightarrow> string \<Rightarrow> string \<Rightarrow> int \<Rightarrow> time \<Rightarrow> db \<Rightarrow> (error + uuid) \<times> db" where
  "RegisterWorker wid hostname version capacity0 now db =
     (let capacity = (if capacity0 \<le> 0 then 1 else capacity0) in
      InTx (tx_bind (insert_worker \<lparr>wk_id = wid, wk_hostname = hostname, wk_version = version,
              wk_status = WorkerHealthy, wk_capacity = capacity, wk_active_tasks = 0,
              wk_last_heartbeat = now, wk_registered_at = now\<rparr>) (\<lambda>_. tx_return wid)) db)"

definition heartbeat_tx :: "uuid \<Rightarrow> int \<Rightarrow> time \<Rightarrow> unit tx" where
  "heartbeat_tx wid active now =
     tx_bind (update_workers (\<lambda>w. wk_id w = wid \<and> wk_status w \<notin> {WorkerLost, WorkerStopped})
                (\<lambda>w. w\<lparr>wk_last_heartbeat := now, wk_active_tasks := active, wk_status := WorkerHealthy\<rparr>)) (\<lambda>n.
     if n = 0 then tx_fail ErrWorkerLost else tx_return ())"

definition Heartbeat :: "uuid \<Rightarrow> int \<Rightarrow> time \<Rightarrow> db \<Rightarrow> (error + unit) \<times> db" where
  "Heartbeat wid active now db = InTx (heartbeat_tx wid active now) db"

definition ListWorkers :: "db \<Rightarrow> worker_row list" where
  "ListWorkers db = sort_key (\<lambda>w. - wk_last_heartbeat w) (workers db)"

definition releaseLeasesOf :: "uuid \<Rightarrow> time \<Rightarrow> int tx" where
  "releaseLeasesOf wid now =
     update_tasks (\<lambda>t. t_worker_id t = Some wid \<and> Holds (t_status t))
       (\<lambda>t. t\<lparr>t_lease_expires_at := Some now, t_updated_at := now\<rparr>)"

text \<open>\<^verbatim>\<open>SELECT DISTINCT t.run_id\<close> over the tasks the worker holds whose run is open.\<close>

definition runs_held_by :: "uuid \<Rightarrow> db \<Rightarrow> uuid list" where
  "runs_held_by wid db =
     remdups (map t_run_id (filter (\<lambda>t. t_worker_id t = Some wid \<and> Holds (t_status t)
       \<and> (case run_by_id (t_run_id t) db of None \<Rightarrow> False | Some r \<Rightarrow> r_completed_at r = None)) (tasks db)))"

definition announceWorkerLost :: "env \<Rightarrow> uuid \<Rightarrow> int \<Rightarrow> time \<Rightarrow> unit tx" where
  "announceWorkerLost env wid released now =
     tx_bind (tx_read (runs_held_by wid)) (\<lambda>rids.
     tx_for rids (\<lambda>rid. append now rid (WorkerLostPayload (LostAfterBeats (env_timing env)) released)
                          \<lparr>m_TaskName = [], m_WorkerID = Some wid, m_OccurredAt = now\<rparr>))"

definition lose_worker :: "env \<Rightarrow> time \<Rightarrow> uuid \<Rightarrow> unit tx" where
  "lose_worker env now wid =
     tx_bind (releaseLeasesOf wid now) (\<lambda>released. announceWorkerLost env wid released now)"

definition lost_cond :: "time \<Rightarrow> worker_row \<Rightarrow> bool" where
  "lost_cond lostAfter w \<longleftrightarrow>
     (wk_status w = WorkerHealthy \<or> wk_status w = WorkerSuspect) \<and> wk_last_heartbeat w \<le> lostAfter"

definition sweep_tx :: "env \<Rightarrow> time \<Rightarrow> (int \<times> int) tx" where
  "sweep_tx env now =
     (let beat = HeartbeatInterval (env_timing env);
          suspectAfter = now - beat * SuspectAfterBeats (env_timing env);
          lostAfter = now - beat * LostAfterBeats (env_timing env)
      in
      tx_bind (update_workers (\<lambda>w. wk_status w = WorkerHealthy \<and> wk_last_heartbeat w \<le> suspectAfter)
                 (\<lambda>w. w\<lparr>wk_status := WorkerSuspect\<rparr>)) (\<lambda>suspect.
      tx_bind (tx_read (\<lambda>db. map wk_id (filter (lost_cond lostAfter) (workers db)))) (\<lambda>lostIDs.
      tx_bind (update_workers (lost_cond lostAfter) (\<lambda>w. w\<lparr>wk_status := WorkerLost\<rparr>)) (\<lambda>_.
      tx_bind (tx_for lostIDs (lose_worker env now)) (\<lambda>_.
      tx_return (suspect, int (length lostIDs)))))))"

definition sweepWorkers :: "env \<Rightarrow> time \<Rightarrow> db \<Rightarrow> (error + (int \<times> int)) \<times> db" where
  "sweepWorkers env now db = InTx (sweep_tx env now) db"

definition retire_tx :: "env \<Rightarrow> uuid \<Rightarrow> time \<Rightarrow> unit tx" where
  "retire_tx env wid now =
     tx_bind (update_workers (\<lambda>w. wk_id w = wid \<and> (wk_status w = WorkerHealthy \<or> wk_status w = WorkerSuspect))
                (\<lambda>w. w\<lparr>wk_status := WorkerStopped\<rparr>)) (\<lambda>n.
     if n = 0 then tx_return ()
     else tx_bind (releaseLeasesOf wid now) (\<lambda>released.
          if released = 0 then tx_return () else announceWorkerLost env wid released now))"

definition RetireWorker :: "env \<Rightarrow> uuid \<Rightarrow> time \<Rightarrow> db \<Rightarrow> (error + unit) \<times> db" where
  "RetireWorker env wid now db = InTx (retire_tx env wid now) db"

text \<open>\<open>RenewLease\<close> is a single statement outside a transaction block; it returns the renewed ids.\<close>

definition renew_tx :: "env \<Rightarrow> uuid \<Rightarrow> uuid list \<Rightarrow> time \<Rightarrow> uuid list tx" where
  "renew_tx env w ids now =
     tx_bind (update_tasks_returning (\<lambda>t. t_id t \<in> set ids \<and> t_worker_id t = Some w \<and> Holds (t_status t))
                (\<lambda>t. t\<lparr>t_lease_expires_at := Some (now + LeaseDuration (env_timing env)), t_updated_at := now\<rparr>)) (\<lambda>ts.
     tx_return (map t_id ts))"

definition RenewLease :: "env \<Rightarrow> uuid \<Rightarrow> uuid list \<Rightarrow> time \<Rightarrow> db \<Rightarrow> (error + uuid list) \<times> db" where
  "RenewLease env w ids now db = (if ids = [] then (Inr [], db) else InTx (renew_tx env w ids now) db)"

section \<open>Retries that are due\<close>

definition due_retries :: "(task_row \<Rightarrow> bool) \<Rightarrow> time \<Rightarrow> int \<Rightarrow> db \<Rightarrow> uuid list" where
  "due_retries locked now limit db =
     map t_id (take (nat limit) (skip_locked locked (order_by t_scheduled_at
       (filter (\<lambda>t. t_status t = TaskRetrying \<and> t_scheduled_at t \<le> now) (tasks db)))))"

definition promote_one :: "time \<Rightarrow> task \<Rightarrow> unit tx" where
  "promote_one now t =
     append now (t_run_id t) (TaskScheduledPayload (t_attempt t) now []) (at_task (t_name t) None now)"

definition promote_tx :: "(task_row \<Rightarrow> bool) \<Rightarrow> time \<Rightarrow> int \<Rightarrow> int tx" where
  "promote_tx locked now limit =
     tx_bind (tx_read (due_retries locked now limit)) (\<lambda>ids.
     tx_bind (update_tasks_returning (\<lambda>t. t_id t \<in> set ids)
                (\<lambda>t. t\<lparr>t_status := TaskReady, t_updated_at := now\<rparr>)) (\<lambda>ts.
     tx_bind (tx_for ts (promote_one now)) (\<lambda>_.
     tx_return (int (length ts)))))"

definition PromoteDueRetries :: "(task_row \<Rightarrow> bool) \<Rightarrow> time \<Rightarrow> int \<Rightarrow> db \<Rightarrow> (error + int) \<times> db" where
  "PromoteDueRetries locked now limit0 db =
     InTx (promote_tx locked now (if limit0 \<le> 0 then 100 else limit0)) db"

record progress =
  p_Total :: int
  p_Terminal :: int
  p_Runnable :: int
  p_Waiting :: int
  p_InFlight :: int
  p_Blocked :: int

definition Stalled :: "progress \<Rightarrow> bool" where
  "Stalled p \<longleftrightarrow> p_Terminal p < p_Total p \<and> p_Runnable p = 0 \<and> p_InFlight p = 0 \<and> p_Waiting p = 0"

definition RunProgress :: "uuid \<Rightarrow> time \<Rightarrow> db \<Rightarrow> progress" where
  "RunProgress rid now db =
     (let ts = run_tasks rid db in
      \<lparr>p_Total = int (length ts),
       p_Terminal = sql_count (\<lambda>t. t_status t = TaskSucceeded \<or> t_status t = TaskDead) ts,
       p_Runnable = sql_count (\<lambda>t. t_status t = TaskReady \<and> t_scheduled_at t \<le> now) ts,
       p_Waiting = sql_count (\<lambda>t. t_status t = TaskRetrying \<or> (t_status t = TaskReady \<and> now < t_scheduled_at t)) ts,
       p_InFlight = sql_count (\<lambda>t. t_status t = TaskLeased \<or> t_status t = TaskRunning) ts,
       p_Blocked = sql_count (\<lambda>t. t_status t = TaskPending) ts\<rparr>)"

definition QueueDepth :: "db \<Rightarrow> int" where
  "QueueDepth db = sql_count (\<lambda>t. t_status t = TaskReady \<or> t_status t = TaskRetrying) (tasks db)"

section \<open>The sweep\<close>

record reap_result =
  LeasesExpired :: int
  TasksRequeued :: int
  TasksDead :: int
  WorkersSuspect :: int
  WorkersLost :: int
  RetriesPromoted :: int

definition no_reap :: reap_result where
  "no_reap = \<lparr>LeasesExpired = 0, TasksRequeued = 0, TasksDead = 0, WorkersSuspect = 0, WorkersLost = 0,
              RetriesPromoted = 0\<rparr>"

definition ReapResult_Empty :: "reap_result \<Rightarrow> bool" where
  "ReapResult_Empty r \<longleftrightarrow> r = no_reap"

text \<open>
  Three transactions, each with its own clock reading; an error ends the sweep and leaves
  what the earlier ones committed.
\<close>

definition Reap ::
  "env \<Rightarrow> (task_row \<Rightarrow> bool) \<Rightarrow> (task_row \<Rightarrow> bool) \<Rightarrow> time \<Rightarrow> time \<Rightarrow> time \<Rightarrow> db
   \<Rightarrow> (reap_result \<times> error option) \<times> db" where
  "Reap env lockE lockP nowE nowS nowP db =
     (case expireLeases env lockE nowE db of
        (Inl e, db1) \<Rightarrow> ((no_reap, Some e), db1)
      | (Inr (ex, rq, dd), db1) \<Rightarrow>
          let res1 = no_reap\<lparr>LeasesExpired := ex, TasksRequeued := rq, TasksDead := dd\<rparr> in
          (case sweepWorkers env nowS db1 of
             (Inl e, db2) \<Rightarrow> ((res1, Some e), db2)
           | (Inr (sus, lost), db2) \<Rightarrow>
               let res2 = res1\<lparr>WorkersSuspect := sus, WorkersLost := lost\<rparr> in
               (case PromoteDueRetries lockP nowP 200 db2 of
                  (Inl e, db3) \<Rightarrow> ((res2, Some e), db3)
                | (Inr n, db3) \<Rightarrow> ((res2\<lparr>RetriesPromoted := n\<rparr>, None), db3))))"

section \<open>Cancellation\<close>

definition cancel_task :: "time \<Rightarrow> task_row \<Rightarrow> task_row" where
  "cancel_task now t =
     t\<lparr>t_status := TaskDead, t_completed_at := Some now, t_updated_at := now, t_worker_id := None,
       t_lease_expires_at := None,
       t_error := (case t_error t of None \<Rightarrow> Some ''run cancelled'' | Some e \<Rightarrow> Some e)\<rparr>"

definition cancel_tx :: "uuid \<Rightarrow> string \<Rightarrow> time \<Rightarrow> unit tx" where
  "cancel_tx rid reason now =
     tx_bind (tx_row (run_by_id rid)) (\<lambda>r.
     if RunStatus_Terminal (r_status r) then tx_fail (ErrRunFinished (r_status r))
     else
       tx_bind (tx_check (map_option ErrIllegal (RunStatus_Transition (r_status r) RunCancelled))) (\<lambda>_.
       tx_bind (update_tasks (\<lambda>t. t_run_id t = rid
                   \<and> (t_status t = TaskPending \<or> t_status t = TaskReady \<or> t_status t = TaskRetrying))
                  (cancel_task now)) (\<lambda>_.
       tx_bind (update_tasks (\<lambda>t. t_run_id t = rid \<and> Holds (t_status t))
                  (\<lambda>t. t\<lparr>t_lease_expires_at := Some now, t_updated_at := now\<rparr>)) (\<lambda>_.
       tx_bind (append now rid (RunCancelledPayload reason) (at_run now)) (\<lambda>_.
       tx_bind (update_runs (\<lambda>q. r_id q = rid)
                  (\<lambda>q. q\<lparr>r_status := RunCancelled, r_completed_at := Some now,
                         r_failure_reason := nullString reason\<rparr>)) (\<lambda>_.
       tx_return ()))))))"

definition CancelRun :: "uuid \<Rightarrow> string \<Rightarrow> time \<Rightarrow> db \<Rightarrow> (error + unit) \<times> db" where
  "CancelRun rid reason now db = InTx (cancel_tx rid reason now) db"

end
