(* ===== verification/Relab_Tables.thy ===== *)
theory Relab_Tables
  imports Relab_Reaper
begin

text \<open>
  What every statement keeps: the journal stays numbered (\<open>journal_ok\<close>) and the tables stay
  consistent (\<open>tables_ok\<close>): unique keys, foreign keys and the CHECK constraints of every
  row.  The facts go through the operations of the engine by the rules for transactions.
\<close>

section \<open>Consistent tables\<close>

definition tables_ok :: "db \<Rightarrow> bool" where
  "tables_ok db \<longleftrightarrow>
     distinct (map r_id (runs db)) \<and> list_all run_check (runs db)
     \<and> distinct (map w_id (workflows db)) \<and> r_workflow_id ` set (runs db) \<subseteq> w_id ` set (workflows db)
     \<and> distinct (map t_id (tasks db)) \<and> distinct (map (\<lambda>t. (t_run_id t, t_name t)) (tasks db))
     \<and> t_run_id ` set (tasks db) \<subseteq> r_id ` set (runs db) \<and> list_all task_check (tasks db)
     \<and> distinct (map wk_id (workers db))"

text \<open>An update of a row that leaves its keys alone.\<close>

definition keys_kept :: "(task_row \<Rightarrow> task_row) \<Rightarrow> bool" where
  "keys_kept f \<longleftrightarrow> (\<forall>t. t_id (f t) = t_id t \<and> t_run_id (f t) = t_run_id t \<and> t_name (f t) = t_name t
                      \<and> t_max_attempts (f t) = t_max_attempts t)"

definition run_keys_kept :: "(run_row \<Rightarrow> run_row) \<Rightarrow> bool" where
  "run_keys_kept f \<longleftrightarrow> (\<forall>r. r_id (f r) = r_id r \<and> r_workflow_id (f r) = r_workflow_id r
                         \<and> r_event_seq (f r) = r_event_seq r)"

lemmas row_update_defs = lease_def start_def promote_def succeed_def retrying_def bury_def fail_def
  end_held_def hand_back_def cancel_task_def

lemma keys_kept_updates [simp, intro]:
  "keys_kept (lease w u now)" "keys_kept (start now)" "keys_kept (promote now)" "keys_kept (succeed out now)"
  "keys_kept (retrying r now)" "keys_kept (bury now)" "keys_kept (fail e now)" "keys_kept (end_held why now)"
  "keys_kept (hand_back now)" "keys_kept (cancel_task now)"
  "keys_kept (\<lambda>t. t\<lparr>t_lease_expires_at := l, t_updated_at := now\<rparr>)"
  "keys_kept (\<lambda>t. t\<lparr>t_status := s, t_updated_at := now\<rparr>)"
  by (simp_all add: keys_kept_def row_update_defs)

lemma run_keys_kept_updates [simp, intro]:
  "run_keys_kept (\<lambda>r. r\<lparr>r_status := s\<rparr>)"
  "run_keys_kept (\<lambda>r. r\<lparr>r_status := s, r_started_at := a\<rparr>)"
  "run_keys_kept (\<lambda>r. r\<lparr>r_status := s, r_completed_at := c, r_failure_reason := w\<rparr>)"
  by (simp_all add: run_keys_kept_def)

section \<open>Statements keep the journal numbered\<close>

lemma journal_ok_frame:
  "journal_ok db \<Longrightarrow> runs db' = runs db \<Longrightarrow> events db' = events db \<Longrightarrow> journal_ok db'"
  by (simp add: journal_ok_def run_events_def)

named_theorems journal_keeps \<open>statements and operations that keep \<open>journal_ok\<close>\<close>

lemma journal_update_tasks [journal_keeps]: "tx_keeps journal_ok (update_tasks c f)"
  by (rule tx_keepsI) (auto simp: update_tasks_Inr intro: journal_ok_frame)

lemma journal_update_runs [journal_keeps]:
  assumes "run_keys_kept f"
  shows "tx_keeps journal_ok (update_runs c f)"
proof (rule tx_keepsI)
  fix db n db'
  assume ok: "journal_ok db" and u: "update_runs c f db = Inr (n, db')"
  then have db': "db' = db\<lparr>runs := sql_update c f (runs db)\<rparr>" by (simp add: update_runs_Inr)
  have ids: "map r_id (runs db') = map r_id (runs db)"
    using assms by (simp add: db' run_keys_kept_def map_sql_update)
  then have "set (map r_id (runs db')) = set (map r_id (runs db))" by simp
  moreover have "r_event_seq r = int (length (run_events (r_id r) db)) \<and> numbered (run_events (r_id r) db)"
    if "r \<in> set (runs db')" for r
    using that ok assms by (auto simp: db' in_sql_update journal_ok_def run_keys_kept_def split: if_splits)
  ultimately show "journal_ok db'" using ok ids by (simp add: journal_ok_def db' run_events_def)
qed

lemma journal_append [journal_keeps]: "tx_keeps journal_ok (append now rid p m)"
  unfolding append_def
  by (intro keeps_rules) (auto intro: tx_keepsI journal_ok_append)

lemma journal_insert_run [journal_keeps]:
  assumes "r_event_seq r = 0"
  shows "tx_keeps journal_ok (insert_run r)"
proof (rule tx_keepsI)
  fix db x db'
  assume ok: "journal_ok db" and i: "insert_run r db = Inr (x, db')"
  then have db': "db' = db\<lparr>runs := runs db @ [r]\<rparr>" and new: "r_id r \<notin> r_id ` set (runs db)"
    by (auto simp: insert_run_def split: if_splits)
  have "e_run_id e \<in> r_id ` set (runs db)" if "e \<in> set (events db)" for e
    using ok that by (auto simp: journal_ok_def)
  then have "run_events (r_id r) db = []" using new unfolding run_events_def filter_empty_conv by metis
  then show "journal_ok db'"
    using ok new assms by (auto simp: journal_ok_def db' run_events_def numbered_def)
qed

lemma journal_inserts [journal_keeps]:
  "tx_keeps journal_ok (insert_task t)" "tx_keeps journal_ok (insert_workflow w)"
  "tx_keeps journal_ok (insert_worker k)" "tx_keeps journal_ok (update_workers c g)"
  "tx_keeps journal_ok (record_attempt a)" "tx_keeps journal_ok (insert_dead_letter d)"
  "tx_keeps journal_ok (upsert_artifact f)"
  by (auto simp: insert_task_def insert_workflow_def insert_worker_def update_workers_def record_attempt_def
      insert_attempt_def insert_dead_letter_def upsert_artifact_def Let_def
      intro!: tx_keepsI elim!: journal_ok_frame split: if_splits)

lemma keeps_lift [keeps_rules]: "tx_keeps I (tx_lift f)"
  by (rule tx_keepsI) (auto simp: tx_lift_def split: sum.splits)

lemma keeps_updates_returning [journal_keeps]: "tx_keeps journal_ok (update_tasks_returning c f)"
  by (intro keeps_update_returning journal_keeps)

section \<open>Operations keep the journal numbered\<close>

lemmas outcome_defs = recordArtifacts_def record_artifact_def unlockDependents_def unlock_one_def
  recordSuccess_def scheduleRetry_def deadLetter_def abandonDependents_def abandon_one_def recordFailure_def
  complete_tx_def skipped_tx_def

lemmas claim_defs = claim_tx_def claim_one_def hydrate_def start_tx_def markRunStarted_def

lemmas reaper_defs = expire_tx_def expire_one_def runIsTerminal_def releaseAbandoned_def recordLeaseExpiry_def
  requeue_def deadLetterExpired_def heartbeat_tx_def announceWorkerLost_def lose_worker_def
  releaseLeasesOf_def sweep_tx_def retire_tx_def renew_tx_def promote_one_def promote_tx_def

lemmas engine_tx_defs = outcome_defs claim_defs reaper_defs definitionForRun_def create_run_tx_def create_task_def

text \<open>The three that close a run are kept apart: some facts need what they check first.\<close>

lemmas closing_defs = settleRun_def close_run_def cancel_tx_def

lemma journal_operations:
  "tx_keeps journal_ok (create_run_tx env rid new_id wfl def opts seed now)"
  "tx_keeps journal_ok (claim_tx env locked now w ro limit)"
  "tx_keeps journal_ok (start_tx w task handler now)"
  "tx_keeps journal_ok (complete_tx env w task out now)"
  "tx_keeps journal_ok (skipped_tx task key now)"
  "tx_keeps journal_ok (expire_tx env locked now)"
  "tx_keeps journal_ok (sweep_tx env now)"
  "tx_keeps journal_ok (retire_tx env wid now)"
  "tx_keeps journal_ok (renew_tx env w ids now)"
  "tx_keeps journal_ok (promote_tx locked now limit)"
  "tx_keeps journal_ok (cancel_tx rid reason now)"
  "tx_keeps journal_ok (heartbeat_tx wid active now)"
  unfolding engine_tx_defs closing_defs
  by (intro keeps_rules journal_keeps; simp add: new_run_row_def)+

section \<open>Statements keep the tables consistent\<close>

named_theorems tables_keeps \<open>statements that keep \<open>tables_ok\<close>\<close>

lemma tables_update_tasks [tables_keeps]:
  assumes "keys_kept f"
  shows "tx_keeps tables_ok (update_tasks c f)"
proof (rule tx_keepsI)
  fix db n db'
  assume ok: "tables_ok db" and u: "update_tasks c f db = Inr (n, db')"
  then have db': "db' = db\<lparr>tasks := sql_update c f (tasks db)\<rparr>"
    and chk: "list_all task_check (map f (filter c (tasks db)))" by (simp_all add: update_tasks_Inr)
  have keys: "map t_id (tasks db') = map t_id (tasks db)"
    "map (\<lambda>t. (t_run_id t, t_name t)) (tasks db') = map (\<lambda>t. (t_run_id t, t_name t)) (tasks db)"
    "map t_run_id (tasks db') = map t_run_id (tasks db)"
    using assms by (simp_all add: db' keys_kept_def map_sql_update)
  then have "t_run_id ` set (tasks db') = t_run_id ` set (tasks db)" by (metis set_map)
  moreover have "list_all task_check (tasks db')"
    using ok chk by (auto simp: db' tables_ok_def list_all_iff in_sql_update)
  ultimately show "tables_ok db'" using ok keys by (simp add: tables_ok_def db')
qed

lemma tables_update_runs [tables_keeps]:
  assumes "run_keys_kept f"
  shows "tx_keeps tables_ok (update_runs c f)"
proof (rule tx_keepsI)
  fix db n db'
  assume ok: "tables_ok db" and u: "update_runs c f db = Inr (n, db')"
  then have db': "db' = db\<lparr>runs := sql_update c f (runs db)\<rparr>"
    and chk: "list_all run_check (map f (filter c (runs db)))" by (simp_all add: update_runs_Inr)
  have keys: "map r_id (runs db') = map r_id (runs db)" "map r_workflow_id (runs db') = map r_workflow_id (runs db)"
    using assms by (simp_all add: db' run_keys_kept_def map_sql_update)
  then have "r_id ` set (runs db') = r_id ` set (runs db)"
    "r_workflow_id ` set (runs db') = r_workflow_id ` set (runs db)" by (metis set_map)+
  moreover have "list_all run_check (runs db')"
    using ok chk by (auto simp: db' tables_ok_def list_all_iff in_sql_update)
  ultimately show "tables_ok db'" using ok keys by (simp add: tables_ok_def db')
qed

text \<open>An append changes the run row by its counter alone.\<close>

lemma append_Inr:
  assumes "distinct (map r_id (runs db))" and "append now rid p m db = Inr (u, db')"
  obtains r where "run_by_id rid db = Some r" "r_completed_at r = None" "0 \<le> r_event_seq r"
    "db' = (bump_seq rid db)\<lparr>events := events db @ [stored now rid p m (r_event_seq r + 1)]\<rparr>"
proof -
  from assms(2) obtain evt where a: "Append now rid p m db = Inr (evt, db')"
    by (auto simp: append_def tx_bind_Inr)
  from Append_Inr [OF assms(1) a] that show ?thesis by metis
qed

lemma append_frame:
  assumes "append now rid p m db = Inr (u, db')"
  shows "tasks db' = tasks db" "workflows db' = workflows db" "workers db' = workers db"
    "task_attempts db' = task_attempts db" "dead_letters db' = dead_letters db" "artifacts db' = artifacts db"
  using assms
  by (auto simp: append_def Append_def Let_def tx_bind_Inr update_runs_Inr insert_event_def
      split: if_splits option.splits)

lemma tables_append [tables_keeps]: "tx_keeps tables_ok (append now rid p m)"
proof (rule tx_keepsI)
  fix db u db'
  assume ok: "tables_ok db" and a: "append now rid p m db = Inr (u, db')"
  have dist: "distinct (map r_id (runs db))" using ok by (simp add: tables_ok_def)
  obtain r :: run_row where db': "db' = (bump_seq rid db)\<lparr>events := events db @ [stored now rid p m (r_event_seq r + 1)]\<rparr>"
    by (rule append_Inr [OF dist a]) (rule that)
  have keys: "map r_id (runs db') = map r_id (runs db)" "map r_workflow_id (runs db') = map r_workflow_id (runs db)"
    by (simp_all add: db' bump_seq_def map_sql_update)
  then have "r_id ` set (runs db') = r_id ` set (runs db)"
    "r_workflow_id ` set (runs db') = r_workflow_id ` set (runs db)" by (metis set_map)+
  moreover have "run_check (q\<lparr>r_event_seq := r_event_seq q + 1\<rparr>)" if "run_check q" for q :: run_row
    using that by (simp add: run_check_def)
  then have "list_all run_check (runs db')"
    using ok by (auto simp: db' bump_seq_def tables_ok_def list_all_iff in_sql_update)
  ultimately show "tables_ok db'" using ok keys append_frame [OF a] by (simp add: tables_ok_def)
qed

lemma tables_insert_run [tables_keeps]: "tx_keeps tables_ok (insert_run r)"
  by (rule tx_keepsI) (auto simp: insert_run_def tables_ok_def image_subset_iff split: if_splits)

lemma tables_insert_task [tables_keeps]: "tx_keeps tables_ok (insert_task t)"
  by (rule tx_keepsI) (fastforce simp: insert_task_def tables_ok_def image_subset_iff split: if_splits)

lemma tables_insert_workflow [tables_keeps]: "tx_keeps tables_ok (insert_workflow w)"
  by (rule tx_keepsI) (fastforce simp: insert_workflow_def tables_ok_def image_subset_iff split: if_splits)

lemma tables_workers [tables_keeps]:
  "tx_keeps tables_ok (insert_worker k)"
  "(\<And>x. wk_id (g x) = wk_id x) \<Longrightarrow> tx_keeps tables_ok (update_workers c g)"
  by (auto simp: insert_worker_def update_workers_def tables_ok_def image_subset_iff map_sql_update intro!: tx_keepsI split: if_splits)

lemma tables_inserts [tables_keeps]:
  "tx_keeps tables_ok (record_attempt a)" "tx_keeps tables_ok (insert_dead_letter d)"
  "tx_keeps tables_ok (upsert_artifact f)"
  by (auto simp: record_attempt_def insert_attempt_def insert_dead_letter_def upsert_artifact_def Let_def tables_ok_def image_subset_iff
      intro!: tx_keepsI split: if_splits)

lemma tables_returning [tables_keeps]: "keys_kept f \<Longrightarrow> tx_keeps tables_ok (update_tasks_returning c f)"
  by (intro keeps_update_returning tables_keeps)

lemma tables_operations:
  "tx_keeps tables_ok (create_run_tx env rid new_id wfl def opts seed now)"
  "tx_keeps tables_ok (claim_tx env locked now w ro limit)"
  "tx_keeps tables_ok (start_tx w task handler now)"
  "tx_keeps tables_ok (complete_tx env w task out now)"
  "tx_keeps tables_ok (skipped_tx task key now)"
  "tx_keeps tables_ok (expire_tx env locked now)"
  "tx_keeps tables_ok (sweep_tx env now)"
  "tx_keeps tables_ok (retire_tx env wid now)"
  "tx_keeps tables_ok (renew_tx env w ids now)"
  "tx_keeps tables_ok (promote_tx locked now limit)"
  "tx_keeps tables_ok (cancel_tx rid reason now)"
  "tx_keeps tables_ok (heartbeat_tx wid active now)"
  unfolding engine_tx_defs closing_defs
  by (intro keeps_rules tables_keeps keys_kept_updates run_keys_kept_updates; simp)+

end
