(* ===== verification/Relab_System.thy ===== *)
theory Relab_System
  imports Relab_Tables Relab_Idem Relab_Replay
begin

text \<open>
  The whole engine as a transition system over the database.  A step is one committed or
  rolled-back transaction of any operation, with any clock reading, any identifiers, any
  set of rows locked by others and any worker's copy of a task; worker processes,
  coordinators and operators interleave freely at that granularity.
\<close>

section \<open>Steps\<close>

text \<open>
  A worker holds a copy of a task row that exists: its identity is right, everything else
  may be stale.
\<close>

definition copy_of_task :: "task \<Rightarrow> db \<Rightarrow> bool" where
  "copy_of_task task db \<longleftrightarrow>
     (\<exists>t\<in>set (tasks db). t_id t = t_id task \<and> t_run_id t = t_run_id task \<and> t_name t = t_name task)"

inductive sys_step :: "env \<Rightarrow> db \<Rightarrow> db \<Rightarrow> bool" for env where
  register_workflow: "sys_step env db (snd (RegisterWorkflow env wid dbnow def db))"
| create_run: "wfl \<in> set (workflows db) \<Longrightarrow> Definition env (w_id wfl) db = Inr def \<Longrightarrow>
    sys_step env db (snd (CreateRun env rnd rid new_id clock wfl def opts db))"
| claim: "sys_step env db (snd (claim env locked now w ro limit db))"
| start: "copy_of_task task db \<Longrightarrow> sys_step env db (snd (StartTask w task handler now db))"
| complete: "copy_of_task task db \<Longrightarrow> sys_step env db (snd (CompleteTask env w task out now db))"
| skip_effect: "copy_of_task task db \<Longrightarrow> sys_step env db (snd (appendSideEffectSkipped task key now db))"
| inject: "sys_step env db (snd (InTx (append dbnow rid (FaultInjectedPayload ft fp sc seed draw ps)
             (at_task name None zero_time)) db))"
| record_effect: "sys_step env db (snd (InTx (record_effect key rid name raw) db))"
| expire: "sys_step env db (snd (expireLeases env locked now db))"
| sweep: "sys_step env db (snd (sweepWorkers env now db))"
| promote: "sys_step env db (snd (PromoteDueRetries locked now limit db))"
| renew: "sys_step env db (snd (RenewLease env w ids now db))"
| cancel: "sys_step env db (snd (CancelRun rid reason now db))"
| register_worker: "sys_step env db (snd (RegisterWorker wid host version cap now db))"
| heartbeat: "sys_step env db (snd (Heartbeat wid active now db))"
| retire: "sys_step env db (snd (RetireWorker env wid now db))"

inductive reachable :: "env \<Rightarrow> db \<Rightarrow> bool" for env where
  init: "reachable env empty_db"
| step: "reachable env db \<Longrightarrow> sys_step env db db' \<Longrightarrow> reachable env db'"

inductive_cases sys_stepE: "sys_step env db db'"

section \<open>From transactions to steps\<close>

text \<open>
  Every step is nothing, or the commit of one of these transactions.  An invariant kept by
  each of them is kept by the system.
\<close>

inductive engine_tx :: "env \<Rightarrow> db \<Rightarrow> unit tx \<Rightarrow> bool" for env db where
  "wfl \<in> set (workflows db) \<Longrightarrow> Definition env (w_id wfl) db = Inr def \<Longrightarrow> d_Hash def = w_definition_hash wfl \<Longrightarrow>
   engine_tx env db (create_run_tx env rid new_id wfl def opts seed now)"
| "engine_tx env db (insert_workflow wfl)"
| "engine_tx env db (tx_bind (claim_tx env locked now w ro limit) (\<lambda>_. tx_return ()))"
| "copy_of_task task db \<Longrightarrow> engine_tx env db (start_tx w task handler now)"
| "copy_of_task task db \<Longrightarrow> engine_tx env db (complete_tx env w task out now)"
| "copy_of_task task db \<Longrightarrow> engine_tx env db (skipped_tx task key now)"
| "engine_tx env db (append dbnow rid (FaultInjectedPayload ft fp sc sd draw ps) (at_task name None zero_time))"
| "engine_tx env db (tx_bind (record_effect key rid name raw) (\<lambda>_. tx_return ()))"
| "engine_tx env db (tx_bind (expire_tx env locked now) (\<lambda>_. tx_return ()))"
| "engine_tx env db (tx_bind (sweep_tx env now) (\<lambda>_. tx_return ()))"
| "engine_tx env db (tx_bind (promote_tx locked now limit) (\<lambda>_. tx_return ()))"
| "engine_tx env db (tx_bind (renew_tx env w ids now) (\<lambda>_. tx_return ()))"
| "engine_tx env db (cancel_tx rid reason now)"
| "engine_tx env db (insert_worker wk)"
| "engine_tx env db (heartbeat_tx wid active now)"
| "engine_tx env db (retire_tx env wid now)"

lemma snd_InTx: "snd (InTx m db) = (case m db of Inl e \<Rightarrow> db | Inr (x, db') \<Rightarrow> db')"
  by (auto simp: InTx_def split: sum.splits prod.splits)

lemma snd_InTx_unit: "snd (InTx (tx_bind m (\<lambda>_. tx_return ())) db) = snd (InTx m db)"
  by (auto simp: snd_InTx tx_bind_def tx_return_def split: sum.splits prod.splits)

lemma snd_InTx_cases: "snd (InTx m db) = db \<or> (\<exists>x. m db = Inr (x, snd (InTx m db)))"
  by (auto simp: snd_InTx split: sum.splits prod.splits)

lemma sys_step_tx:
  assumes "sys_step env db db'"
  shows "db' = db \<or> (\<exists>m. engine_tx env db m \<and> m db = Inr ((), db'))"
proof -
  have unit: "db1 = db \<or> (\<exists>m. engine_tx env db m \<and> m db = Inr ((), db1))"
    if "db1 = snd (InTx m db)" "engine_tx env db (tx_bind m (\<lambda>_. tx_return ()))" for m :: "'x tx" and db1
    using snd_InTx_cases [of "tx_bind m (\<lambda>_. tx_return ())" db] that by (auto simp: snd_InTx_unit)
  have plain: "db1 = db \<or> (\<exists>m. engine_tx env db m \<and> m db = Inr ((), db1))"
    if "db1 = snd (InTx m db)" "engine_tx env db m" for m db1
    using snd_InTx_cases [of m db] that by auto
  from assms show ?thesis
  proof cases
    case (register_workflow wid dbnow def)
    then show ?thesis
      using engine_tx.intros(2) by (auto simp: RegisterWorkflow_def Let_def InTx_def
          split: sum.splits prod.splits if_splits)
  next
    case (create_run wfl def rnd rid new_id clock opts)
    then show ?thesis
      using engine_tx.intros(1) [OF create_run(2,3)]
      by (auto simp: CreateRun_def Let_def InTx_def split: sum.splits prod.splits if_splits)
  next
    case (claim locked now w ro limit)
    then show ?thesis
      using unit [OF _ engine_tx.intros(3)] by (simp add: claim_def)
  next
    case (expire locked now)
    then have "db' = snd (InTx (expire_tx env locked now) db)"
      by (auto simp: expireLeases_def split: prod.splits sum.splits)
    then show ?thesis by (rule unit [OF _ engine_tx.intros(9)])
  next
    case (renew w ids now)
    then show ?thesis using unit [OF _ engine_tx.intros(12)] by (simp add: RenewLease_def)
  next
    case (register_worker wid host version cap now)
    then show ?thesis
      using engine_tx.intros(14) by (auto simp: RegisterWorker_def Let_def InTx_def tx_bind_def tx_return_def
          split: sum.splits prod.splits)
  next
    case (start task w handler now)
    show ?thesis unfolding start(1) StartTask_def by (rule plain [OF refl engine_tx.intros(4)]) (rule start(2))
  next
    case (complete task w out now)
    show ?thesis unfolding complete(1) CompleteTask_def by (rule plain [OF refl engine_tx.intros(5)]) (rule complete(2))
  next
    case (skip_effect task key now)
    show ?thesis unfolding skip_effect(1) appendSideEffectSkipped_def by (rule plain [OF refl engine_tx.intros(6)]) (rule skip_effect(2))
  next
    case (inject dbnow rid ft fp sc seed draw ps name)
    show ?thesis unfolding inject(1) by (rule plain [OF refl engine_tx.intros(7)])
  next
    case (record_effect key rid name raw)
    show ?thesis unfolding record_effect(1) by (rule unit [OF refl engine_tx.intros(8)])
  next
    case (sweep now)
    show ?thesis unfolding sweep(1) sweepWorkers_def by (rule unit [OF refl engine_tx.intros(10)])
  next
    case (promote locked now limit)
    show ?thesis unfolding promote(1) PromoteDueRetries_def by (rule unit [OF refl engine_tx.intros(11)])
  next
    case (cancel rid reason now)
    show ?thesis unfolding cancel(1) CancelRun_def by (rule plain [OF refl engine_tx.intros(13)])
  next
    case (heartbeat wid active now)
    show ?thesis unfolding heartbeat(1) Heartbeat_def by (rule plain [OF refl engine_tx.intros(15)])
  next
    case (retire wid now)
    show ?thesis unfolding retire(1) RetireWorker_def by (rule plain [OF refl engine_tx.intros(16)])
  qed
qed

section \<open>Invariants of the system\<close>

text \<open>
  The interface of an invariant: it holds of the empty database, and every transaction the
  engine can run from a state that satisfies it keeps it.  Everything reachable then has it.
\<close>

locale engine_invariant =
  fixes env :: env and I :: "db \<Rightarrow> bool"
  assumes initial: "I empty_db"
    and kept: "reachable env db \<Longrightarrow> engine_tx env db m \<Longrightarrow> I db \<Longrightarrow> m db = Inr ((), db') \<Longrightarrow> I db'"
begin

lemma step_kept: "reachable env db \<Longrightarrow> sys_step env db db' \<Longrightarrow> I db \<Longrightarrow> I db'"
  by (blast dest: sys_step_tx intro: kept)

lemma holds: "reachable env db \<Longrightarrow> I db"
  by (induction rule: reachable.induct) (auto intro: initial step_kept)

end

lemma engine_tx_keeps:
  assumes "engine_tx env db m"
    and "tx_keeps I m \<Longrightarrow> P"
    and "\<And>env rid new_id wfl def opts seed now. tx_keeps I (create_run_tx env rid new_id wfl def opts seed now)"
    and "\<And>w. tx_keeps I (insert_workflow w)"
    and "\<And>env locked now w ro limit. tx_keeps I (claim_tx env locked now w ro limit)"
    and "\<And>w task handler now. tx_keeps I (start_tx w task handler now)"
    and "\<And>env w task out now. tx_keeps I (complete_tx env w task out now)"
    and "\<And>task key now. tx_keeps I (skipped_tx task key now)"
    and "\<And>now rid ft fp sc sd draw ps meta. tx_keeps I (append now rid (FaultInjectedPayload ft fp sc sd draw ps) meta)"
    and "\<And>key rid name raw. tx_keeps I (record_effect key rid name raw)"
    and "\<And>env locked now. tx_keeps I (expire_tx env locked now)"
    and "\<And>env now. tx_keeps I (sweep_tx env now)"
    and "\<And>locked now limit. tx_keeps I (promote_tx locked now limit)"
    and "\<And>env w ids now. tx_keeps I (renew_tx env w ids now)"
    and "\<And>rid reason now. tx_keeps I (cancel_tx rid reason now)"
    and "\<And>wk. tx_keeps I (insert_worker wk)"
    and "\<And>wid active now. tx_keeps I (heartbeat_tx wid active now)"
    and "\<And>env wid now. tx_keeps I (retire_tx env wid now)"
  shows P
  using assms(1) by (intro assms(2), cases) (simp_all add: assms(3-) keeps_bind keeps_return)

lemma journal_record_effect: "tx_keeps journal_ok (record_effect key rid name raw)"
  by (rule tx_keepsI) (auto simp: record_effect_def elim!: journal_ok_frame split: if_splits)

lemma tables_record_effect: "tx_keeps tables_ok (record_effect key rid name raw)"
  by (rule tx_keepsI) (auto simp: record_effect_def tables_ok_def image_subset_iff split: if_splits)

lemma engine_tx_journal: "engine_tx env db m \<Longrightarrow> tx_keeps journal_ok m"
  by (rule engine_tx_keeps [where I = journal_ok]; (assumption | rule journal_operations journal_record_effect journal_keeps)?)

lemma engine_tx_tables: "engine_tx env db m \<Longrightarrow> tx_keeps tables_ok m"
  by (rule engine_tx_keeps [where I = tables_ok]; (assumption | rule tables_operations tables_record_effect tables_keeps)?)

interpretation journal: engine_invariant env journal_ok for env
  by unfold_locales (simp add: journal_ok_def empty_db_def, blast dest: engine_tx_journal tx_keepsD)

interpretation tables: engine_invariant env tables_ok for env
  by unfold_locales (simp add: tables_ok_def empty_db_def, blast dest: engine_tx_tables tx_keepsD)

end
