(* ===== verification/Relab_Server.thy ===== *)
theory Relab_Server
  imports Relab_Access Relab_Migrate Relab_System
begin

text \<open>
  The HTTP API (\<^verbatim>\<open>internal/api/server.go\<close>).  A request is what the handlers read of it; the
  router's verdict on its method and path, the failure of the query a handler makes and the
  parsing of a UUID are arguments, and a response is its status with the value that is
  encoded as JSON.  Log lines and headers are left out.
\<close>

section \<open>Requests and responses\<close>

record request =
  rq_ContentLength :: int
  rq_Authorization :: string
  rq_RemoteAddr :: string
  rq_Query :: "string \<Rightarrow> string"
  rq_RunID :: string

datatype endpoint = EpHealth | EpReady | EpWorkflows | EpRuns | EpRun | EpRunTasks | EpRunEvents | EpWorkers | EpStats

text \<open>
  The flag says whether the path is under \<^verbatim>\<open>/api/v1\<close>, whose middleware runs before the
  router answers that nothing matches below it.
\<close>

datatype routed = NoRoute bool | WrongMethod bool | Routed endpoint

datatype body = HealthBody string | ReadyBody int | UnavailableBody string | ErrorBody string
  | WorkflowsBody "workflow_row list" | RunsBody "run list" | RunBody run | TasksBody "task list" bool
  | EventsBody "event list" bool | WorkersBody "worker_row list" | StatsBody stats

record response =
  rp_Status :: int
  rp_Body :: body

definition writeJSON :: "int \<Rightarrow> body \<Rightarrow> response" where
  "writeJSON status b = \<lparr>rp_Status = status, rp_Body = b\<rparr>"

record server =
  sv_version :: string
  sv_config :: api_config
  sv_access :: access_control

definition NewServer :: "arith \<Rightarrow> (string \<Rightarrow> string) \<Rightarrow> string \<Rightarrow> api_config \<Rightarrow> time \<Rightarrow> server" where
  "NewServer ar dg version cfg now =
     \<lparr>sv_version = version, sv_config = cfg\<lparr>Tokens := []\<rparr>, sv_access = newAccessControl ar dg cfg now\<rparr>"

section \<open>Handlers\<close>

datatype api_failure = QueryError error | ContextDone

text \<open>\<open>None\<close>: the client is gone and nothing is written.\<close>

fun fail_response :: "api_failure \<Rightarrow> response option" where
  "fail_response (QueryError ErrNotFound) = Some (writeJSON 404 (ErrorBody ''not found''))"
| "fail_response ContextDone = None"
| "fail_response (QueryError e) = Some (writeJSON 500 (ErrorBody ''internal error''))"

definition answer :: "api_failure option \<Rightarrow> error + 'a \<Rightarrow> ('a \<Rightarrow> body) \<Rightarrow> response option" where
  "answer broken result k =
     (case broken of
        Some f \<Rightarrow> fail_response f
      | None \<Rightarrow> (case result of Inl e \<Rightarrow> fail_response (QueryError e) | Inr x \<Rightarrow> Some (writeJSON 200 (k x))))"

definition health :: "server \<Rightarrow> response option" where
  "health s = Some (writeJSON 200 (HealthBody (sv_version s)))"

record 's probe =
  pr_down :: bool
  pr_unread :: bool
  pr_sum :: "string \<Rightarrow> string"
  pr_files :: "dir_entry list option"
  pr_schema :: "'s schema_db"

definition notReady :: "string \<Rightarrow> response option" where
  "notReady reason = Some (writeJSON 503 (UnavailableBody reason))"

definition ready :: "'s probe \<Rightarrow> response option" where
  "ready pr =
     (if pr_down pr then notReady ''database is not reachable''
      else case ExpectedSchemaVersion (pr_sum pr) (pr_files pr) of
             Inl _ \<Rightarrow> notReady ''schema version could not be determined''
           | Inr expected \<Rightarrow>
               (case (if pr_unread pr then None else SchemaVersion (pr_schema pr)) of
                  None \<Rightarrow> notReady ''schema version could not be read''
                | Some applied \<Rightarrow>
                    if applied \<noteq> expected then notReady ''database schema does not match this build''
                    else Some (writeJSON 200 (ReadyBody applied))))"

definition listWorkflows :: "server \<Rightarrow> request \<Rightarrow> api_failure option \<Rightarrow> db \<Rightarrow> response option" where
  "listWorkflows s r broken db =
     answer broken (Inr (ListWorkflows (pageLimit (sv_config s) (rq_Query r ''limit'') 100) db)) WorkflowsBody"

definition listRuns :: "server \<Rightarrow> request \<Rightarrow> api_failure option \<Rightarrow> db \<Rightarrow> response option" where
  "listRuns s r broken db =
     answer broken (Inr (ListRuns (rq_Query r ''status'') (rq_Query r ''workflow'')
       (pageLimit (sv_config s) (rq_Query r ''limit'') 50) db)) RunsBody"

definition runID :: "(string \<Rightarrow> uuid option) \<Rightarrow> request \<Rightarrow> (uuid \<Rightarrow> response option) \<Rightarrow> response option" where
  "runID parse_uuid r k =
     (case parse_uuid (rq_RunID r) of
        None \<Rightarrow> Some (writeJSON 400 (ErrorBody ''run id must be a UUID''))
      | Some rid \<Rightarrow> k rid)"

definition getRun :: "(string \<Rightarrow> uuid option) \<Rightarrow> request \<Rightarrow> api_failure option \<Rightarrow> db \<Rightarrow> response option" where
  "getRun parse_uuid r broken db = runID parse_uuid r (\<lambda>rid. answer broken (RunByID rid db) RunBody)"

definition getRunTasks :: "(string \<Rightarrow> uuid option) \<Rightarrow> server \<Rightarrow> request \<Rightarrow> api_failure option \<Rightarrow> db \<Rightarrow> response option" where
  "getRunTasks parse_uuid s r broken db =
     runID parse_uuid r (\<lambda>rid.
       answer broken (Inr (TasksPage rid (rq_Query r ''after_task'') (pageLimit (sv_config s) (rq_Query r ''limit'') 100) db))
         (\<lambda>(ts, hasMore). TasksBody ts hasMore))"

definition getRunEvents :: "(string \<Rightarrow> uuid option) \<Rightarrow> server \<Rightarrow> request \<Rightarrow> api_failure option \<Rightarrow> db \<Rightarrow> response option" where
  "getRunEvents parse_uuid s r broken db =
     runID parse_uuid r (\<lambda>rid.
       answer broken (EventsPage rid (int64Param (rq_Query r ''after_seq'') 0) (pageLimit (sv_config s) (rq_Query r ''limit'') 100) db)
         (\<lambda>(es, hasMore). EventsBody es hasMore))"

definition listWorkers :: "api_failure option \<Rightarrow> db \<Rightarrow> response option" where
  "listWorkers broken db = answer broken (Inr (ListWorkers db)) WorkersBody"

definition stats_handler :: "api_failure option \<Rightarrow> db \<Rightarrow> response option" where
  "stats_handler broken db = answer broken (Inr (Stats db)) StatsBody"

section \<open>The router\<close>

record 's api_env =
  ae_arith :: arith
  ae_digest :: "string \<Rightarrow> string"
  ae_split :: "string \<Rightarrow> string option"
  ae_uuid :: "string \<Rightarrow> uuid option"
  ae_now :: time
  ae_broken :: "api_failure option"
  ae_probe :: "'s probe"

fun under_api :: "routed \<Rightarrow> bool" where
  "under_api (NoRoute b) = b"
| "under_api (WrongMethod b) = b"
| "under_api (Routed ep) = (ep \<noteq> EpHealth \<and> ep \<noteq> EpReady)"

fun endpoint_handler :: "'s api_env \<Rightarrow> server \<Rightarrow> request \<Rightarrow> db \<Rightarrow> endpoint \<Rightarrow> response option" where
  "endpoint_handler e s r db EpHealth = health s"
| "endpoint_handler e s r db EpReady = ready (ae_probe e)"
| "endpoint_handler e s r db EpWorkflows = listWorkflows s r (ae_broken e) db"
| "endpoint_handler e s r db EpRuns = listRuns s r (ae_broken e) db"
| "endpoint_handler e s r db EpRun = getRun (ae_uuid e) r (ae_broken e) db"
| "endpoint_handler e s r db EpRunTasks = getRunTasks (ae_uuid e) s r (ae_broken e) db"
| "endpoint_handler e s r db EpRunEvents = getRunEvents (ae_uuid e) s r (ae_broken e) db"
| "endpoint_handler e s r db EpWorkers = listWorkers (ae_broken e) db"
| "endpoint_handler e s r db EpStats = stats_handler (ae_broken e) db"

fun dispatch :: "'s api_env \<Rightarrow> server \<Rightarrow> request \<Rightarrow> db \<Rightarrow> routed \<Rightarrow> response option" where
  "dispatch e s r db (NoRoute _) = Some (writeJSON 404 (ErrorBody ''not found''))"
| "dispatch e s r db (WrongMethod _) = Some (writeJSON 405 (ErrorBody ''method not allowed''))"
| "dispatch e s r db (Routed ep) = endpoint_handler e s r db ep"

definition guarded :: "'s api_env \<Rightarrow> server \<Rightarrow> request \<Rightarrow> (server \<Rightarrow> response option) \<Rightarrow> response option \<times> server" where
  "guarded e s r k =
     (case authorizeAndRateLimit (ae_arith e) (ae_digest e) (ae_split e) (rq_Authorization r) (rq_RemoteAddr r) (ae_now e) (sv_access s) of
        (TooManyRequests, ac) \<Rightarrow> (Some (writeJSON 429 (ErrorBody ''rate limited'')), s\<lparr>sv_access := ac\<rparr>)
      | (Unauthorized, ac) \<Rightarrow> (Some (writeJSON 401 (ErrorBody ''unauthorized'')), s\<lparr>sv_access := ac\<rparr>)
      | (Serve role, ac) \<Rightarrow> (k (s\<lparr>sv_access := ac\<rparr>), s\<lparr>sv_access := ac\<rparr>))"

definition Routes :: "'s api_env \<Rightarrow> routed \<Rightarrow> server \<Rightarrow> request \<Rightarrow> db \<Rightarrow> response option \<times> server" where
  "Routes e rt s r db =
     (if \<not> limitRequestBody (sv_config s) (rq_ContentLength r)
      then (Some (writeJSON 413 (ErrorBody ''request too large'')), s)
      else if under_api rt then guarded e s r (\<lambda>s'. dispatch e s' r db rt)
      else (dispatch e s r db rt, s))"

section \<open>Reading page by page\<close>

text \<open>
  A client that follows the pages of an endpoint: it asks for what comes after the last item
  it was given, as long as it is told that there is more.  \<open>None\<close> is a client that gave up
  after \<open>n\<close> requests.
\<close>

fun follow :: "('k \<Rightarrow> 'a list \<times> bool) \<Rightarrow> ('a \<Rightarrow> 'k) \<Rightarrow> nat \<Rightarrow> 'k \<Rightarrow> 'a list option" where
  "follow page key 0 k = None"
| "follow page key (Suc n) k =
     (case page k of (xs, hasMore) \<Rightarrow>
        if hasMore then map_option (\<lambda>rest. xs @ rest) (follow page key n (key (last xs))) else Some xs)"

lemma filter_above:
  assumes "sorted_wrt (\<lambda>x y. key x < key y) (xs @ ys)" and "xs \<noteq> []"
  shows "filter (\<lambda>x. key (last xs) < (key x :: 'k::linorder)) (xs @ ys) = ys"
proof -
  have split: "xs = butlast xs @ [last xs]" using assms(2) by simp
  have "sorted_wrt (\<lambda>x y. key x < key y) (butlast xs @ [last xs])"
    using assms(1) split by (simp add: sorted_wrt_append)
  then have "\<forall>x\<in>set (butlast xs @ [last xs]). \<not> key (last xs) < key x"
    by (auto simp: sorted_wrt_append dest: less_asym)
  then have "\<forall>x\<in>set xs. \<not> key (last xs) < key x" using split by simp
  moreover have "\<forall>y\<in>set ys. key (last xs) < key y" using assms by (simp add: sorted_wrt_append)
  ultimately show ?thesis by (simp add: filter_id_conv filter_empty_conv)
qed

text \<open>
  The interface of a paged listing: its items ascend strictly by a key, and a page holds the
  first \<open>width\<close> items above the cursor and says whether there are more.
\<close>

locale pager =
  fixes ok :: "'w \<Rightarrow> bool" and page :: "'w \<Rightarrow> 'k::linorder \<Rightarrow> 'a list \<times> bool" and key :: "'a \<Rightarrow> 'k"
    and items :: "'w \<Rightarrow> 'a list" and width :: "'w \<Rightarrow> nat" and cursor :: "'w \<Rightarrow> 'k \<Rightarrow> bool"
  assumes ascending: "ok w \<Longrightarrow> sorted_wrt (\<lambda>x y. key x < key y) (items w)"
    and wide: "ok w \<Longrightarrow> 0 < width w"
    and cursors: "ok w \<Longrightarrow> x \<in> set (items w) \<Longrightarrow> cursor w (key x)"
    and served: "ok w \<Longrightarrow> cursor w k \<Longrightarrow> page w k =
      (take (width w) (filter (\<lambda>x. k < key x) (items w)), width w < length (filter (\<lambda>x. k < key x) (items w)))"
begin

lemma follow_all:
  "ok w \<Longrightarrow> cursor w k \<Longrightarrow> length (filter (\<lambda>x. k < key x) (items w)) < n \<Longrightarrow>
     follow (page w) key n k = Some (filter (\<lambda>x. k < key x) (items w))"
proof (induction n arbitrary: k)
  case (Suc n)
  let ?fs = "filter (\<lambda>x. k < key x) (items w)"
  show ?case
  proof (cases "width w < length ?fs")
    case False
    then show ?thesis using served [OF Suc.prems(1,2)] by simp
  next
    case True
    let ?xs = "take (width w) ?fs"
    have ne: "?xs \<noteq> []" using wide [OF Suc.prems(1)] True by (cases ?fs) auto
    have "last ?xs \<in> set ?fs" by (rule in_set_takeD [OF last_in_set [OF ne]])
    then have lt: "k < key (last ?xs)" and mem: "last ?xs \<in> set (items w)" by auto
    have sorted: "sorted_wrt (\<lambda>x y. key x < key y) (?xs @ drop (width w) ?fs)"
      using ascending [OF Suc.prems(1)] by (simp add: sorted_wrt_filter)
    have "filter (\<lambda>x. key (last ?xs) < key x) (items w) = filter (\<lambda>x. key (last ?xs) < key x) ?fs"
      using lt by (auto simp: filter_filter intro!: filter_cong)
    also have "\<dots> = drop (width w) ?fs" using filter_above [OF sorted ne] by simp
    finally have rest: "filter (\<lambda>x. key (last ?xs) < key x) (items w) = drop (width w) ?fs" .
    have "length (drop (width w) ?fs) < n" using Suc.prems(3) wide [OF Suc.prems(1)] True by simp
    then have "follow (page w) key n (key (last ?xs)) = Some (drop (width w) ?fs)"
      using Suc.IH [OF Suc.prems(1) cursors [OF Suc.prems(1) mem]] by (simp add: rest)
    then show ?thesis using served [OF Suc.prems(1,2)] True by simp
  qed
qed simp

end

section \<open>The two listings that have pages\<close>

lemma digit_val_digit: "digit_val (digit n) = Some (int (n mod 10))"
proof -
  have "of_char (digit n) = 48 + n mod 10" by (simp add: digit_def)
  then show ?thesis by (simp add: digit_val_def)
qed

lemma digits_val_snoc:
  "digits_val acc (cs @ [c]) = (case digits_val acc cs of None \<Rightarrow> None | Some v \<Rightarrow> map_option (\<lambda>d. v * 10 + d) (digit_val c))"
  by (induction cs arbitrary: acc) (auto split: option.splits)

lemma digits_val_show: "digits_val 0 (show_nat n) = Some (int n)"
proof (induction n rule: show_nat.induct)
  case (1 n)
  show ?case
  proof (cases "n < 10")
    case True
    then show ?thesis by (simp add: show_nat.simps [of n] digit_val_digit)
  next
    case False
    have "int (n div 10) * 10 + int (n mod 10) = int n" by presburger
    then show ?thesis using 1 False by (simp add: show_nat.simps [of n] digits_val_snoc digit_val_digit)
  qed
qed

text \<open>What a client writes into \<^verbatim>\<open>after_seq\<close> is what the server reads.\<close>

lemma parse_show:
  assumes "0 \<le> i" and "i < 2 ^ 63"
  shows "parse_int64 (show_int i) = Some i"
proof -
  obtain c cs where s: "show_nat (nat i) = c # cs" using show_nat_nonempty [of "nat i"] by (cases "show_nat (nat i)") auto
  then obtain k where k: "k < 10" "c = digit k" using show_nat_digits [of c "nat i"] by auto
  have "(of_char c :: nat) = 48 + k" using k by (simp add: digit_def)
  then have "c \<noteq> CHR ''-''" "c \<noteq> CHR ''+''" by auto
  then show ?thesis
    using assms digits_val_show [of "nat i"] by (simp add: show_int_def s parse_int64_def unsigned_val_def in_int64_def)
qed

lemma numbered_above:
  assumes "numbered es"
  shows "filter (\<lambda>e. int k < e_seq e) es = drop k es"
proof -
  have "filter (\<lambda>e. int k < e_seq e) (take k es) = []"
    using numbered_nth [OF assms] by (auto simp: filter_empty_conv in_set_conv_nth)
  moreover have "filter (\<lambda>e. int k < e_seq e) (drop k es) = drop k es"
    using numbered_nth [OF assms] by (auto simp: filter_id_conv in_set_conv_nth)
  ultimately show ?thesis by (metis append_Nil append_take_drop_id filter_append)
qed

lemma EventsPage_exact:
  assumes j: "journal_ok db" and r: "run_by_id rid db = Some run" and k: "0 \<le> k" and l: "0 < l"
  shows "EventsPage rid k l db =
    Inr (take (nat l) (filter (\<lambda>e. k < ev_Seq e) (map scan_event (run_events rid db))),
         nat l < length (filter (\<lambda>e. k < ev_Seq e) (map scan_event (run_events rid db))))"
proof -
  let ?es = "run_events rid db" and ?k = "nat k"
  let ?rows = "take (nat l + 1) (drop ?k ?es)"
  have mem: "run \<in> set (runs db)" "r_id run = rid" using find_key_Some [OF r [unfolded run_by_id_def]] by auto
  then have num: "numbered ?es" and known: "\<forall>e\<in>set ?es. Known (Type_of_text (e_type e))"
    using j by (auto simp: journal_ok_def run_events_def)
  have above: "filter (\<lambda>e. k < e_seq e) ?es = drop ?k ?es" using numbered_above [OF num, of ?k] k by simp
  have sorted: "order_by e_seq (drop ?k ?es) = drop ?k ?es"
  proof -
    have "sorted (map e_seq ?es)" using order_by_numbered [OF num] by (metis order_by_def sorted_sort_key)
    then show ?thesis by (simp add: order_by_def drop_map [symmetric] sorted_wrt_drop sort_key_id_if_sorted)
  qed
  have "map e_seq ?rows = take (nat l + 1) (drop ?k (map int [1..<Suc (length ?es)]))"
    using num [unfolded numbered_def] by (metis drop_map take_map)
  also have "\<dots> = map int [Suc ?k..<Suc ?k + length ?rows]"
    by (rule nth_equalityI) (auto simp: nth_upt simp del: upt_Suc)
  finally have "read_loop (int ?k + 1) ?rows = Inr (map scan_event ?rows)"
    by (rule read_loop_numbered) (use known in \<open>auto dest!: in_set_takeD in_set_dropD\<close>)
  then have "read_loop (k + 1) ?rows = Inr (map scan_event ?rows)" using k by simp
  moreover have "filter (\<lambda>e. k < ev_Seq e) (map scan_event ?es) = map scan_event (drop ?k ?es)"
    using above by (simp add: filter_map comp_def scan_event_def)
  ultimately show ?thesis
    using l above sorted by (auto simp: EventsPage_def Let_def take_map)
qed

text \<open>
  The journal of a run, as a client gets it from \<^verbatim>\<open>/runs/{runID}/events\<close>: one request per
  page, the last number it saw as \<^verbatim>\<open>after_seq\<close> and any text as \<^verbatim>\<open>limit\<close>.
\<close>

definition event_request :: "string \<Rightarrow> string \<Rightarrow> int \<Rightarrow> request" where
  "event_request raw lmt k =
     \<lparr>rq_ContentLength = 0, rq_Authorization = [], rq_RemoteAddr = [],
      rq_Query = (\<lambda>name. if name = ''after_seq'' then show_int k else if name = ''limit'' then lmt else []), rq_RunID = raw\<rparr>"

definition event_page :: "(string \<Rightarrow> uuid option) \<Rightarrow> server \<Rightarrow> string \<Rightarrow> string \<Rightarrow> db \<Rightarrow> int \<Rightarrow> event list \<times> bool" where
  "event_page parse_uuid s raw lmt db k =
     (case getRunEvents parse_uuid s (event_request raw lmt k) None db of
        Some rp \<Rightarrow> (case rp_Body rp of EventsBody es hasMore \<Rightarrow> (es, hasMore) | _ \<Rightarrow> ([], False))
      | None \<Rightarrow> ([], False))"

definition event_listing_ok :: "env \<Rightarrow> (string \<Rightarrow> uuid option) \<Rightarrow> server \<Rightarrow> string \<Rightarrow> uuid \<Rightarrow> db \<Rightarrow> bool" where
  "event_listing_ok env parse_uuid s raw rid db \<longleftrightarrow>
     reachable env db \<and> parse_uuid raw = Some rid \<and> 0 < MaxLimit (sv_config s)
     \<and> (\<exists>run. run_by_id rid db = Some run \<and> r_event_seq run < 2 ^ 63)"

lemma numbered_strict: "numbered es \<Longrightarrow> sorted_wrt (\<lambda>x y. ev_Seq x < ev_Seq y) (map scan_event es)"
  by (auto simp: sorted_wrt_iff_nth_less numbered_nth scan_event_def)

lemma listing_journal:
  assumes "event_listing_ok env pu s raw rid db"
  shows "numbered (run_events rid db)" "int (length (run_events rid db)) < 2 ^ 63" "journal_ok db"
proof -
  from assms obtain run where r: "reachable env db" "run_by_id rid db = Some run" "r_event_seq run < 2 ^ 63"
    by (auto simp: event_listing_ok_def)
  show j: "journal_ok db" using journal.holds [OF r(1)] .
  have "run \<in> set (runs db)" "r_id run = rid" using find_key_Some [OF r(2) [unfolded run_by_id_def]] by auto
  with j r(3) show "numbered (run_events rid db)" "int (length (run_events rid db)) < 2 ^ 63" by (auto simp: journal_ok_def)
qed

lemma event_page_served:
  assumes ok: "event_listing_ok env pu s raw rid db" and k: "0 \<le> k" "k < 2 ^ 63"
  shows "event_page pu s raw lmt db k =
    (take (nat (pageLimit (sv_config s) lmt 100)) (filter (\<lambda>e. k < ev_Seq e) (map scan_event (run_events rid db))),
     nat (pageLimit (sv_config s) lmt 100) < length (filter (\<lambda>e. k < ev_Seq e) (map scan_event (run_events rid db))))"
proof -
  from ok obtain run where r: "run_by_id rid db = Some run" "pu raw = Some rid" and m: "0 < MaxLimit (sv_config s)"
    by (auto simp: event_listing_ok_def)
  have l: "0 < pageLimit (sv_config s) lmt 100" using pageLimit_bounds [of 100 "sv_config s" lmt] m by simp
  have "show_int k \<noteq> []" using show_nat_nonempty by (simp add: show_int_def)
  then have a: "int64Param (show_int k) 0 = k" using parse_show [OF k] k by (simp add: int64Param_def)
  show ?thesis
    using EventsPage_exact [OF listing_journal(3) [OF ok] r(1) k(1) l] r(2) a
    by (simp add: event_page_def getRunEvents_def runID_def event_request_def answer_def writeJSON_def)
qed

interpretation journal_pages: pager "event_listing_ok env pu s raw rid" "event_page pu s raw lmt" ev_Seq
    "\<lambda>db. map scan_event (run_events rid db)" "\<lambda>db. nat (pageLimit (sv_config s) lmt 100)" "\<lambda>db k. 0 \<le> k \<and> k < 2 ^ 63"
  for env pu s raw rid lmt
proof unfold_locales
  fix db x
  assume ok: "event_listing_ok env pu s raw rid db"
  show "sorted_wrt (\<lambda>x y. ev_Seq x < ev_Seq y) (map scan_event (run_events rid db))"
    by (rule numbered_strict [OF listing_journal(1) [OF ok]])
  show "0 < nat (pageLimit (sv_config s) lmt 100)"
    using pageLimit_bounds [of 100 "sv_config s" lmt] ok by (simp add: event_listing_ok_def)
  assume "x \<in> set (map scan_event (run_events rid db))"
  then obtain i where "i < length (run_events rid db)" "ev_Seq x = int i + 1"
    using listing_journal(1) [OF ok] by (auto simp: in_set_conv_nth numbered_nth scan_event_def)
  then show "0 \<le> ev_Seq x \<and> ev_Seq x < 2 ^ 63" using listing_journal(2) [OF ok] by linarith
qed (rule event_page_served; simp)

lemma journal_followed:
  assumes "event_listing_ok env pu s raw rid db" and "length (run_events rid db) < n"
  shows "follow (event_page pu s raw lmt db) ev_Seq n 0 = Some (map scan_event (run_events rid db))"
proof -
  have "filter (\<lambda>e. 0 < ev_Seq e) (map scan_event (run_events rid db)) = map scan_event (run_events rid db)"
    using listing_journal(1) [OF assms(1)] by (auto simp: filter_id_conv in_set_conv_nth numbered_nth scan_event_def)
  then show ?thesis using journal_pages.follow_all [OF assms(1), of 0 n lmt] assms(2) by simp
qed

text \<open>The tasks of a run, by name, in the same way from \<^verbatim>\<open>/runs/{runID}/tasks\<close>.\<close>

definition task_request :: "string \<Rightarrow> string \<Rightarrow> string \<Rightarrow> request" where
  "task_request raw lmt k =
     \<lparr>rq_ContentLength = 0, rq_Authorization = [], rq_RemoteAddr = [],
      rq_Query = (\<lambda>name. if name = ''after_task'' then k else if name = ''limit'' then lmt else []), rq_RunID = raw\<rparr>"

definition task_page :: "(string \<Rightarrow> uuid option) \<Rightarrow> server \<Rightarrow> string \<Rightarrow> string \<Rightarrow> db \<Rightarrow> string \<Rightarrow> task list \<times> bool" where
  "task_page parse_uuid s raw lmt db k =
     (case getRunTasks parse_uuid s (task_request raw lmt k) None db of
        Some rp \<Rightarrow> (case rp_Body rp of TasksBody ts hasMore \<Rightarrow> (ts, hasMore) | _ \<Rightarrow> ([], False))
      | None \<Rightarrow> ([], False))"

definition task_listing_ok :: "env \<Rightarrow> (string \<Rightarrow> uuid option) \<Rightarrow> server \<Rightarrow> string \<Rightarrow> uuid \<Rightarrow> db \<Rightarrow> bool" where
  "task_listing_ok env parse_uuid s raw rid db \<longleftrightarrow> reachable env db \<and> parse_uuid raw = Some rid \<and> 0 < MaxLimit (sv_config s)"

lemma run_names_distinct: "tables_ok db \<Longrightarrow> distinct (map t_name (run_tasks rid db))"
  by (auto simp: tables_ok_def run_tasks_def distinct_map inj_on_def)

lemma names_ascend:
  assumes "distinct (map t_name ts)"
  shows "sorted_wrt (\<lambda>x y. t_name x < t_name y) (sort_key t_name ts)"
proof -
  have "distinct (map t_name (sort_key t_name ts))" using assms by (simp add: distinct_map)
  moreover have "sorted (map t_name (sort_key t_name ts))" by simp
  ultimately have "sorted_wrt (<) (map t_name (sort_key t_name ts))" by (simp add: strict_sorted_iff)
  then show ?thesis by (simp add: sorted_wrt_map)
qed

interpretation task_pages: pager "task_listing_ok env pu s raw rid" "task_page pu s raw lmt" t_name
    "\<lambda>db. sort_key t_name (run_tasks rid db)" "\<lambda>db. nat (pageLimit (sv_config s) lmt 100)" "\<lambda>db k. True"
  for env pu s raw rid lmt
proof unfold_locales
  fix db k
  assume ok: "task_listing_ok env pu s raw rid db"
  show "sorted_wrt (\<lambda>x y. t_name x < t_name y) (sort_key t_name (run_tasks rid db))"
    using ok by (intro names_ascend run_names_distinct tables.holds) (auto simp: task_listing_ok_def)
  show l: "0 < nat (pageLimit (sv_config s) lmt 100)"
    using pageLimit_bounds [of 100 "sv_config s" lmt] ok by (simp add: task_listing_ok_def)
  show "task_page pu s raw lmt db k =
    (take (nat (pageLimit (sv_config s) lmt 100)) (filter (\<lambda>x. k < t_name x) (sort_key t_name (run_tasks rid db))),
     nat (pageLimit (sv_config s) lmt 100) < length (filter (\<lambda>x. k < t_name x) (sort_key t_name (run_tasks rid db))))"
    using ok l by (auto simp: task_page_def getRunTasks_def runID_def task_request_def answer_def writeJSON_def
        TasksPage_def Let_def task_listing_ok_def filter_sort)
qed simp

lemma tasks_followed:
  assumes "task_listing_ok env pu s raw rid db" and "length (run_tasks rid db) < n"
  shows "follow (task_page pu s raw lmt db) t_name n [] = Some (filter (\<lambda>t. t_name t \<noteq> []) (sort_key t_name (run_tasks rid db)))"
proof -
  have "length (filter (\<lambda>t. t_name t \<noteq> []) (sort_key t_name (run_tasks rid db))) < n"
    using assms(2) length_filter_le [of _ "sort_key t_name (run_tasks rid db)"] by (metis le_less_trans length_sort)
  moreover have "[] < k \<longleftrightarrow> k \<noteq> []" for k :: string by (cases k) simp_all
  ultimately show ?thesis using task_pages.follow_all [OF assms(1), of "[]" n lmt] by simp
qed

section \<open>Readiness\<close>

lemma ready_exact:
  "ready pr = Some (writeJSON 200 b) \<longleftrightarrow>
     \<not> pr_down pr \<and> \<not> pr_unread pr
     \<and> (\<exists>v. ExpectedSchemaVersion (pr_sum pr) (pr_files pr) = Inr v \<and> SchemaVersion (pr_schema pr) = Some v \<and> b = ReadyBody v)"
  by (auto simp: ready_def notReady_def writeJSON_def split: sum.splits option.splits if_splits)

text \<open>A migration that succeeded makes the process ready, unless a newer binary was there before.\<close>

lemma ready_after_migrate:
  assumes d: "distinct (map am_version (applied_rows d))" and m: "Migrate env d = ((vs, None), d')"
    and some: "LoadMigrations (me_sum env) (me_dir env) = Inr ms" "ms \<noteq> []"
    and newest: "\<And>v. v \<in> set (map am_version (applied_rows d)) \<Longrightarrow> v \<le> mg_Version (last ms)"
  shows "ready \<lparr>pr_down = False, pr_unread = False, pr_sum = me_sum env, pr_files = me_dir env, pr_schema = d'\<rparr>
    = Some (writeJSON 200 (ReadyBody (mg_Version (last ms))))"
proof -
  obtain ms' where ms': "LoadMigrations (me_sum env) (me_dir env) = Inr ms'"
    "applied_rows d' = applied_rows d @ map row_of (filter (\<lambda>m. \<not> known_version d (mg_Version m)) ms')"
    "\<forall>m\<in>set ms'. records d' m" "sd_applied d' \<noteq> None"
    by (rule Migrate_ok [OF d m]) (rule that)
  have eq: "ms' = ms" using ms'(1) some(1) by simp
  obtain rows where rows: "sd_applied d' = Some rows" "applied_rows d' = rows" using ms'(4) by (auto simp: applied_rows_def)
  have last: "mg_Version (last ms) \<in> am_version ` set rows"
    using bspec [OF ms'(3), of "last ms"] some(2) rows(2) by (force simp: records_def eq image_iff)
  have below: "mg_Version m \<le> mg_Version (last ms)" if "m \<in> set ms" for m
  proof -
    have "sorted_wrt (<) (map mg_Version (butlast ms @ [last ms]))" using LoadMigrations_ok(2) [OF some(1)] some(2) by simp
    then have "\<forall>m\<in>set (butlast ms @ [last ms]). mg_Version m \<le> mg_Version (last ms)" by (auto simp: sorted_wrt_append less_imp_le)
    then show ?thesis using that some(2) by simp
  qed
  have "v \<le> mg_Version (last ms)" if "v \<in> am_version ` set rows" for v
    using that newest below by (auto simp: rows(2) [symmetric] ms'(2) eq row_of_def)
  then have "Max (am_version ` set rows) = mg_Version (last ms)" using last by (intro Max_eqI) auto
  then have "SchemaVersion d' = Some (mg_Version (last ms))" using SchemaVersion_Max [OF rows(1)] last by (cases rows) auto
  then show ?thesis using some by (simp add: ready_exact ExpectedSchemaVersion_def)
qed

text \<open>
  The check compares the highest version only: a file numbered below it that was never run
  goes unnoticed.
\<close>

definition file_named :: "string \<Rightarrow> dir_entry" where
  "file_named n = \<lparr>en_Name = n, en_IsDir = False, en_Body = Some n\<rparr>"

lemma ready_misses_gap:
  "let env = \<lparr>me_sum = (\<lambda>s. s), me_dir = Some [file_named ''1_a.sql'', file_named ''3_c.sql''], me_down = (\<lambda>_. False),
              me_kept = (\<lambda>_. False), me_exec = demo_exec\<rparr>;
       d = snd (Migrate env demo_empty)
   in sd_schema d = [''1_a.sql'', ''3_c.sql'']
      \<and> map_option rp_Status (ready \<lparr>pr_down = False, pr_unread = False, pr_sum = (\<lambda>s. s),
               pr_files = Some [file_named ''1_a.sql'', file_named ''2_b.sql'', file_named ''3_c.sql''], pr_schema = d\<rparr>) = Some 200"
  by code_simp

section \<open>Claims\<close>

text \<open>Everything a server does to its state is to its buckets.\<close>

lemma Routes_tokens: "ac_tokens (sv_access (snd (Routes e rt s r db))) = ac_tokens (sv_access s)"
  "sv_config (snd (Routes e rt s r db)) = sv_config s"
  by (auto simp: Routes_def guarded_def authorizeAndRateLimit_def Let_def split: prod.splits)

lemma authorize_accepts:
  assumes "fst (Routes e rt s r db) = Some rp" and "under_api rt" and "rp_Status rp \<notin> {401, 413, 429}"
  obtains role ac where "authorizeAndRateLimit (ae_arith e) (ae_digest e) (ae_split e) (rq_Authorization r) (rq_RemoteAddr r)
      (ae_now e) (sv_access s) = (Serve role, ac)"
  using assms by (auto simp: Routes_def guarded_def writeJSON_def split: prod.splits access_response.splits if_splits)

text \<open>A server after any number of requests to it.\<close>

fun served :: "('s api_env \<times> routed \<times> request \<times> db) list \<Rightarrow> server \<Rightarrow> server" where
  "served [] s = s"
| "served ((e, rt, r, db) # reqs) s = served reqs (snd (Routes e rt s r db))"

lemma served_tokens: "ac_tokens (sv_access (served reqs s)) = ac_tokens (sv_access s)"
  by (induction reqs s rule: served.induct) (simp_all add: Routes_tokens)

text \<open>
  (C37) No answer from the API without a token.  Of a server with tokens configured, after any
  requests it has served, whatever is answered to a request for a path under
  \<^verbatim>\<open>/api/v1\<close> other than a refusal (401, 413, 429), an unknown path's 404 included, was
  answered to the bearer of a configured token, provided the digest tells the configured
  values from every other text.
\<close>

theorem api_requires_token:
  assumes "APIConfig_Validate cfg = None" and "Tokens cfg \<noteq> []"
    and "\<And>t v. t \<in> set (Tokens cfg) \<Longrightarrow> ae_digest e v = ae_digest e (tok_Value t) \<Longrightarrow> v = tok_Value t"
    and "s = served reqs (NewServer ar (ae_digest e) version cfg started)"
    and "fst (Routes e rt s r db) = Some rp" and "under_api rt" and "rp_Status rp \<notin> {401, 413, 429}"
  shows "\<exists>t\<in>set (Tokens cfg). bearerToken (rq_Authorization r) = tok_Value t \<and> bearerToken (rq_Authorization r) \<noteq> []"
proof -
  obtain role ac where a: "authorizeAndRateLimit (ae_arith e) (ae_digest e) (ae_split e) (rq_Authorization r) (rq_RemoteAddr r)
      (ae_now e) (sv_access s) = (Serve role, ac)" by (rule authorize_accepts [OF assms(5-7)])
  have "ac_tokens (sv_access s) = ac_tokens (newAccessControl ar (ae_digest e) cfg started)"
    by (simp add: assms(4) served_tokens NewServer_def)
  from access_granted [OF assms(1,2) this assms(3) a] show ?thesis by blast
qed

definition demo_server_env :: "string list api_env" where
  "demo_server_env =
     \<lparr>ae_arith = demo_exact, ae_digest = (\<lambda>s. s), ae_split = (\<lambda>_. None), ae_uuid = (\<lambda>_. None), ae_now = 5, ae_broken = None,
      ae_probe = \<lparr>pr_down = False, pr_unread = False, pr_sum = (\<lambda>s. s), pr_files = None, pr_schema = demo_empty\<rparr>\<rparr>"

definition demo_request :: request where
  "demo_request = \<lparr>rq_ContentLength = 0, rq_Authorization = ''Bearer secret'', rq_RemoteAddr = ''1.2.3.4'',
     rq_Query = (\<lambda>_. []), rq_RunID = ''x''\<rparr>"

theorem api_requires_token_witness:
  "\<exists>t\<in>set (Tokens demo_api). bearerToken ''Bearer secret'' = tok_Value t \<and> bearerToken ''Bearer secret'' \<noteq> []"
proof -
  let ?s = "NewServer demo_exact (\<lambda>s. s) ''v1'' demo_api 0"
  have v: "APIConfig_Validate demo_api = None" "Tokens demo_api \<noteq> []" by code_simp+
  have "map_option rp_Status (fst (Routes demo_server_env (Routed EpRun) ?s demo_request empty_db)) = Some 400" by code_simp
  then obtain rp where rp: "fst (Routes demo_server_env (Routed EpRun) ?s demo_request empty_db) = Some rp" "rp_Status rp = 400" by auto
  have "?s = served [] (NewServer demo_exact (ae_digest demo_server_env) ''v1'' demo_api 0)"
    by (simp add: demo_server_env_def)
  from api_requires_token [OF v _ this rp(1)] show ?thesis
    by (simp add: rp(2) demo_server_env_def demo_request_def)
qed

end
