(* ===== verification/Relab_History.thy ===== *)
theory Relab_History
  imports Relab_System
begin

text \<open>
  History only grows: no transaction removes or rewrites an event, a closed run's row and
  journal never change again, and neither does the row of a task that has ended.
\<close>

section \<open>Events are only appended\<close>

definition extends :: "event_row list \<Rightarrow> db \<Rightarrow> bool" where
  "extends es db \<longleftrightarrow> (\<exists>new. events db = es @ new)"

text \<open>
  A property that every statement keeps, whatever its condition and its assignments, is kept
  by every transaction of the engine and so by every step.
\<close>

locale statement_invariant =
  fixes I :: "db \<Rightarrow> bool"
  assumes updates: "tx_keeps I (update_tasks c f)" "tx_keeps I (update_runs d g)" "tx_keeps I (update_workers e h)"
    and inserts: "tx_keeps I (insert_run r)" "tx_keeps I (insert_task t)" "tx_keeps I (insert_workflow w)"
      "tx_keeps I (insert_worker k)" "tx_keeps I (record_attempt a)" "tx_keeps I (insert_dead_letter l)"
    and others: "tx_keeps I (upsert_artifact u)" "tx_keeps I (record_effect key rid name raw)"
    and append: "tx_keeps I (append now rid p m)"
begin

lemma returning: "tx_keeps I (update_tasks_returning c f)"
  by (intro keeps_update_returning updates)

lemmas statements = updates inserts others append returning

lemma operations:
  "tx_keeps I (create_run_tx env rid new_id wfl def opts seed now)"
  "tx_keeps I (claim_tx env locked now w ro limit)"
  "tx_keeps I (start_tx w task handler now)"
  "tx_keeps I (complete_tx env w task out now)"
  "tx_keeps I (skipped_tx task key now)"
  "tx_keeps I (expire_tx env locked now)"
  "tx_keeps I (sweep_tx env now)"
  "tx_keeps I (retire_tx env wid now)"
  "tx_keeps I (renew_tx env w ids now)"
  "tx_keeps I (promote_tx locked now limit)"
  "tx_keeps I (cancel_tx rid reason now)"
  "tx_keeps I (heartbeat_tx wid active now)"
  unfolding engine_tx_defs closing_defs by (intro keeps_rules statements)+

lemma transaction: "engine_tx env db m \<Longrightarrow> tx_keeps I m"
  by (rule engine_tx_keeps [where I = I]; (assumption | rule operations statements)?)

lemma step: "sys_step env db db' \<Longrightarrow> I db \<Longrightarrow> I db'"
  using sys_step_tx [of env db db'] transaction by (auto dest: tx_keepsD)

end

lemmas statement_defs = update_tasks_Inr update_runs_Inr insert_run_def insert_task_def insert_workflow_def
  insert_worker_def update_workers_def record_attempt_def insert_attempt_def insert_dead_letter_def
  upsert_artifact_def record_effect_def append_def Append_def insert_event_def

interpretation journal_kept: statement_invariant "extends es" for es
  by unfold_locales
    (auto simp: extends_def statement_defs Let_def tx_bind_Inr intro!: tx_keepsI split: if_splits option.splits)

lemma events_grow: "sys_step env db db' \<Longrightarrow> \<exists>new. events db' = events db @ new"
  using journal_kept.step [of env db db' "events db"] by (simp add: extends_def)

text \<open>Workflows are only added, so a run keeps the definition it was started from.\<close>

definition registered :: "workflow_row list \<Rightarrow> db \<Rightarrow> bool" where
  "registered ws db \<longleftrightarrow> (\<exists>new. workflows db = ws @ new)"

interpretation workflows_kept: statement_invariant "registered ws" for ws
  by unfold_locales
    (auto simp: registered_def statement_defs Let_def tx_bind_Inr intro!: tx_keepsI split: if_splits option.splits)

lemma find_append: "find P (xs @ ys) = (case find P xs of Some y \<Rightarrow> Some y | None \<Rightarrow> find P ys)"
  by (induction xs) auto

lemma workflow_stays:
  assumes "sys_step env db db'" and "wfl \<in> set (workflows db)" and "Definition env (w_id wfl) db = Inr def"
  shows "wfl \<in> set (workflows db')" and "Definition env (w_id wfl) db' = Inr def"
proof -
  obtain new where db': "workflows db' = workflows db @ new"
    using workflows_kept.step [OF assms(1), of "workflows db"] by (auto simp: registered_def)
  then show "wfl \<in> set (workflows db')" using assms(2) by simp
  show "Definition env (w_id wfl) db' = Inr def"
    using assms(3) by (auto simp: Definition_def WorkflowByID_def db' find_append split: option.splits)
qed

section \<open>A closed run is frozen\<close>

definition frozen :: "run_row \<Rightarrow> event_row list \<Rightarrow> db \<Rightarrow> bool" where
  "frozen r es db \<longleftrightarrow> tables_ok db \<and> run_by_id (r_id r) db = Some r \<and> r_completed_at r \<noteq> None
                     \<and> run_events (r_id r) db = es"

named_theorems frozen_keeps \<open>statements that keep \<open>frozen\<close>\<close>

text \<open>Statements that touch neither the runs nor the journal.\<close>

definition run_free :: "'a tx \<Rightarrow> bool" where
  "run_free m \<longleftrightarrow> (\<forall>db x db'. m db = Inr (x, db') \<longrightarrow> runs db' = runs db \<and> events db' = events db)"

lemma run_free_statements:
  "run_free (update_tasks c f)" "run_free (insert_task t)" "run_free (insert_workflow w)" "run_free (insert_worker k)"
  "run_free (update_workers e h)" "run_free (record_attempt a)" "run_free (insert_dead_letter l)"
  "run_free (upsert_artifact u)" "run_free (record_effect key rid name raw)"
  by (auto simp: run_free_def update_tasks_Inr insert_task_def insert_workflow_def insert_worker_def update_workers_def
      record_attempt_def insert_attempt_def insert_dead_letter_def upsert_artifact_def record_effect_def Let_def
      split: if_splits)

lemma frozen_run_free: "run_free m \<Longrightarrow> tx_keeps tables_ok m \<Longrightarrow> tx_keeps (frozen r es) m"
  by (rule tx_keepsI) (auto simp: frozen_def run_free_def run_by_id_def run_events_def dest: tx_keepsD)

lemma frozen_statements [frozen_keeps]:
  "keys_kept f \<Longrightarrow> tx_keeps (frozen r es) (update_tasks c f)"
  "keys_kept f \<Longrightarrow> tx_keeps (frozen r es) (update_tasks_returning c f)"
  "tx_keeps (frozen r es) (insert_task t)" "tx_keeps (frozen r es) (insert_workflow w)"
  "tx_keeps (frozen r es) (insert_worker k)" "tx_keeps (frozen r es) (record_attempt a)"
  "tx_keeps (frozen r es) (insert_dead_letter l)" "tx_keeps (frozen r es) (upsert_artifact u)"
  "tx_keeps (frozen r es) (record_effect key rid name raw)"
  "(\<And>x. wk_id (h x) = wk_id x) \<Longrightarrow> tx_keeps (frozen r es) (update_workers e h)"
  by (simp_all add: frozen_run_free run_free_statements tables_keeps tables_record_effect keeps_update_returning)

lemma frozen_insert_run [frozen_keeps]: "tx_keeps (frozen r es) (insert_run q)"
proof (rule tx_keepsI)
  fix db x db'
  assume f: "frozen r es db" and i: "insert_run q db = Inr (x, db')"
  have "tables_ok db'" using f i tx_keepsD [OF tables_insert_run] by (auto simp: frozen_def)
  with f i show "frozen r es db'"
    by (auto simp: frozen_def insert_run_def run_by_id_def run_events_def find_snoc split: if_splits)
qed

lemma run_find: "tables_ok db \<Longrightarrow> q \<in> set (runs db) \<Longrightarrow> run_by_id (r_id q) db = Some q"
  by (simp add: tables_ok_def run_by_id_def find_key_in)

lemma run_by_idD: "run_by_id rid db = Some r \<Longrightarrow> r \<in> set (runs db) \<and> r_id r = rid"
  by (auto simp: run_by_id_def dest: find_key_Some)

lemma frozen_update_runs:
  assumes "run_keys_kept g" and miss: "\<not> d r"
  shows "tx_keeps (frozen r es) (update_runs d g)"
proof (rule tx_keepsI)
  fix db n db'
  assume f: "frozen r es db" and u: "update_runs d g db = Inr (n, db')"
  then have db': "db' = db\<lparr>runs := sql_update d g (runs db)\<rparr>" by (simp add: update_runs_Inr)
  have "run_by_id (r_id r) db' = map_option (\<lambda>q. if d q then g q else q) (run_by_id (r_id r) db)"
    using assms(1) by (simp add: db' run_by_id_def find_sql_update run_keys_kept_def)
  moreover have "tables_ok db'" using f u tx_keepsD [OF tables_update_runs [OF assms(1)]] by (auto simp: frozen_def)
  ultimately show "frozen r es db'" using f miss by (auto simp: frozen_def db' run_events_def)
qed

lemma frozen_append [frozen_keeps]: "tx_keeps (frozen r es) (append now rid p m)"
proof (rule tx_keepsI)
  fix db x db'
  assume f: "frozen r es db" and a: "append now rid p m db = Inr (x, db')"
  have dist: "distinct (map r_id (runs db))" using f by (simp add: frozen_def tables_ok_def)
  from append_Inr [OF dist a] obtain q where q: "run_by_id rid db = Some q" "r_completed_at q = None"
    and db': "db' = (bump_seq rid db)\<lparr>events := events db @ [stored now rid p m (r_event_seq q + 1)]\<rparr>"
    by metis
  have ne: "rid \<noteq> r_id r" using f q by (auto simp: frozen_def)
  have "run_by_id (r_id r) db' = run_by_id (r_id r) (bump_seq rid db)" by (simp add: db' run_by_id_def)
  then have "run_by_id (r_id r) db' = Some r" using f ne by (auto simp: frozen_def run_by_id_bump)
  moreover have "tables_ok db'" using f a tx_keepsD [OF tables_append] by (auto simp: frozen_def)
  moreover have "run_events (r_id r) db' = es" using f ne by (simp add: frozen_def db' run_events_def stored_def)
  ultimately show "frozen r es db'" using f by (simp add: frozen_def)
qed

text \<open>A closed run has a terminal status, so no status-guarded update of the code hits it.\<close>

lemma frozen_terminal: "frozen r es db \<Longrightarrow> RunStatus_Terminal (r_status r)"
  by (auto simp: frozen_def tables_ok_def list_all_iff run_check_def dest!: run_by_idD)

lemma keeps_assume: "(\<And>db. I db \<Longrightarrow> tx_keeps I m) \<Longrightarrow> tx_keeps I m"
  unfolding tx_keeps_def by blast

lemma frozen_guard:
  assumes "run_keys_kept g" and "\<And>q. d q \<Longrightarrow> \<not> RunStatus_Terminal (r_status q)"
  shows "tx_keeps (frozen r es) (update_runs d g)"
  by (rule keeps_assume, rule frozen_update_runs [OF assms(1)]) (use assms(2) frozen_terminal in blast)

lemma frozen_guarded [frozen_keeps]:
  "tx_keeps (frozen r es) (update_runs (\<lambda>q. r_id q = rid \<and> r_status q = RunCreated) (\<lambda>q. q\<lparr>r_status := s\<rparr>))"
  "tx_keeps (frozen r es) (update_runs (\<lambda>q. r_id q = rid \<and> r_status q = RunQueued)
     (\<lambda>q. q\<lparr>r_status := s, r_started_at := a\<rparr>))"
  by (rule frozen_guard; auto)+

text \<open>The two operations that close a run look at its status first.\<close>

lemma keeps_bind_row:
  assumes "\<And>db x. I db \<Longrightarrow> f db = Some x \<Longrightarrow> tx_keeps I (k x)"
  shows "tx_keeps I (tx_bind (tx_row f) k)"
  by (rule tx_keepsI) (auto simp: tx_bind_Inr dest: assms tx_keepsD)

lemma frozen_close:
  assumes "frozen r es db" and "run_by_id rid db = Some q" and "\<not> RunStatus_Terminal (r_status q)"
  shows "tx_keeps (frozen r es) (update_runs (\<lambda>p. r_id p = rid)
    (\<lambda>p. p\<lparr>r_status := s, r_completed_at := c, r_failure_reason := w\<rparr>))"
proof -
  have "r_id r \<noteq> rid" using assms frozen_terminal [OF assms(1)] by (auto simp: frozen_def)
  then show ?thesis by (intro frozen_update_runs) auto
qed

lemma frozen_close_run [frozen_keeps]: "tx_keeps (frozen r es) (close_run rid now status p reason)"
  unfolding close_run_def
  by (intro keeps_bind_row keeps_if, intro keeps_rules)
    (intro keeps_bind keeps_check keeps_return frozen_keeps, rule frozen_close, auto)

lemma frozen_settleRun [frozen_keeps]: "tx_keeps (frozen r es) (settleRun rid now)"
  unfolding settleRun_def by (intro keeps_rules frozen_keeps)

lemma frozen_cancel: "tx_keeps (frozen r es) (cancel_tx rid reason now)"
  unfolding cancel_tx_def
  by (intro keeps_bind_row keeps_if, intro keeps_rules)
    (intro keeps_bind keeps_check keeps_return frozen_keeps keys_kept_updates, rule frozen_close, auto)

lemma frozen_operations:
  "tx_keeps (frozen r es) (create_run_tx env rid new_id wfl def opts seed now)"
  "tx_keeps (frozen r es) (claim_tx env locked now w ro limit)"
  "tx_keeps (frozen r es) (start_tx w task handler now)"
  "tx_keeps (frozen r es) (complete_tx env w task out now)"
  "tx_keeps (frozen r es) (skipped_tx task key now)"
  "tx_keeps (frozen r es) (expire_tx env locked now)"
  "tx_keeps (frozen r es) (sweep_tx env now)"
  "tx_keeps (frozen r es) (retire_tx env wid now)"
  "tx_keeps (frozen r es) (renew_tx env w ids now)"
  "tx_keeps (frozen r es) (promote_tx locked now limit)"
  "tx_keeps (frozen r es) (heartbeat_tx wid active now)"
  unfolding engine_tx_defs
  by (intro keeps_rules frozen_keeps keys_kept_updates; simp)+

lemma engine_tx_frozen: "engine_tx env db m \<Longrightarrow> tx_keeps (frozen r es) m"
  by (rule engine_tx_keeps [where I = "frozen r es"];
      (assumption | rule frozen_operations frozen_cancel frozen_keeps)?)

lemma closed_run_frozen:
  assumes "reachable env db" and "sys_step env db db'" and "run_by_id rid db = Some r" and "r_completed_at r \<noteq> None"
  shows "run_by_id rid db' = Some r \<and> run_events rid db' = run_events rid db"
proof -
  have rid: "r_id r = rid" using run_by_idD [OF assms(3)] by simp
  have f: "frozen r (run_events rid db) db"
    using assms tables.holds [OF assms(1)] rid by (simp add: frozen_def)
  from sys_step_tx [OF assms(2)] have "frozen r (run_events rid db) db'"
  proof
    assume "db' = db"
    with f show ?thesis by simp
  next
    assume "\<exists>m. engine_tx env db m \<and> m db = Inr ((), db')"
    then obtain m where m: "engine_tx env db m" "m db = Inr ((), db')" by blast
    show ?thesis by (rule tx_keepsD [OF engine_tx_frozen [OF m(1)] f m(2)])
  qed
  then show ?thesis using rid by (simp add: frozen_def)
qed

end
