(* ===== verification/Relab_Executor.thy ===== *)
theory Relab_Executor
  imports Relab_Fault Relab_History
begin

text \<open>
  The execution path of a claimed task: the handler's view of it (\<^verbatim>\<open>sdk/context.go\<close>,
  \<^verbatim>\<open>sdk/handler.go\<close>) and the executor of \<^verbatim>\<open>internal/engine/executor.go\<close>, which the worker
  and the in-process runner share.  A handler is a program that calls back into its task
  context; between any two transactions of the executor other processes may run, so the
  state carries what they do to the database and what the clock reads at each turn.
\<close>

section \<open>Handlers\<close>

text \<open>
  A Go error as far as \<^verbatim>\<open>errors.As\<close> and \<^verbatim>\<open>errors.Is\<close> look into it.
\<close>

datatype go_error =
    Plain string
  | PermanentError go_error
  | Wrapping string go_error
  | DeadlineExceeded
  | Canceled

fun error_text :: "go_error \<Rightarrow> string" where
  "error_text (Plain s) = s"
| "error_text (PermanentError e) = ''permanent: '' @ error_text e"
| "error_text (Wrapping s e) = s @ '': '' @ error_text e"
| "error_text DeadlineExceeded = ''context deadline exceeded''"
| "error_text Canceled = ''context canceled''"

definition Permanent :: "go_error option \<Rightarrow> go_error option" where
  "Permanent err = (case err of None \<Rightarrow> None | Some e \<Rightarrow> Some (PermanentError e))"

fun IsPermanent :: "go_error \<Rightarrow> bool" where
  "IsPermanent (PermanentError e) = True"
| "IsPermanent (Wrapping s e) = IsPermanent e"
| "IsPermanent _ = False"

fun is_deadline :: "go_error \<Rightarrow> bool" where
  "is_deadline DeadlineExceeded = True"
| "is_deadline (PermanentError e) = is_deadline e"
| "is_deadline (Wrapping s e) = is_deadline e"
| "is_deadline _ = False"

record task_context =
  tc_RunID :: uuid
  tc_TaskName :: string
  tc_Attempt :: int
  tc_WorkerID :: uuid
  tc_inputs :: "(string \<times> json option) list"

text \<open>
  \<^verbatim>\<open>Input\<close> fails for a step that is not an input and for an output that is absent or
  \<^verbatim>\<open>null\<close>; decoding into the caller's type is the handler's.
\<close>

definition Input :: "task_context \<Rightarrow> string \<Rightarrow> go_error + json" where
  "Input tc step =
     (case map_of (tc_inputs tc) step of
        None \<Rightarrow> Inl (Plain (''sdk: no input from step '' @ step))
      | Some raw \<Rightarrow>
          (case raw of
             None \<Rightarrow> Inl (Plain (''sdk: no output of step '' @ step))
           | Some j \<Rightarrow> if j = JNull then Inl (Plain (''sdk: no output of step '' @ step)) else Inr j))"

definition InputNames :: "task_context \<Rightarrow> string list" where
  "InputNames tc = map fst (tc_inputs tc)"

definition IdempotencyKey :: "env \<Rightarrow> uuid \<Rightarrow> string \<Rightarrow> string \<Rightarrow> string" where
  "IdempotencyKey env rid taskName op = env_uuid_String env rid @ '':'' @ taskName @ '':'' @ op"

text \<open>
  A handler as a program over its context.  \<open>CallDo op effect k\<close> is a call of \<^verbatim>\<open>tc.Do\<close>:
  \<open>effect\<close> is what the function passed to it returns if it is called at all.  \<open>Die\<close> is a
  handler that kills the process it runs in.
\<close>

datatype program =
    Return "go_error + any"
  | PanicWith string
  | Die
  | CallDo string "string + json" "go_error + json \<Rightarrow> program"
  | CallInput string "go_error + json \<Rightarrow> program"
  | CallEmit string string string program
  | CallEmitHashed string string string int program

text \<open>
  One invocation: the program, what its context and the context around it report when it
  ends, and how long it took.  A handler may depend on anything, so it takes the turn it
  is invoked at.
\<close>

record invocation =
  iv_program :: program
  iv_runCtx :: "go_error option"
  iv_ctx :: "go_error option"
  iv_duration :: duration

type_synonym handler = "nat \<Rightarrow> task_context \<Rightarrow> invocation"

type_synonym registry = "(string \<times> handler option) list"

datatype registry_error = EmptyHandlerName | NilHandler string | AlreadyRegistered string

definition Handle :: "string \<Rightarrow> handler option \<Rightarrow> registry \<Rightarrow> registry_error + registry" where
  "Handle name h r =
     (if name = [] then Inl EmptyHandlerName
      else if h = None then Inl (NilHandler name)
      else if map_of r name \<noteq> None then Inl (AlreadyRegistered name)
      else Inr ((name, h) # r))"

definition Registry_Lookup :: "registry \<Rightarrow> string \<Rightarrow> handler option" where
  "Registry_Lookup r name = (case map_of r name of None \<Rightarrow> None | Some h \<Rightarrow> h)"

definition Registry_Names :: "registry \<Rightarrow> string list" where
  "Registry_Names r = sort (remdups (map fst r))"

section \<open>The process and the processes around it\<close>

text \<open>
  A turn: what the other processes did since the last one, the clock, the machine, what the
  process's own context reports, and the task rows other transactions hold locked.
\<close>

record turn =
  tn_others :: "db \<Rightarrow> db"
  tn_now :: time
  tn_host :: host
  tn_ctx :: "go_error option"
  tn_locked :: "task_row \<Rightarrow> bool"

record world =
  w_db :: db
  w_source :: source
  w_turn :: "nat \<Rightarrow> turn"
  w_at :: nat
  w_invoked :: "(uuid \<times> int) list"

definition pass :: "world \<Rightarrow> world" where
  "pass w = w\<lparr>w_db := tn_others (w_turn w (w_at w)) (w_db w), w_at := Suc (w_at w)\<rparr>"

text \<open>One transaction or query of this process: the others run first, then the clock is read.\<close>

definition on_db :: "(time \<Rightarrow> db \<Rightarrow> 'a \<times> db) \<Rightarrow> world \<Rightarrow> 'a \<times> world" where
  "on_db f w =
     (case f (tn_now (w_turn w (w_at w))) (w_db (pass w)) of (x, db') \<Rightarrow> (x, (pass w)\<lparr>w_db := db'\<rparr>))"

record executor =
  ex_env :: env
  ex_registry :: registry
  ex_worker :: uuid
  ex_faults :: "scenario_lookup option option"
  ex_fault_text :: "fault_error \<Rightarrow> string"
  ex_source_text :: "source_error \<Rightarrow> string"
  ex_do_error :: "do_error \<Rightarrow> go_error"
  ex_duration_text :: "duration \<Rightarrow> string"
  ex_sha256 :: "string \<Rightarrow> string"

section \<open>Trigger points\<close>

definition point_recorder :: "uuid \<Rightarrow> world recorder" where
  "point_recorder rid f = on_db (\<lambda>now. recorder rid now f)"

text \<open>\<open>For\<close> asked through the database at the current turn.\<close>

definition source_for :: "scenario_lookup option \<Rightarrow> uuid \<Rightarrow> world \<Rightarrow> (source_error + bool) \<times> world" where
  "source_for scenarios rid w =
     (case Source_For scenarios rid (w_db (pass w)) (w_source w) of
        (r, s') \<Rightarrow> (r, (pass w)\<lparr>w_source := s'\<rparr>))"

definition trigger :: "executor \<Rightarrow> uuid \<Rightarrow> point \<Rightarrow> string \<Rightarrow> int \<Rightarrow> world \<Rightarrow> string outcome_of \<times> world" where
  "trigger x rid p taskName attempt w =
     (case ex_faults x of
        None \<Rightarrow> (Returns, w)
      | Some scenarios \<Rightarrow>
         (case source_for scenarios rid w of
            (Inl e, w1) \<Rightarrow> (Fails (ex_source_text x e), w1)
          | (Inr points, w1) \<Rightarrow>
             (case (if points then so_injectors (w_source w1) rid else None) of
                None \<Rightarrow> (Returns, w1)
              | Some i \<Rightarrow>
                 (case Point (Some (point_recorder rid)) (engine_chance (ex_env x)) (tn_host (w_turn w (w_at w)))
                         p taskName attempt (i, w1) of
                    (r, i', w2) \<Rightarrow>
                      ((case r of Returns \<Rightarrow> Returns | Killed \<Rightarrow> Killed | Fails e \<Rightarrow> Fails (ex_fault_text x e)),
                       w2\<lparr>w_source := (w_source w2)\<lparr>so_injectors := (so_injectors (w_source w2))(rid \<mapsto> i')\<rparr>\<rparr>)))))"

section \<open>Side effects\<close>

text \<open>
  The executor's ledger: \<open>Do\<close> of the ledger table, and a SIDE_EFFECT_SKIPPED in the journal
  when the effect was there already.  The others run between the lookup and the insert.
\<close>

datatype ledger_error = LedgerDo do_error | LedgerJournal error

definition ledger_Do :: "task \<Rightarrow> string \<Rightarrow> string + json \<Rightarrow> world \<Rightarrow> (ledger_error + json) \<times> world" where
  "ledger_Do task key effect w =
     (let w1 = pass w;
          w2 = (if Lookup key (w_db w1) = None then pass w1 else w1)
      in case Do_ledger key (t_run_id task) (t_name task) effect (w_db w1) (w_db w2) of
           ((Inl e, performed), db') \<Rightarrow> (Inl (LedgerDo e), w2\<lparr>w_db := db'\<rparr>)
         | ((Inr (result, skipped), performed), db') \<Rightarrow>
             if skipped then
               (case on_db (\<lambda>now. appendSideEffectSkipped task key now) (w2\<lparr>w_db := db'\<rparr>) of
                  (Inl e, w3) \<Rightarrow> (Inl (LedgerJournal e), w3)
                | (Inr _, w3) \<Rightarrow> (Inr result, w3))
             else (Inr result, w2\<lparr>w_db := db'\<rparr>))"

text \<open>\<^verbatim>\<open>tc.Do\<close> refuses an empty operation name before it asks the ledger.\<close>

definition tc_Do :: "executor \<Rightarrow> task \<Rightarrow> task_context \<Rightarrow> string \<Rightarrow> string + json \<Rightarrow> world \<Rightarrow> (go_error + json) \<times> world" where
  "tc_Do x task tc op effect w =
     (if op = [] then (Inl (Plain ''sdk: Do with an empty operation name''), w)
      else case ledger_Do task (IdempotencyKey (ex_env x) (tc_RunID tc) (tc_TaskName tc) op) effect w of
             (Inl (LedgerDo e), w') \<Rightarrow> (Inl (ex_do_error x e), w')
           | (Inl (LedgerJournal e), w') \<Rightarrow> (Inl (ex_do_error x (LedgerFailed e)), w')
           | (Inr j, w') \<Rightarrow> (Inr j, w'))"

definition Emit :: "(string \<Rightarrow> string) \<Rightarrow> string \<Rightarrow> string \<Rightarrow> string \<Rightarrow> artifact_record" where
  "Emit sha256 name contentType content =
     \<lparr>arec_Name = name, arec_SHA256 = sha256 content, arec_Size = int (length content), arec_ContentType = contentType\<rparr>"

definition EmitHashed :: "string \<Rightarrow> string \<Rightarrow> string \<Rightarrow> int \<Rightarrow> artifact_record" where
  "EmitHashed name contentType sha n =
     \<lparr>arec_Name = name, arec_SHA256 = sha, arec_Size = n, arec_ContentType = contentType\<rparr>"

text \<open>How a handler ended: nothing when the process died in it.\<close>

datatype ended = EndReturn "go_error + any" | EndPanic string

primrec perform :: "executor \<Rightarrow> task \<Rightarrow> task_context \<Rightarrow> program \<Rightarrow> artifact_record list \<Rightarrow> world \<Rightarrow> ended option \<times> artifact_record list \<times> world" where
  "perform x task tc (Return r) out w = (Some (EndReturn r), out, w)"
| "perform x task tc (PanicWith m) out w = (Some (EndPanic m), out, w)"
| "perform x task tc Die out w = (None, out, w)"
| "perform x task tc (CallDo op effect k) out w =
     (case tc_Do x task tc op effect w of (r, w') \<Rightarrow> perform x task tc (k r) out w')"
| "perform x task tc (CallInput step k) out w = perform x task tc (k (Input tc step)) out w"
| "perform x task tc (CallEmit name ct content p) out w =
     perform x task tc p (out @ [Emit (ex_sha256 x) name ct content]) w"
| "perform x task tc (CallEmitHashed name ct sha n p) out w =
     perform x task tc p (out @ [EmitHashed name ct sha n]) w"

section \<open>Invoking the handler\<close>

definition failed_outcome :: "string \<Rightarrow> bool \<Rightarrow> duration \<Rightarrow> artifact_record list \<Rightarrow> outcome" where
  "failed_outcome err permanent d as =
     \<lparr>o_Output = None, o_Artifacts = as, o_Err = Some err, o_Permanent = permanent, o_Duration = d\<rparr>"

definition marshalOutput :: "host \<Rightarrow> any \<Rightarrow> string + json option" where
  "marshalOutput h result =
     (if result = ANil then Inr None
      else case any_json h result of
             None \<Rightarrow> Inl ''handler output is not JSON-serialisable''
           | Some j \<Rightarrow> Inr (Some j))"

definition outcome_for :: "executor \<Rightarrow> host \<Rightarrow> duration \<Rightarrow> invocation \<Rightarrow> ended \<Rightarrow> artifact_record list \<Rightarrow> outcome" where
  "outcome_for x h timeout iv fin as =
     (case fin of
        EndPanic m \<Rightarrow> failed_outcome (''handler panicked: '' @ m) True (iv_duration iv) []
      | EndReturn (Inl err) \<Rightarrow>
          let err' = (if is_deadline err \<and> iv_runCtx iv \<noteq> None \<and> iv_ctx iv = None
                      then Wrapping (''task exceeded its '' @ ex_duration_text x timeout @ '' timeout'') err else err)
          in failed_outcome (error_text err') (IsPermanent err') (iv_duration iv) as
      | EndReturn (Inr result) \<Rightarrow>
          (case iv_runCtx iv of
             Some e \<Rightarrow> failed_outcome (error_text (Wrapping ''handler returned after its context ended'' e)) False (iv_duration iv) []
           | None \<Rightarrow>
              (case marshalOutput h result of
                 Inl err \<Rightarrow> failed_outcome err True (iv_duration iv) []
               | Inr output \<Rightarrow> \<lparr>o_Output = output, o_Artifacts = as, o_Err = None, o_Permanent = False,
                               o_Duration = iv_duration iv\<rparr>)))"

definition context_for :: "executor \<Rightarrow> claimed_task \<Rightarrow> task_context" where
  "context_for x c =
     \<lparr>tc_RunID = ct_RunID c, tc_TaskName = t_name (ct_Task c), tc_Attempt = t_attempt (ct_Task c),
      tc_WorkerID = ex_worker x, tc_inputs = ct_Inputs c\<rparr>"

definition invoke :: "executor \<Rightarrow> handler \<Rightarrow> claimed_task \<Rightarrow> world \<Rightarrow> outcome option \<times> world" where
  "invoke x handler c w =
     (let iv = handler (w_at w) (context_for x c);
          w1 = w\<lparr>w_invoked := w_invoked w @ [(t_id (ct_Task c), t_attempt (ct_Task c))]\<rparr>
      in case perform x (ct_Task c) (context_for x c) (iv_program iv) [] w1 of
           (fin, as, w2) \<Rightarrow> (map_option (\<lambda>f. outcome_for x (tn_host (w_turn w (w_at w))) (ct_Timeout c) iv f as) fin, w2))"

section \<open>Executing a task\<close>

definition complete :: "executor \<Rightarrow> task \<Rightarrow> outcome \<Rightarrow> world \<Rightarrow> error outcome_of \<times> world" where
  "complete x task out w =
     (case on_db (\<lambda>now. CompleteTask (ex_env x) (ex_worker x) task out now) w of
        (Inl e, w') \<Rightarrow> (Fails e, w') | (Inr _, w') \<Rightarrow> (Returns, w'))"

definition maybeDeliverTwice :: "executor \<Rightarrow> handler \<Rightarrow> claimed_task \<Rightarrow> world \<Rightarrow> error outcome_of \<times> world" where
  "maybeDeliverTwice x handler c w =
     (case ex_faults x of
        None \<Rightarrow> (Returns, w)
      | Some scenarios \<Rightarrow>
         (case source_for scenarios (ct_RunID c) w of
            (Inl e, w1) \<Rightarrow> (Returns, w1)
          | (Inr points, w1) \<Rightarrow>
             (case (if points then so_injectors (w_source w1) (ct_RunID c) else None) of
                None \<Rightarrow> (Returns, w1)
              | Some i \<Rightarrow>
                  if ShouldDuplicate i (t_name (ct_Task c)) (t_attempt (ct_Task c))
                  then (case invoke x handler c w1 of
                          (None, w2) \<Rightarrow> (Killed, w2)
                        | (Some _, w2) \<Rightarrow> (Returns, w2))
                  else (Returns, w1))))"

text \<open>The part of \<open>Execute\<close> after the handler returned.\<close>

definition acknowledge :: "executor \<Rightarrow> handler \<Rightarrow> claimed_task \<Rightarrow> outcome \<Rightarrow> world \<Rightarrow> error outcome_of \<times> world" where
  "acknowledge x handler c out w =
     (let task = ct_Task c;
          at_point = (\<lambda>p. trigger x (ct_RunID c) p (t_name task) (t_attempt task))
      in case at_point BeforeTaskAck w of
           (Killed, w1) \<Rightarrow> (Killed, w1)
         | (r, w1) \<Rightarrow>
             let out' = (case r of Fails e \<Rightarrow> if o_Err out = None then out\<lparr>o_Err := Some e\<rparr> else out | _ \<Rightarrow> out)
             in case complete x task out' w1 of
                  (Fails e, w2) \<Rightarrow> (Fails e, w2)
                | (_, w2) \<Rightarrow>
                    (case at_point AfterTaskFinish w2 of
                       (Killed, w3) \<Rightarrow> (Killed, w3)
                     | (_, w3) \<Rightarrow> maybeDeliverTwice x handler c w3))"

definition Execute :: "executor \<Rightarrow> claimed_task \<Rightarrow> world \<Rightarrow> error outcome_of \<times> world" where
  "Execute x c w =
     (let task = ct_Task c;
          at_point = (\<lambda>p. trigger x (ct_RunID c) p (t_name task) (t_attempt task))
      in case Registry_Lookup (ex_registry x) (ct_Handler c) of
           None \<Rightarrow> complete x task (failed_outcome (''handler '' @ ct_Handler c @ '' is not registered on this worker'') True 0 []) w
         | Some handler \<Rightarrow>
            (case at_point AfterTaskLease w of
               (Killed, w1) \<Rightarrow> (Killed, w1)
             | (Fails e, w1) \<Rightarrow> complete x task (failed_outcome e False 0 []) w1
             | (Returns, w1) \<Rightarrow>
                (case on_db (\<lambda>now. StartTask (ex_worker x) task (ct_Handler c) now) w1 of
                   (Inl e, w2) \<Rightarrow> (Fails e, w2)
                 | (Inr _, w2) \<Rightarrow>
                    (case at_point AfterTaskStart w2 of
                       (Killed, w3) \<Rightarrow> (Killed, w3)
                     | (Fails e, w3) \<Rightarrow> complete x task (failed_outcome e False 0 []) w3
                     | (Returns, w3) \<Rightarrow>
                        (case invoke x handler c w3 of
                           (None, w4) \<Rightarrow> (Killed, w4)
                         | (Some out, w4) \<Rightarrow> acknowledge x handler c out w4)))))"

section \<open>A copy stays a copy\<close>

named_theorems copy_keeps \<open>statements that keep \<open>copy_of_task\<close>\<close>

lemma copy_frame: "copy_of_task task db \<Longrightarrow> set (tasks db) \<subseteq> set (tasks db') \<Longrightarrow> copy_of_task task db'"
  by (auto simp: copy_of_task_def)

lemma copy_keys:
  "copy_of_task task db \<longleftrightarrow>
   (t_id task, t_run_id task, t_name task) \<in> set (map (\<lambda>t. (t_id t, t_run_id t, t_name t)) (tasks db))"
  by (simp add: copy_of_task_def image_iff) metis

lemma copy_update [copy_keeps]: "keys_kept f \<Longrightarrow> tx_keeps (copy_of_task task) (update_tasks c f)"
  unfolding copy_keys by (rule tx_keepsI) (simp add: update_tasks_Inr keys_kept_def map_sql_update del: set_map)

lemma copy_append [copy_keeps]: "tx_keeps (copy_of_task task) (append now rid p m)"
  by (rule tx_keepsI) (auto dest!: append_frame(1) elim: copy_frame)

lemma copy_statements [copy_keeps]:
  "tx_keeps (copy_of_task task) (update_runs d g)" "tx_keeps (copy_of_task task) (insert_run r)"
  "tx_keeps (copy_of_task task) (insert_task t)" "tx_keeps (copy_of_task task) (insert_workflow wfl)"
  "tx_keeps (copy_of_task task) (insert_worker k)" "tx_keeps (copy_of_task task) (update_workers e h)"
  "tx_keeps (copy_of_task task) (record_attempt a)" "tx_keeps (copy_of_task task) (insert_dead_letter l)"
  "tx_keeps (copy_of_task task) (upsert_artifact u)" "tx_keeps (copy_of_task task) (record_effect key rid name raw)"
  by (auto simp: update_runs_Inr insert_run_def insert_task_def insert_workflow_def
      insert_worker_def update_workers_def record_attempt_def insert_attempt_def insert_dead_letter_def
      upsert_artifact_def record_effect_def Let_def intro!: tx_keepsI elim!: copy_frame split: if_splits)

lemma copy_operations:
  "tx_keeps (copy_of_task q) (create_run_tx env rid new_id wfl def opts seed now)"
  "tx_keeps (copy_of_task q) (claim_tx env locked now w ro limit)"
  "tx_keeps (copy_of_task q) (start_tx w task handler now)"
  "tx_keeps (copy_of_task q) (complete_tx env w task out now)"
  "tx_keeps (copy_of_task q) (skipped_tx task key now)"
  "tx_keeps (copy_of_task q) (expire_tx env locked now)"
  "tx_keeps (copy_of_task q) (sweep_tx env now)"
  "tx_keeps (copy_of_task q) (retire_tx env wid now)"
  "tx_keeps (copy_of_task q) (renew_tx env w ids now)"
  "tx_keeps (copy_of_task q) (promote_tx locked now limit)"
  "tx_keeps (copy_of_task q) (cancel_tx rid reason now)"
  "tx_keeps (copy_of_task q) (heartbeat_tx wid load now)"
  unfolding engine_tx_defs closing_defs
  by (intro keeps_rules copy_keeps keeps_update_returning keys_kept_updates)+

lemma engine_tx_copy: "engine_tx env db m \<Longrightarrow> tx_keeps (copy_of_task q) m"
  by (rule engine_tx_keeps [where I = "copy_of_task q"]; (assumption | rule copy_operations copy_keeps)?)

lemma copy_step: "sys_step env db db' \<Longrightarrow> copy_of_task q db \<Longrightarrow> copy_of_task q db'"
  by (blast dest: sys_step_tx engine_tx_copy tx_keepsD)

lemma copy_steps: "(sys_step env)\<^sup>*\<^sup>* db db' \<Longrightarrow> copy_of_task q db \<Longrightarrow> copy_of_task q db'"
  by (induction rule: rtranclp_induct) (auto intro: copy_step)

lemma reachable_steps: "(sys_step env)\<^sup>*\<^sup>* db db' \<Longrightarrow> reachable env db \<Longrightarrow> reachable env db'"
  by (induction rule: rtranclp_induct) (auto intro: reachable.step)

section \<open>An execution is a sequence of steps\<close>

text \<open>The processes around the executor only run transactions of the engine.\<close>

definition others_ok :: "env \<Rightarrow> (nat \<Rightarrow> turn) \<Rightarrow> bool" where
  "others_ok env ts \<longleftrightarrow> (\<forall>n db. reachable env db \<longrightarrow> (sys_step env)\<^sup>*\<^sup>* db (tn_others (ts n) db))"

text \<open>\<open>moved env q w w'\<close>: from \<open>w\<close> on, only steps of the system were taken to reach \<open>w'\<close>.\<close>

definition moved :: "env \<Rightarrow> task \<Rightarrow> world \<Rightarrow> world \<Rightarrow> bool" where
  "moved env q w w' \<longleftrightarrow> w_turn w' = w_turn w
     \<and> (others_ok env (w_turn w) \<longrightarrow> reachable env (w_db w) \<longrightarrow> copy_of_task q (w_db w) \<longrightarrow>
         (sys_step env)\<^sup>*\<^sup>* (w_db w) (w_db w'))"

lemma moved_refl [simp]: "moved env q w w"
  by (simp add: moved_def)

lemma moved_trans: "moved env q w w' \<Longrightarrow> moved env q w' w'' \<Longrightarrow> moved env q w w''"
  unfolding moved_def by (metis copy_steps reachable_steps rtranclp_trans)

lemma moved_same: "w_turn w' = w_turn w \<Longrightarrow> w_db w' = w_db w \<Longrightarrow> moved env q w w'"
  by (simp add: moved_def)

lemma moved_pass: "moved env q w (pass w)"
  by (simp add: moved_def pass_def others_ok_def)

lemma moved_on_db:
  assumes "on_db f w = (x, w')" and "\<And>now db. copy_of_task q db \<Longrightarrow> sys_step env db (snd (f now db))"
  shows "moved env q w w'"
proof -
  let ?db = "w_db (pass w)" and ?now = "tn_now (w_turn w (w_at w))"
  have "w' = (pass w)\<lparr>w_db := snd (f ?now ?db)\<rparr>" using assms(1) by (auto simp: on_db_def split: prod.splits)
  then have "moved env q (pass w) w'" using assms(2) [of ?db ?now] by (auto simp: moved_def)
  with moved_pass show ?thesis by (rule moved_trans)
qed

text \<open>The injector touches the state around it through its recorder alone.\<close>

named_theorems moves \<open>what each part of an execution does is steps of the system\<close>

lemma moved_recorder: "point_recorder rid f w = (x, w') \<Longrightarrow> moved env q w w'"
  unfolding point_recorder_def by (erule moved_on_db) (simp add: recorder_def Let_def sys_step.inject)

interpretation moving: recording "point_recorder rid" "moved env q" for rid env q
  by unfold_locales (auto intro: moved_trans moved_recorder)

lemma moved_source_for [moves]: "source_for scs rid w = (x, w') \<Longrightarrow> moved env q w w'"
  by (auto simp: source_for_def split: prod.splits intro: moved_trans [OF moved_pass moved_same])

lemma moved_Point [moves]: "Point (Some (point_recorder rid)) ch h p t a (i, w) = (r, i', w') \<Longrightarrow> moved env q w w'"
  by (rule moving.Point_related)

lemma moved_trigger [moves]:
  assumes "trigger x rid p t a w = (r, w')"
  shows "moved env q w w'"
proof (cases "ex_faults x")
  case None
  with assms show ?thesis by (simp add: trigger_def)
next
  case (Some scs)
  obtain r1 w1 where s: "source_for scs rid w = (r1, w1)" by (metis prod.exhaust)
  have 1: "moved env q w w1" using moved_source_for [OF s] .
  have "moved env q w1 w'"
    using assms s Some
    by (auto simp: trigger_def split: sum.splits option.splits prod.splits if_splits
        intro: moved_trans [OF moved_Point moved_same])
  with 1 show ?thesis by (rule moved_trans)
qed

lemma moved_complete [moves]: "complete x q out w = (r, w') \<Longrightarrow> moved (ex_env x) q w w'"
  by (auto simp: complete_def split: prod.splits sum.splits elim!: moved_on_db intro: sys_step.complete)

lemma moved_start [moves]: "on_db (\<lambda>now. StartTask v q h now) w = (r, w') \<Longrightarrow> moved env q w w'"
  by (erule moved_on_db) (rule sys_step.start)

lemma moved_skip [moves]: "on_db (\<lambda>now. appendSideEffectSkipped q key now) w = (r, w') \<Longrightarrow> moved env q w w'"
  by (erule moved_on_db) (rule sys_step.skip_effect)

lemma Do_ledger_db:
  assumes "Do_ledger key rid t effect db db2 = (r, db')"
  shows "if Lookup key db = None then db' = db2 \<or> (\<exists>raw. db' = snd (InTx (record_effect key rid t raw) db2)) else db' = db"
  using assms by (auto simp: Do_ledger_def split: option.splits sum.splits prod.splits) (metis snd_conv)+

lemma moved_record: "w' = w\<lparr>w_db := snd (InTx (record_effect key rid t raw) (w_db w))\<rparr> \<Longrightarrow> moved env q w w'"
  by (auto simp: moved_def intro: sys_step.record_effect)

lemma moved_written:
  assumes "w2 = (if Lookup key (w_db (pass w)) = None then pass (pass w) else pass w)"
    and d: "Do_ledger key (t_run_id q) (t_name q) effect (w_db (pass w)) (w_db w2) = (r1, db1)"
  shows "moved env q w (w2\<lparr>w_db := db1\<rparr>)"
proof -
  have "moved env q w w2" using moved_trans [OF moved_pass moved_pass] moved_pass assms(1) by simp
  moreover have "moved env q w2 (w2\<lparr>w_db := db1\<rparr>)"
    using Do_ledger_db [OF d] moved_record moved_same [of "w2\<lparr>w_db := db1\<rparr>" w2] assms(1) by (auto split: if_splits)
  ultimately show ?thesis by (rule moved_trans)
qed

lemma moved_ledger [moves]:
  assumes "ledger_Do q key effect w = (r, w')"
  shows "moved env q w w'"
proof -
  define w2 where "w2 = (if Lookup key (w_db (pass w)) = None then pass (pass w) else pass w)"
  obtain r1 db1 where d: "Do_ledger key (t_run_id q) (t_name q) effect (w_db (pass w)) (w_db w2) = (r1, db1)"
    by (metis prod.exhaust)
  have "moved env q (w2\<lparr>w_db := db1\<rparr>) w'"
    using assms d by (auto simp: ledger_Do_def Let_def w2_def [symmetric] split: prod.splits sum.splits if_splits
        intro: moved_skip moved_refl)
  with moved_written [OF w2_def d] show ?thesis by (rule moved_trans)
qed

lemma moved_tc_Do [moves]: "tc_Do x q tc op effect w = (r, w') \<Longrightarrow> moved env q w w'"
  by (auto simp: tc_Do_def split: if_splits prod.splits sum.splits ledger_error.splits intro: moved_ledger)

lemma moved_perform [moves]: "perform x q tc pr out w = (fin, as, w') \<Longrightarrow> moved env q w w'"
proof (induction pr arbitrary: out w)
  case (CallDo op effect k)
  obtain r w1 where d: "tc_Do x q tc op effect w = (r, w1)" by (metis prod.exhaust)
  with CallDo.prems have "perform x q tc (k r) out w1 = (fin, as, w')" by simp
  then have "moved env q w1 w'" using CallDo.IH [of "k r"] by blast
  with moved_tc_Do [OF d] show ?case by (rule moved_trans)
next
  case (CallInput step k)
  then show ?case using CallInput.IH [of "k (Input tc step)"] by auto
qed auto

lemma moved_invoke [moves]:
  assumes "invoke x h c w = (out, w')"
  shows "moved env (ct_Task c) w w'"
proof -
  let ?w1 = "w\<lparr>w_invoked := w_invoked w @ [(t_id (ct_Task c), t_attempt (ct_Task c))]\<rparr>"
  from assms obtain fin as where
    "perform x (ct_Task c) (context_for x c) (iv_program (h (w_at w) (context_for x c))) [] ?w1 = (fin, as, w')"
    by (auto simp: invoke_def Let_def split: prod.splits)
  then have "moved env (ct_Task c) ?w1 w'" by (rule moved_perform)
  moreover have "moved env (ct_Task c) w ?w1" by (simp add: moved_same)
  ultimately show ?thesis by (blast intro: moved_trans)
qed

lemma moved_twice [moves]:
  assumes "maybeDeliverTwice x h c w = (r, w')"
  shows "moved env (ct_Task c) w w'"
proof (cases "ex_faults x")
  case None
  with assms show ?thesis by (simp add: maybeDeliverTwice_def)
next
  case (Some scs)
  obtain r1 w1 where s: "source_for scs (ct_RunID c) w = (r1, w1)" by (metis prod.exhaust)
  obtain out w2 where i: "invoke x h c w1 = (out, w2)" by (metis prod.exhaust)
  have "w' = w1 \<or> w' = w2"
    using assms s Some i by (auto simp: maybeDeliverTwice_def split: sum.splits option.splits if_splits)
  then have "moved env (ct_Task c) w1 w'" using moved_invoke [OF i] by auto
  with moved_source_for [OF s] show ?thesis by (rule moved_trans)
qed

lemma moved_acknowledge [moves]:
  assumes "acknowledge x h c out w = (r, w')"
  shows "moved (ex_env x) (ct_Task c) w w'"
proof -
  let ?q = "ct_Task c"
  obtain r1 w1 where t1: "trigger x (ct_RunID c) BeforeTaskAck (t_name ?q) (t_attempt ?q) w = (r1, w1)" by (metis prod.exhaust)
  let ?out = "case r1 of Fails e \<Rightarrow> if o_Err out = None then out\<lparr>o_Err := Some e\<rparr> else out | _ \<Rightarrow> out"
  obtain r2 w2 where t2: "complete x ?q ?out w1 = (r2, w2)" by (metis prod.exhaust)
  obtain r3 w3 where t3: "trigger x (ct_RunID c) AfterTaskFinish (t_name ?q) (t_attempt ?q) w2 = (r3, w3)" by (metis prod.exhaust)
  obtain r4 w4 where t4: "maybeDeliverTwice x h c w3 = (r4, w4)" by (metis prod.exhaust)
  have m: "moved (ex_env x) ?q w w1" "moved (ex_env x) ?q w1 w2" "moved (ex_env x) ?q w2 w3"
    "moved (ex_env x) ?q w3 w4"
    by (rule moved_trigger [OF t1] moved_complete [OF t2] moved_trigger [OF t3] moved_twice [OF t4])+
  have "w' = w1 \<or> w' = w2 \<or> w' = w3 \<or> w' = w4"
    using assms t1 t2 t3 t4 by (auto simp: acknowledge_def Let_def split: outcome_of.splits)
  then show ?thesis using m by (metis moved_trans)
qed

lemma moved_Execute [moves]:
  assumes "Execute x c w = (r, w')"
  shows "moved (ex_env x) (ct_Task c) w w'"
proof (cases "Registry_Lookup (ex_registry x) (ct_Handler c)")
  case None
  with assms moved_complete show ?thesis by (auto simp: Execute_def Let_def)
next
  case (Some h)
  let ?q = "ct_Task c" and ?E = "ex_env x"
  obtain r1 w1 where t1: "trigger x (ct_RunID c) AfterTaskLease (t_name ?q) (t_attempt ?q) w = (r1, w1)" by (metis prod.exhaust)
  obtain r2 w2 where t2: "on_db (\<lambda>now. StartTask (ex_worker x) ?q (ct_Handler c) now) w1 = (r2, w2)" by (metis prod.exhaust)
  obtain r3 w3 where t3: "trigger x (ct_RunID c) AfterTaskStart (t_name ?q) (t_attempt ?q) w2 = (r3, w3)" by (metis prod.exhaust)
  obtain out w4 where t4: "invoke x h c w3 = (out, w4)" by (metis prod.exhaust)
  have m: "moved ?E ?q w w1" "moved ?E ?q w1 w2" "moved ?E ?q w2 w3" "moved ?E ?q w3 w4"
    by (rule moved_trigger [OF t1] moved_start [OF t2] moved_trigger [OF t3] moved_invoke [OF t4])+
  have "w' = w1 \<or> w' = w2 \<or> w' = w3 \<or> (\<exists>o'. complete x ?q o' w1 = (r, w')) \<or> (\<exists>o'. complete x ?q o' w3 = (r, w'))
      \<or> w' = w4 \<or> (\<exists>o'. acknowledge x h c o' w4 = (r, w'))"
    using assms t1 t2 t3 t4 Some by (auto simp: Execute_def Let_def split: outcome_of.splits sum.splits option.splits)
  then have "moved ?E ?q w1 w' \<or> moved ?E ?q w3 w' \<or> moved ?E ?q w4 w' \<or> moved ?E ?q w2 w'"
    using moved_complete moved_acknowledge by fastforce
  then show ?thesis using m by (metis moved_trans)
qed

section \<open>Effects are kept\<close>

text \<open>The ledger only grows, so a result that was returned once is returned ever after.\<close>

definition ledger_extends :: "effect_row list \<Rightarrow> db \<Rightarrow> bool" where
  "ledger_extends ss db \<longleftrightarrow> (\<exists>new. side_effects db = ss @ new)"

interpretation effects_kept: statement_invariant "ledger_extends ss" for ss
  by unfold_locales
    (auto simp: ledger_extends_def statement_defs Let_def tx_bind_Inr intro!: tx_keepsI split: if_splits option.splits)

lemma result_step: "sys_step env db db' \<Longrightarrow> result_of key db = Some j \<Longrightarrow> result_of key db' = Some j"
  using effects_kept.step [of env db db' "side_effects db"]
  by (auto simp: ledger_extends_def result_of_def Lookup_def find_append)

lemma result_steps: "(sys_step env)\<^sup>*\<^sup>* db db' \<Longrightarrow> result_of key db = Some j \<Longrightarrow> result_of key db' = Some j"
  by (induction rule: rtranclp_induct) (auto intro: result_step)

lemma Do_ledger_result:
  assumes "Do_ledger key rid t effect db db2 = ((Inr (j, skipped), performed), db')"
  shows "result_of key db' = Some j" and "result_of key db = Some i \<Longrightarrow> j = i \<and> skipped \<and> \<not> performed \<and> db' = db"
proof -
  have "Lookup key db2 = None" if "key \<notin> se_key ` set (side_effects db2)"
    using that by (simp add: Lookup_def find_key_None)
  then show "result_of key db' = Some j" using assms
    by (auto simp: Do_ledger_def result_of_def InTx_def record_effect_def Lookup_snoc
        split: option.splits sum.splits prod.splits if_splits)
  show "result_of key db = Some i \<Longrightarrow> j = i \<and> skipped \<and> \<not> performed \<and> db' = db"
    using assms by (auto simp: Do_ledger_def result_of_def)
qed

text \<open>An effect on record is not performed again: what the function would return does not matter.\<close>

lemma ledger_known:
  assumes "result_of key (w_db (pass w)) = Some j"
  shows "ledger_Do q key effect w = ledger_Do q key effect' w" and "ledger_Do q key effect w = (Inr i, w') \<Longrightarrow> i = j"
proof -
  obtain s where s: "Lookup key (w_db (pass w)) = Some s" "se_result s = j" using assms by (auto simp: result_of_def)
  show "ledger_Do q key effect w = ledger_Do q key effect' w" by (simp add: ledger_Do_def Do_ledger_def s)
  show "ledger_Do q key effect w = (Inr i, w') \<Longrightarrow> i = j"
    by (auto simp: ledger_Do_def Do_ledger_def s split: sum.splits prod.splits)
qed

section \<open>Invocations\<close>

text \<open>Nothing but \<open>invoke\<close> invokes a handler.\<close>

lemma invoked_on_db: "on_db f w = (y, w') \<Longrightarrow> w_invoked w' = w_invoked w"
  by (auto simp: on_db_def pass_def split: prod.splits)

interpretation uninvoked: recording "point_recorder rid" "\<lambda>w w'. w_invoked w' = w_invoked w" for rid
  by unfold_locales (auto simp: point_recorder_def dest: invoked_on_db)

lemma invoked_trigger: "trigger x rid p t a w = (r, w') \<Longrightarrow> w_invoked w' = w_invoked w"
  by (auto simp: trigger_def source_for_def pass_def dest!: uninvoked.Point_related
      split: option.splits sum.splits prod.splits if_splits)

lemma invoked_perform: "perform x q tc pr out w = (fin, as, w') \<Longrightarrow> w_invoked w' = w_invoked w"
proof (induction pr arbitrary: out w)
  case (CallDo op effect k)
  obtain r w1 where d: "tc_Do x q tc op effect w = (r, w1)" by (metis prod.exhaust)
  then have "w_invoked w1 = w_invoked w"
    by (auto simp: tc_Do_def ledger_Do_def Let_def pass_def dest!: invoked_on_db
        split: if_splits prod.splits sum.splits ledger_error.splits)
  with CallDo.prems CallDo.IH [of "k r"] d show ?case by auto
next
  case (CallInput step k)
  then show ?case using CallInput.IH [of "k (Input tc step)"] by auto
qed auto

lemma invoked_invoke: "invoke x h c w = (out, w') \<Longrightarrow> w_invoked w' = w_invoked w @ [(t_id (ct_Task c), t_attempt (ct_Task c))]"
  by (auto simp: invoke_def Let_def split: prod.splits dest!: invoked_perform)

lemma invoked_complete: "complete x q out w = (r, w') \<Longrightarrow> w_invoked w' = w_invoked w"
  by (auto simp: complete_def split: prod.splits sum.splits dest: invoked_on_db)

lemma invoked_source_for: "source_for scs rid w = (r, w') \<Longrightarrow> w_invoked w' = w_invoked w"
  by (auto simp: source_for_def pass_def split: prod.splits)

lemma invoked_twice:
  assumes "maybeDeliverTwice x h c w = (r, w')"
  shows "w_invoked w' = w_invoked w
   \<or> (ex_faults x \<noteq> None \<and> w_invoked w' = w_invoked w @ [(t_id (ct_Task c), t_attempt (ct_Task c))])"
proof (cases "ex_faults x")
  case None
  with assms show ?thesis by (simp add: maybeDeliverTwice_def)
next
  case (Some scs)
  obtain r1 w1 where s: "source_for scs (ct_RunID c) w = (r1, w1)" by (metis prod.exhaust)
  obtain out w2 where i: "invoke x h c w1 = (out, w2)" by (metis prod.exhaust)
  have "w' = w1 \<or> w' = w2"
    using assms s Some i by (auto simp: maybeDeliverTwice_def split: sum.splits option.splits if_splits)
  then show ?thesis using Some invoked_source_for [OF s] invoked_invoke [OF i] by auto
qed

text \<open>What the end of an execution adds: a completion first, then at most one more delivery.\<close>

lemma acknowledge_cases:
  assumes "acknowledge x h c out w = (r, w')"
  shows "w_invoked w' = w_invoked w
    \<or> (ex_faults x \<noteq> None \<and> w_invoked w' = w_invoked w @ [(t_id (ct_Task c), t_attempt (ct_Task c))])"
proof -
  let ?q = "ct_Task c"
  obtain r1 w1 where t1: "trigger x (ct_RunID c) BeforeTaskAck (t_name ?q) (t_attempt ?q) w = (r1, w1)" by (metis prod.exhaust)
  let ?out = "case r1 of Fails e \<Rightarrow> if o_Err out = None then out\<lparr>o_Err := Some e\<rparr> else out | _ \<Rightarrow> out"
  obtain r2 w2 where t2: "complete x ?q ?out w1 = (r2, w2)" by (metis prod.exhaust)
  obtain r3 w3 where t3: "trigger x (ct_RunID c) AfterTaskFinish (t_name ?q) (t_attempt ?q) w2 = (r3, w3)" by (metis prod.exhaust)
  obtain r4 w4 where t4: "maybeDeliverTwice x h c w3 = (r4, w4)" by (metis prod.exhaust)
  have i: "w_invoked w1 = w_invoked w" "w_invoked w2 = w_invoked w" "w_invoked w3 = w_invoked w"
    using invoked_trigger [OF t1] invoked_complete [OF t2] invoked_trigger [OF t3] by auto
  have "w' = w1 \<or> w' = w2 \<or> w' = w3 \<or> w' = w4"
    using assms t1 t2 t3 t4 by (auto simp: acknowledge_def Let_def split: outcome_of.splits)
  then show ?thesis using i invoked_twice [OF t4] by metis
qed

lemma Execute_invoked:
  assumes "Execute x c w = (r, w')" and "w_invoked w' \<noteq> w_invoked w"
  shows "\<exists>w1 w2 n. moved (ex_env x) (ct_Task c) w w1
    \<and> on_db (\<lambda>now. StartTask (ex_worker x) (ct_Task c) (ct_Handler c) now) w1 = (Inr (), w2)
    \<and> moved (ex_env x) (ct_Task c) w2 w'
    \<and> w_invoked w2 = w_invoked w
    \<and> w_invoked w' = w_invoked w @ replicate n (t_id (ct_Task c), t_attempt (ct_Task c))
    \<and> (n = 1 \<or> n = 2 \<and> ex_faults x \<noteq> None)"
proof -
  let ?q = "ct_Task c" and ?E = "ex_env x"
  obtain h where h: "Registry_Lookup (ex_registry x) (ct_Handler c) = Some h"
    using assms invoked_complete by (cases "Registry_Lookup (ex_registry x) (ct_Handler c)") (auto simp: Execute_def Let_def)
  obtain r1 w1 where t1: "trigger x (ct_RunID c) AfterTaskLease (t_name ?q) (t_attempt ?q) w = (r1, w1)" by (metis prod.exhaust)
  obtain r2 w2 where t2: "on_db (\<lambda>now. StartTask (ex_worker x) ?q (ct_Handler c) now) w1 = (r2, w2)" by (metis prod.exhaust)
  obtain r3 w3 where t3: "trigger x (ct_RunID c) AfterTaskStart (t_name ?q) (t_attempt ?q) w2 = (r3, w3)" by (metis prod.exhaust)
  obtain out w4 where t4: "invoke x h c w3 = (out, w4)" by (metis prod.exhaust)
  have i: "w_invoked w1 = w_invoked w" "w_invoked w2 = w_invoked w" "w_invoked w3 = w_invoked w"
    using invoked_trigger [OF t1] invoked_trigger [OF t3] invoked_on_db [OF t2] by auto
  have "w' = w1 \<or> w' = w2 \<or> w' = w3 \<or> (\<exists>o'. complete x ?q o' w1 = (r, w')) \<or> (\<exists>o'. complete x ?q o' w3 = (r, w'))
      \<or> (w' = w4 \<or> (\<exists>o'. acknowledge x h c o' w4 = (r, w'))) \<and> r2 = Inr ()"
    using assms(1) t1 t2 t3 t4 h by (auto simp: Execute_def Let_def split: outcome_of.splits sum.splits option.splits)
  then have a: "w' = w4 \<or> (\<exists>o'. acknowledge x h c o' w4 = (r, w'))" and r2: "r2 = Inr ()"
    using assms(2) i invoked_complete by fastforce+
  have m4: "moved ?E ?q w4 w'" using a moved_acknowledge by fastforce
  have m: "moved ?E ?q w w1" "moved ?E ?q w2 w'"
    by (rule moved_trigger [OF t1] moved_trans [OF moved_trigger [OF t3] moved_trans [OF moved_invoke [OF t4] m4]])+
  have "w_invoked w' = w_invoked w4 \<or> (ex_faults x \<noteq> None \<and> w_invoked w' = w_invoked w4 @ [(t_id ?q, t_attempt ?q)])"
    using a acknowledge_cases by metis
  then have "\<exists>n. w_invoked w' = w_invoked w @ replicate n (t_id ?q, t_attempt ?q) \<and> (n = 1 \<or> n = 2 \<and> ex_faults x \<noteq> None)"
    using invoked_invoke [OF t4] i
    by (auto intro: exI [of _ "1::nat"] exI [of _ "2::nat"] simp: numeral_2_eq_2)
  then show ?thesis using m t2 [unfolded r2] i(2) by blast
qed

section \<open>Claims\<close>

text \<open>
  An attempt is recorded as a success exactly when the handler returned without an error
  or a panic, before its context ended, and with an output JSON can represent.
\<close>

lemma outcome_success_exact:
  "o_Err (outcome_for x h timeout iv fin as) = None \<longleftrightarrow>
     (\<exists>v j. fin = EndReturn (Inr v) \<and> iv_runCtx iv = None \<and> marshalOutput h v = Inr j)"
  by (auto simp: outcome_for_def failed_outcome_def Let_def split: ended.splits sum.splits option.splits)

end
