(* ===== verification/Relab_Graph.thy ===== *)
theory Relab_Graph
  imports Relab_Workflow
begin

text \<open>
  Correctness of the two graph searches of the scheduler: the cycle search of
  \<open>validate\<close> (it always returns, finds a genuine cycle or certifies that there is none)
  and the forward search of \<open>descendants\<close>.
\<close>

section \<open>The depth-first search\<close>

definition edges :: "(string \<Rightarrow> string list) \<Rightarrow> (string \<times> string) set" where
  "edges deps = {(n, m). m \<in> set (deps n)}"

definition coloured :: "colour \<Rightarrow> colouring \<Rightarrow> string set" where
  "coloured k c = {n. colour_of c n = k}"

lemma colour_of_update [simp]: "colour_of (AList.update n k c) m = (if m = n then k else colour_of c m)"
  by (simp add: colour_of_def update_conv')

lemma colour_of_Nil [simp]: "colour_of [] n = White"
  by (simp add: colour_of_def)

text \<open>
  What holds between two steps of the search: the grey nodes are exactly the current path,
  the path follows dependency edges without repetition, and the black part of the graph is
  closed and free of cycles.
\<close>

definition dfs_inv :: "string set \<Rightarrow> (string \<Rightarrow> string list) \<Rightarrow> colouring \<Rightarrow> string list \<Rightarrow> bool" where
  "dfs_inv N deps c path \<longleftrightarrow>
     coloured Grey c = set path \<and> distinct path \<and> set path \<subseteq> N
     \<and> successively (\<lambda>n m. m \<in> set (deps n)) path
     \<and> (\<forall>n\<in>coloured Black c. set (deps n) \<subseteq> coloured Black c)
     \<and> acyclic (edges deps \<inter> (coloured Black c \<times> UNIV))"

definition genuine_cycle :: "(string \<Rightarrow> string list) \<Rightarrow> string list \<Rightarrow> bool" where
  "genuine_cycle deps cyc \<longleftrightarrow>
     (\<exists>x mid. cyc = x # mid @ [x]) \<and> successively (\<lambda>n m. m \<in> set (deps n)) cyc"

lemma close_cycle_genuine:
  assumes path: "successively (\<lambda>n m. m \<in> set (deps n)) path" and dep: "dep \<in> set path"
    and edge: "dep \<in> set (deps (last path))"
  shows "genuine_cycle deps (close_cycle path dep)"
proof -
  let ?d = "dropWhile (\<lambda>n. n \<noteq> dep) path"
  have ne: "?d \<noteq> []" using dep by (simp add: dropWhile_eq_Nil_conv)
  then obtain rest where rest: "?d = dep # rest"
    using hd_dropWhile [OF ne] by (cases ?d) auto
  have split: "path = takeWhile (\<lambda>n. n \<noteq> dep) path @ ?d" by simp
  have succ: "successively (\<lambda>n m. m \<in> set (deps n)) ?d"
    using path split by (metis successively_append_iff)
  have last: "last ?d = last path" using ne split by (metis last_appendR)
  have "successively (\<lambda>n m. m \<in> set (deps n)) (?d @ [dep])"
    using succ edge last ne by (simp add: successively_append_iff)
  moreover have "close_cycle path dep = dep # rest @ [dep]" using dep rest by (simp add: close_cycle_def)
  ultimately show ?thesis using dep rest by (auto simp: genuine_cycle_def close_cycle_def)
qed

text \<open>Painting a node black once all it depends on is black keeps the black part acyclic.\<close>

lemma acyclic_black_insert:
  assumes ac: "acyclic (E \<inter> (B \<times> UNIV))" and closed: "\<And>b. b \<in> B \<Longrightarrow> E `` {b} \<subseteq> B"
    and new: "n \<notin> B" and deps: "E `` {n} \<subseteq> B"
  shows "acyclic (E \<inter> (insert n B \<times> UNIV))"
proof (rule acyclicI, intro allI notI)
  let ?E = "E \<inter> (insert n B \<times> UNIV)"
  have stay: "y \<in> B \<and> (x, y) \<in> (E \<inter> (B \<times> UNIV))\<^sup>+" if "(x, y) \<in> ?E\<^sup>+" "x \<in> B" for x y
    using that
  proof (induction rule: trancl_induct)
    case (base y)
    then show ?case using closed by auto
  next
    case (step y z)
    then have "(y, z) \<in> E \<inter> (B \<times> UNIV)" "y \<in> B" by auto
    with step show ?case using closed by (auto intro: trancl_into_trancl)
  qed
  fix x assume cyc: "(x, x) \<in> ?E\<^sup>+"
  show False
  proof (cases "x \<in> B")
    case True
    with cyc stay have "(x, x) \<in> (E \<inter> (B \<times> UNIV))\<^sup>+" by blast
    with ac show False by (auto simp: acyclic_def)
  next
    case False
    from cyc obtain y where "(x, y) \<in> ?E" and rest: "(y, x) \<in> ?E\<^sup>*" by (meson tranclD)
    then have "y \<in> B" using deps closed False by auto
    with rest have "x = y \<or> (y, x) \<in> ?E\<^sup>+" by (auto dest: rtranclD)
    with \<open>y \<in> B\<close> False stay show False by blast
  qed
qed

text \<open>
  One call of \<open>walk\<close> and of \<open>walk_deps\<close>: with enough fuel they return; a reported cycle
  is genuine; without one, the path is restored, every node they were asked about is black
  and the invariant holds again.
\<close>

definition dfs_post :: "string set \<Rightarrow> (string \<Rightarrow> string list) \<Rightarrow> string set \<Rightarrow> colouring \<Rightarrow> string list
    \<Rightarrow> (string list option \<times> colouring \<times> string list) option \<Rightarrow> bool" where
  "dfs_post N deps done c path res \<longleftrightarrow>
     (case res of
        None \<Rightarrow> False
      | Some (Some cyc, c', path') \<Rightarrow> genuine_cycle deps cyc
      | Some (None, c', path') \<Rightarrow>
          path' = path \<and> dfs_inv N deps c' path \<and> done \<union> coloured Black c \<subseteq> coloured Black c')"

lemma dfs_correct:
  assumes fin: "finite N"
  shows "\<forall>n\<in>N. set (deps n) \<subseteq> N \<Longrightarrow> name \<in> N \<Longrightarrow> colour_of c name = White \<Longrightarrow> dfs_inv N deps c path \<Longrightarrow>
           path = [] \<or> name \<in> set (deps (last path)) \<Longrightarrow> card N < fuel + length path \<Longrightarrow>
           dfs_post N deps {name} c path (walk fuel deps name c path)"
    and "\<forall>n\<in>N. set (deps n) \<subseteq> N \<Longrightarrow> set ds \<subseteq> N \<Longrightarrow> dfs_inv N deps c path \<Longrightarrow> path \<noteq> [] \<Longrightarrow> set ds \<subseteq> set (deps (last path)) \<Longrightarrow>
           card N < fuel + length path \<Longrightarrow>
           dfs_post N deps (set ds) c path (walk_deps fuel deps ds c path)"
proof (induction fuel deps name c path and fuel deps ds c path rule: walk_walk_deps.induct)
  case (1 deps name c path)
  then have "card (set path) \<le> card N" by (auto simp: dfs_inv_def intro: card_mono fin)
  with 1 show ?case by (simp add: dfs_inv_def distinct_card)
next
  case (2 fuel deps name c path)
  note prems = "2.prems"
  let ?c = "AList.update name Grey c" and ?p = "path @ [name]"
  have "name \<notin> coloured Grey c" using prems(3) by (simp add: coloured_def)
  then have fresh: "name \<notin> set path" using prems(4) by (simp add: dfs_inv_def)
  have black: "coloured Black ?c = coloured Black c" using prems(3) by (auto simp: coloured_def)
  have "dfs_inv N deps ?c ?p"
    using prems fresh black unfolding dfs_inv_def
    by (auto simp: coloured_def successively_append_iff)
  with prems have post: "dfs_post N deps (set (deps name)) ?c ?p
      (walk_deps fuel deps (deps name) ?c ?p)"
    by (intro "2.IH") auto
  show ?case
  proof (cases "walk_deps fuel deps (deps name) ?c ?p")
    case None
    with post show ?thesis by (simp add: dfs_post_def)
  next
    case (Some res)
    obtain r c' p' where res: "res = (r, c', p')" by (cases res)
    show ?thesis
    proof (cases r)
      case (Some cyc)
      with post res \<open>walk_deps _ _ _ _ _ = Some res\<close> show ?thesis by (simp add: dfs_post_def)
    next
      case None
      with post res Some have p': "p' = ?p" and inv: "dfs_inv N deps c' ?p"
        and grow: "set (deps name) \<union> coloured Black c \<subseteq> coloured Black c'"
        using black by (simp_all add: dfs_post_def)
      have grey: "name \<in> coloured Grey c'" using inv by (simp add: dfs_inv_def)
      then have notblack: "name \<notin> coloured Black c'" by (simp add: coloured_def)
      have B: "coloured Black (AList.update name Black c') = insert name (coloured Black c')"
        by (auto simp: coloured_def)
      have G: "coloured Grey (AList.update name Black c') = set path"
        using inv fresh by (auto simp: dfs_inv_def coloured_def)
      have "acyclic (edges deps \<inter> (insert name (coloured Black c') \<times> UNIV))"
        using inv notblack grow by (intro acyclic_black_insert) (auto simp: dfs_inv_def edges_def)
      then have "dfs_inv N deps (AList.update name Black c') path"
        using inv grow unfolding dfs_inv_def B G by (auto simp: successively_append_iff)
      with None res p' Some grow B show ?thesis by (auto simp: dfs_post_def)
    qed
  qed
next
  case (3 fuel deps c path)
  then show ?case by (simp add: dfs_post_def)
next
  case (4 fuel deps dep ds c path)
  note prems = "4.prems"
  show ?case
  proof (cases "colour_of c dep")
    case Grey
    then have "dep \<in> set path" using prems by (auto simp: dfs_inv_def coloured_def)
    with Grey prems show ?thesis by (auto simp: dfs_post_def dfs_inv_def intro: close_cycle_genuine)
  next
    case Black
    with prems have "dfs_post N deps (set ds) c path (walk_deps fuel deps ds c path)"
      by (intro "4.IH") auto
    with Black show ?thesis by (auto simp: dfs_post_def coloured_def split: option.splits)
  next
    case White
    with prems have w: "dfs_post N deps {dep} c path (walk fuel deps dep c path)"
      by (intro "4.IH") auto
    then obtain r c' p' where res: "walk fuel deps dep c path = Some (r, c', p')"
      by (auto simp: dfs_post_def split: option.splits)
    show ?thesis
    proof (cases r)
      case (Some cyc)
      with w res White show ?thesis by (simp add: dfs_post_def)
    next
      case None
      with w res have p': "p' = path" and inv: "dfs_inv N deps c' path"
        and grow: "insert dep (coloured Black c) \<subseteq> coloured Black c'" by (simp_all add: dfs_post_def)
      have "dfs_post N deps (set ds) c' p' (walk_deps fuel deps ds c' p')"
        using White res None prems inv p' by (intro "4.IH") auto
      with White res None p' grow show ?thesis by (auto simp: dfs_post_def split: option.splits)
    qed
  qed
qed


section \<open>The cycle search decides acyclicity\<close>

lemma cycle_loop_correct:
  assumes fin: "finite N" and closed: "\<forall>n\<in>N. set (deps n) \<subseteq> N" and fuel: "card N < fuel"
    and "set ns \<subseteq> N" and "dfs_inv N deps c []"
  shows "(\<exists>cyc. cycle_loop fuel deps ns c = Some (Some cyc) \<and> genuine_cycle deps cyc)
    \<or> (cycle_loop fuel deps ns c = Some None
       \<and> (\<exists>B. set ns \<union> coloured Black c \<subseteq> B \<and> acyclic (edges deps \<inter> (B \<times> UNIV))))"
  using assms(4,5)
proof (induction ns arbitrary: c)
  case Nil
  then show ?case by (auto simp: dfs_inv_def)
next
  case (Cons n ns)
  show ?case
  proof (cases "colour_of c n = White")
    case False
    with Cons.prems have "n \<in> coloured Black c"
      by (cases "colour_of c n") (auto simp: dfs_inv_def coloured_def)
    moreover have "cycle_loop fuel deps (n # ns) c = cycle_loop fuel deps ns c" using False by simp
    ultimately show ?thesis using Cons.IH [of c] Cons.prems by auto
  next
    case True
    then have post: "dfs_post N deps {n} c [] (walk fuel deps n c [])"
      using dfs_correct(1) [OF fin closed] Cons.prems fuel by simp
    then obtain r c' p' where res: "walk fuel deps n c [] = Some (r, c', p')"
      by (auto simp: dfs_post_def split: option.splits)
    show ?thesis
    proof (cases r)
      case (Some cyc)
      with post res True show ?thesis by (simp add: dfs_post_def)
    next
      case None
      with post res have inv: "dfs_inv N deps c' []" and grow: "insert n (coloured Black c) \<subseteq> coloured Black c'"
        by (simp_all add: dfs_post_def)
      have "cycle_loop fuel deps (n # ns) c = cycle_loop fuel deps ns c'" using True res None by simp
      moreover note Cons.IH [OF _ inv]
      ultimately consider (cyc) cyc where "cycle_loop fuel deps (n # ns) c = Some (Some cyc)" "genuine_cycle deps cyc"
        | (ok) B where "cycle_loop fuel deps (n # ns) c = Some None" "set ns \<union> coloured Black c' \<subseteq> B"
            "acyclic (edges deps \<inter> (B \<times> UNIV))"
        using Cons.prems(1) by auto
      then show ?thesis
      proof cases
        case cyc
        then show ?thesis by blast
      next
        case ok
        with grow have "set (n # ns) \<union> coloured Black c \<subseteq> B" by auto
        with ok show ?thesis by blast
      qed
    qed
  qed
qed

definition dep_edges :: "wf_definition \<Rightarrow> (string \<times> string) set" where
  "dep_edges d = {(st_Name s, dep) | s dep. s \<in> set (d_Steps d) \<and> dep \<in> set (st_DependsOn s)}"

definition step_names :: "wf_definition \<Rightarrow> string list" where
  "step_names d = map st_Name (d_Steps d)"

definition deps_known :: "wf_definition \<Rightarrow> bool" where
  "deps_known d \<longleftrightarrow> (\<forall>s\<in>set (d_Steps d). set (st_DependsOn s) \<subseteq> set (step_names d))"

lemma deps_of_distinct:
  assumes "distinct (map st_Name ss)" and "s \<in> set ss"
  shows "deps_of ss (st_Name s) = st_DependsOn s"
proof -
  have "distinct (map fst (rev (map (\<lambda>s. (st_Name s, st_DependsOn s)) ss)))"
    using assms(1) by (simp add: comp_def flip: rev_map)
  moreover have "(st_Name s, st_DependsOn s) \<in> set (rev (map (\<lambda>s. (st_Name s, st_DependsOn s)) ss))"
    using assms(2) by auto
  ultimately show ?thesis by (simp add: deps_of_def map_of_eq_Some_iff)
qed

lemma deps_of_unknown: "n \<notin> st_Name ` set ss \<Longrightarrow> deps_of ss n = []"
  by (auto simp: deps_of_def dest!: map_of_SomeD split: option.splits)

lemma edges_deps_of:
  assumes "distinct (step_names d)"
  shows "edges (deps_of (d_Steps d)) = dep_edges d"
proof -
  have "m \<in> set (deps_of (d_Steps d) n) \<longleftrightarrow> (n, m) \<in> dep_edges d" for n m
  proof (cases "n \<in> st_Name ` set (d_Steps d)")
    case True
    then obtain s where s: "s \<in> set (d_Steps d)" "n = st_Name s" by auto
    have uniq: "s' = s" if "s' \<in> set (d_Steps d)" "st_Name s' = n" for s'
      using distinct_key_eq [OF assms [unfolded step_names_def] that(1) s(1)] that s by simp
    have "m \<in> set (deps_of (d_Steps d) n) \<longleftrightarrow> m \<in> set (st_DependsOn s)"
      using deps_of_distinct [OF assms [unfolded step_names_def] s(1)] s(2) by simp
    also have "\<dots> \<longleftrightarrow> (n, m) \<in> dep_edges d"
      using s uniq unfolding dep_edges_def by blast
    finally show ?thesis .
  next
    case False
    then show ?thesis by (auto simp: deps_of_unknown dep_edges_def)
  qed
  then show ?thesis by (auto simp: edges_def)
qed

lemma findCycle_cases:
  assumes dist: "distinct (step_names d)" and known: "deps_known d"
  shows "findCycle_fuel (Suc (length (d_Steps d))) d = Some (findCycle d)"
    and "findCycle d = None \<Longrightarrow> acyclic (dep_edges d)"
    and "findCycle d = Some cyc \<Longrightarrow> genuine_cycle (deps_of (d_Steps d)) cyc"
proof -
  let ?deps = "deps_of (d_Steps d)" and ?N = "set (step_names d)"
  have closed: "\<forall>n\<in>?N. set (?deps n) \<subseteq> ?N"
    using known deps_of_distinct [OF dist [unfolded step_names_def]]
    by (auto simp: deps_known_def step_names_def)
  have card: "card ?N < Suc (length (d_Steps d))"
    by (metis card_length length_map less_Suc_eq_le step_names_def)
  have inv: "dfs_inv ?N ?deps [] []" by (simp add: dfs_inv_def coloured_def acyclic_def)
  note cases = cycle_loop_correct [OF finite_set closed card subset_refl inv]
  show total: "findCycle_fuel (Suc (length (d_Steps d))) d = Some (findCycle d)"
    using cases by (auto simp: findCycle_fuel_def findCycle_def step_names_def)
  show "genuine_cycle ?deps cyc" if "findCycle d = Some cyc"
    using cases total that by (auto simp: findCycle_fuel_def step_names_def)
  show "acyclic (dep_edges d)" if "findCycle d = None"
  proof -
    have "cycle_loop (Suc (length (d_Steps d))) ?deps (step_names d) [] = Some None"
      using total that by (simp add: findCycle_fuel_def step_names_def)
    with cases obtain B where B: "?N \<subseteq> B" "acyclic (edges ?deps \<inter> (B \<times> UNIV))" by auto
    have "edges ?deps \<inter> (B \<times> UNIV) = dep_edges d"
      using B(1) by (auto simp: edges_deps_of [OF dist] dep_edges_def step_names_def)
    with B(2) show ?thesis by simp
  qed
qed

lemma genuine_cycle_cyclic: "genuine_cycle deps cyc \<Longrightarrow> \<not> acyclic (edges deps)"
proof -
  have path: "successively (\<lambda>n m. m \<in> set (deps n)) (x # ys @ [y]) \<Longrightarrow> (x, y) \<in> (edges deps)\<^sup>+" for x ys y
  proof (induction ys arbitrary: x)
    case Nil
    then show ?case by (auto simp: edges_def)
  next
    case (Cons z zs)
    then have "(z, y) \<in> (edges deps)\<^sup>+" and "(x, z) \<in> edges deps" by (auto simp: edges_def)
    then show ?case by (rule trancl_into_trancl2 [rotated])
  qed
  assume "genuine_cycle deps cyc"
  with path show ?thesis unfolding genuine_cycle_def acyclic_def by blast
qed


section \<open>What a valid definition satisfies\<close>

lemma step_pass_ok:
  assumes "step_pass known i names ss = ([], names')"
  shows "distinct (map st_Name ss) \<and> set (map st_Name ss) \<inter> fst ` set names = {}
    \<and> fst ` set names' = fst ` set names \<union> set (map st_Name ss)
    \<and> (\<forall>s\<in>set ss. validName (st_Name s) = None \<and> st_Handler s \<noteq> [] \<and> 0 \<le> st_Timeout s
          \<and> (\<forall>hs. known = Some hs \<longrightarrow> st_Handler s \<in> set hs)
          \<and> (\<forall>p. st_Retry s = Some p \<longrightarrow> (\<exists>wh. policy_problems wh p = [])))"
  using assms
proof (induction ss arbitrary: i names)
  case Nil
  then show ?case by simp
next
  case (Cons s ss)
  from Cons.prems have valid: "validName (st_Name s) = None"
    by (auto simp: Let_def split: option.splits prod.splits)
  from Cons.prems valid have fresh: "map_of names (st_Name s) = None"
    by (auto simp: Let_def split: option.splits prod.splits)
  let ?names = "AList.update (st_Name s) i names"
  from Cons.prems valid fresh have rest: "step_pass known (i + 1) ?names ss = ([], names')"
    and own: "st_Handler s \<noteq> []" "0 \<le> st_Timeout s"
      "\<forall>hs. known = Some hs \<longrightarrow> st_Handler s \<in> set hs"
      "\<forall>p. st_Retry s = Some p \<longrightarrow> policy_problems (where_of i s) p = []"
    by (auto simp: Let_def split: prod.splits if_splits option.splits)
  have dom: "fst ` set ?names = insert (st_Name s) (fst ` set names)" by (simp add: dom_update)
  note IH = Cons.IH [OF rest]
  from fresh have "st_Name s \<notin> fst ` set names" by (simp add: map_of_eq_None_iff)
  with IH dom own valid show ?case by auto
qed

lemma dep_loop_ok:
  "dep_loop names wh self seen ds = [] \<Longrightarrow>
     distinct ds \<and> set ds \<inter> set seen = {} \<and> self \<notin> set ds \<and> set ds \<subseteq> fst ` set names"
  by (induction names wh self seen ds rule: dep_loop.induct)
    (auto split: if_splits simp: map_of_eq_None_iff)

lemma dep_pass_ok:
  "dep_pass names i ss = [] \<Longrightarrow> s \<in> set ss \<Longrightarrow>
     distinct (st_DependsOn s) \<and> st_Name s \<notin> set (st_DependsOn s) \<and> set (st_DependsOn s) \<subseteq> fst ` set names"
  by (induction names i ss rule: dep_pass.induct) (auto dest: dep_loop_ok)

definition valid_definition :: "wf_definition \<Rightarrow> bool" where
  "valid_definition d \<longleftrightarrow>
     d_Steps d \<noteq> [] \<and> 0 < d_Version d \<and> distinct (step_names d) \<and> deps_known d \<and> acyclic (dep_edges d)
     \<and> (\<forall>s\<in>set (d_Steps d). validName (st_Name s) = None \<and> distinct (st_DependsOn s)
          \<and> (\<forall>p. st_Retry s = Some p \<longrightarrow> (\<exists>wh. policy_problems wh p = [])))"

lemma roots_exist:
  assumes "acyclic (dep_edges d)" and "deps_known d" and "d_Steps d \<noteq> []"
  shows "Roots d \<noteq> []"
proof
  assume none: "Roots d = []"
  have fin: "finite (dep_edges d)"
  proof (rule finite_subset)
    show "dep_edges d \<subseteq> (\<Union>s\<in>set (d_Steps d). {st_Name s} \<times> set (st_DependsOn s))"
      by (auto simp: dep_edges_def)
  qed simp
  obtain s0 where s0: "s0 \<in> set (d_Steps d)" using assms(3) by (cases "d_Steps d") auto
  have "wf ((dep_edges d)\<inverse>)" using fin assms(1) by (rule finite_acyclic_wf_converse)
  then obtain n where n: "n \<in> set (step_names d)" "\<And>m. (n, m) \<in> dep_edges d \<Longrightarrow> m \<notin> set (step_names d)"
    using s0 by (rule_tac x = "st_Name s0" and Q = "set (step_names d)" in wfE_min) (auto simp: step_names_def)
  then obtain s where s: "s \<in> set (d_Steps d)" "n = st_Name s" by (auto simp: step_names_def)
  have "st_DependsOn s \<noteq> []" using none s(1) by (auto simp: Roots_def filter_empty_conv)
  then obtain dep where "dep \<in> set (st_DependsOn s)" by (cases "st_DependsOn s") auto
  with s n(2) assms(2) show False unfolding deps_known_def dep_edges_def by blast
qed

lemma validate_ok:
  assumes "validate known d = []"
  shows "valid_definition d"
proof -
  obtain p3 names where pass: "step_pass known 0 [] (d_Steps d) = (p3, names)" by fastforce
  from assms pass have steps: "d_Steps d \<noteq> []" and ver: "0 < d_Version d" and p3: "p3 = []"
    and p4: "dep_pass names 0 (d_Steps d) = []" and cyc: "findCycle d = None"
    by (auto simp: validate_def Let_def split: if_splits option.splits)
  note ok = step_pass_ok [OF pass [unfolded p3]]
  have dist: "distinct (step_names d)" using ok by (simp add: step_names_def)
  have known: "deps_known d" using ok dep_pass_ok [OF p4] by (fastforce simp: deps_known_def step_names_def)
  show ?thesis
    using steps ver dist known findCycle_cases(2) [OF dist known cyc] ok dep_pass_ok [OF p4]
    by (simp add: valid_definition_def)
qed

text \<open>
  The converse: a definition that is declared as the rules ask has no problems.  Together
  they say exactly which definitions are accepted.
\<close>

definition sound_policy :: "retry_policy \<Rightarrow> bool" where
  "sound_policy p \<longleftrightarrow> 1 \<le> rp_MaxAttempts p \<and> rp_MaxAttempts p \<le> 100 \<and> 0 \<le> rp_InitialDelay p
     \<and> (1 < rp_MaxAttempts p \<longrightarrow> 1 \<le> rp_Multiplier p)
     \<and> (0 < rp_MaxDelay p \<longrightarrow> rp_InitialDelay p \<le> rp_MaxDelay p) \<and> 0 \<le> rp_Jitter p \<and> rp_Jitter p \<le> 1"

definition sound_step :: "string list option \<Rightarrow> wf_definition \<Rightarrow> step \<Rightarrow> bool" where
  "sound_step known d s \<longleftrightarrow> validName (st_Name s) = None \<and> st_Handler s \<noteq> [] \<and> 0 \<le> st_Timeout s
     \<and> (\<forall>hs. known = Some hs \<longrightarrow> st_Handler s \<in> set hs) \<and> (\<forall>p. st_Retry s = Some p \<longrightarrow> sound_policy p)
     \<and> distinct (st_DependsOn s) \<and> st_Name s \<notin> set (st_DependsOn s) \<and> set (st_DependsOn s) \<subseteq> set (step_names d)"

definition acceptable :: "string list option \<Rightarrow> wf_definition \<Rightarrow> bool" where
  "acceptable known d \<longleftrightarrow> validName (d_Name d) = None \<and> 0 < d_Version d \<and> d_Steps d \<noteq> []
     \<and> distinct (step_names d) \<and> (\<forall>s\<in>set (d_Steps d). sound_step known d s) \<and> acyclic (dep_edges d)"

lemma policy_problems_Nil: "policy_problems wh p = [] \<longleftrightarrow> sound_policy p"
  by (auto simp: policy_problems_def sound_policy_def not_less)

lemma step_pass_clean:
  assumes "distinct (map st_Name ss)" and "set (map st_Name ss) \<inter> fst ` set names = {}"
    and "\<And>s. s \<in> set ss \<Longrightarrow> sound_step known d s"
  shows "\<exists>names'. step_pass known i names ss = ([], names')"
  using assms
proof (induction ss arbitrary: i names)
  case (Cons s ss)
  let ?names = "AList.update (st_Name s) i names"
  have s: "sound_step known d s" using Cons.prems(3) by simp
  have fresh: "map_of names (st_Name s) = None" using Cons.prems(2) by (simp add: map_of_eq_None_iff)
  have "\<exists>names'. step_pass known (i + 1) ?names ss = ([], names')"
    by (rule Cons.IH) (use Cons.prems in \<open>auto simp: dom_update\<close>)
  then show ?case
    using s fresh by (auto simp: sound_step_def Let_def policy_problems_Nil split: option.splits)
qed simp

lemma dep_loop_clean:
  "distinct ds \<Longrightarrow> set ds \<inter> set seen = {} \<Longrightarrow> self \<notin> set ds \<Longrightarrow> set ds \<subseteq> fst ` set names \<Longrightarrow> dep_loop names wh self seen ds = []"
  by (induction names wh self seen ds rule: dep_loop.induct) (auto simp: map_of_eq_None_iff)

lemma dep_pass_clean:
  assumes "\<And>s. s \<in> set ss \<Longrightarrow> sound_step known d s" and "set (step_names d) \<subseteq> fst ` set names"
  shows "dep_pass names i ss = []"
  using assms(1)
proof (induction ss arbitrary: i)
  case (Cons s ss)
  have "sound_step known d s" using Cons.prems by simp
  then have "dep_loop names (where_of i s) (st_Name s) [] (st_DependsOn s) = []"
    using assms(2) by (intro dep_loop_clean) (auto simp: sound_step_def)
  with Cons show ?case by simp
qed simp

lemma validate_clean:
  assumes a: "acceptable known d"
  shows "validate known d = []"
proof -
  have dist: "distinct (step_names d)" and acyc: "acyclic (dep_edges d)" and ne: "d_Steps d \<noteq> []"
    and steps: "\<And>s. s \<in> set (d_Steps d) \<Longrightarrow> sound_step known d s" using a by (auto simp: acceptable_def)
  have kn: "deps_known d" using steps by (auto simp: deps_known_def sound_step_def)
  obtain names where pass: "step_pass known 0 [] (d_Steps d) = ([], names)"
    using step_pass_clean [of "d_Steps d" "[]" known d 0] dist steps by (auto simp: step_names_def)
  have "dep_pass names 0 (d_Steps d) = []"
    using step_pass_ok [OF pass]
    by (intro dep_pass_clean [OF steps]) (auto simp: step_names_def)
  moreover have "findCycle d = None"
  proof (rule ccontr)
    assume "findCycle d \<noteq> None"
    then obtain cyc where "genuine_cycle (deps_of (d_Steps d)) cyc" using findCycle_cases(3) [OF dist kn] by blast
    then have "\<not> acyclic (edges (deps_of (d_Steps d)))" by (rule genuine_cycle_cyclic)
    moreover have "edges (deps_of (d_Steps d)) = dep_edges d" by (auto simp: edges_deps_of [OF dist] dep_edges_def)
    ultimately show False using acyc by simp
  qed
  moreover have "Roots d \<noteq> []" by (rule roots_exist [OF acyc kn ne])
  ultimately show ?thesis using a pass by (simp add: validate_def acceptable_def Let_def)
qed

lemma validate_acceptable:
  assumes "validate known d = []"
  shows "acceptable known d"
proof -
  obtain p3 names where pass: "step_pass known 0 [] (d_Steps d) = (p3, names)" by fastforce
  from assms pass have name: "validName (d_Name d) = None" and p3: "p3 = []" and p4: "dep_pass names 0 (d_Steps d) = []"
    by (auto simp: validate_def Let_def split: if_splits option.splits)
  note ok = step_pass_ok [OF pass [unfolded p3]] and v = validate_ok [OF assms]
  have "sound_step known d s" if s: "s \<in> set (d_Steps d)" for s
    using ok dep_pass_ok [OF p4 s] s by (auto simp: sound_step_def step_names_def policy_problems_Nil)
  then show ?thesis using v name by (simp add: acceptable_def valid_definition_def)
qed

section \<open>Descendants\<close>

definition down_edges :: "wf_definition \<Rightarrow> (string \<times> string) set" where
  "down_edges d = {(n, m). m \<in> set (Dependents d n)}"

lemma down_edges_converse: "down_edges d = (dep_edges d)\<inverse>"
  by (auto simp: down_edges_def dep_edges_def Dependents_def)

lemma descend_correct:
  assumes "set seen = insert n (set out)" and "distinct out" and "n \<notin> set out"
    and "set queue \<subseteq> set seen" and "\<forall>m\<in>set out. (n, m) \<in> (down_edges d)\<^sup>+"
    and "\<forall>x\<in>set seen - set queue. set (Dependents d x) \<subseteq> set seen"
  shows "distinct (descend d seen out queue) \<and> n \<notin> set (descend d seen out queue)
    \<and> (\<forall>m\<in>set (descend d seen out queue). (n, m) \<in> (down_edges d)\<^sup>+)
    \<and> (\<forall>x\<in>insert n (set (descend d seen out queue)).
         set (Dependents d x) \<subseteq> insert n (set (descend d seen out queue)))"
  using assms
proof (induction d seen out queue rule: descend.induct)
  case (1 d seen out)
  then show ?case by simp
next
  case (2 d seen out cur queue)
  let ?new = "visit seen (Dependents d cur)"
  have new: "set ?new = set (Dependents d cur) - set seen" by (rule set_visit)
  have cur: "cur = n \<or> (n, cur) \<in> (down_edges d)\<^sup>+" using "2.prems" by auto
  have reach: "(n, m) \<in> (down_edges d)\<^sup>+" if "m \<in> set ?new" for m
  proof -
    have "(cur, m) \<in> down_edges d" using that new by (simp add: down_edges_def)
    with cur show ?thesis by (auto intro: trancl_into_trancl)
  qed
  have "set (rev ?new @ seen) = insert n (set (out @ ?new))" using "2.prems"(1) by auto
  moreover have "distinct (out @ ?new)" using "2.prems" new distinct_visit by auto
  moreover have "n \<notin> set (out @ ?new)" using "2.prems" new by auto
  moreover have "set (queue @ ?new) \<subseteq> set (rev ?new @ seen)" using "2.prems" by auto
  moreover have "\<forall>m\<in>set (out @ ?new). (n, m) \<in> (down_edges d)\<^sup>+" using "2.prems" reach by auto
  moreover have "\<forall>x\<in>set (rev ?new @ seen) - set (queue @ ?new). set (Dependents d x) \<subseteq> set (rev ?new @ seen)"
    using "2.prems"(6) new by auto
  ultimately have "distinct (descend d (rev ?new @ seen) (out @ ?new) (queue @ ?new))
      \<and> n \<notin> set (descend d (rev ?new @ seen) (out @ ?new) (queue @ ?new))
      \<and> (\<forall>m\<in>set (descend d (rev ?new @ seen) (out @ ?new) (queue @ ?new)). (n, m) \<in> (down_edges d)\<^sup>+)
      \<and> (\<forall>x\<in>insert n (set (descend d (rev ?new @ seen) (out @ ?new) (queue @ ?new))).
         set (Dependents d x) \<subseteq> insert n (set (descend d (rev ?new @ seen) (out @ ?new) (queue @ ?new))))"
    by (rule "2.IH" [OF refl])
  then show ?case by (simp add: Let_def)
qed

lemma descendants_correct:
  "distinct (descendants d n)" "n \<notin> set (descendants d n)"
  "set (descendants d n) = {m. (n, m) \<in> (down_edges d)\<^sup>+} - {n}"
proof -
  have inv: "distinct (descendants d n) \<and> n \<notin> set (descendants d n)
    \<and> (\<forall>m\<in>set (descendants d n). (n, m) \<in> (down_edges d)\<^sup>+)
    \<and> (\<forall>x\<in>insert n (set (descendants d n)). set (Dependents d x) \<subseteq> insert n (set (descendants d n)))"
    unfolding descendants_def by (rule descend_correct) simp_all
  show "distinct (descendants d n)" "n \<notin> set (descendants d n)" using inv by simp_all
  have "m \<in> insert n (set (descendants d n))" if "(n, m) \<in> (down_edges d)\<^sup>+" for m
    using that
  proof (induction rule: trancl_induct)
    case (base m)
    then show ?case using inv by (auto simp: down_edges_def)
  next
    case (step m k)
    then show ?case using inv unfolding down_edges_def by blast
  qed
  with inv show "set (descendants d n) = {m. (n, m) \<in> (down_edges d)\<^sup>+} - {n}" by blast
qed

section \<open>What the checks guarantee\<close>


text \<open>
  (C21) The cycle search terminates within the fuel it is given, answers nil only for acyclic
  graphs, and what it reports is a cycle of the dependency graph, closed at its first step.
\<close>

theorem findCycle_correct:
  assumes "distinct (step_names d)" and "deps_known d"
  shows "findCycle_fuel (Suc (length (d_Steps d))) d = Some (findCycle d)
    \<and> (findCycle d = None \<longleftrightarrow> acyclic (dep_edges d))
    \<and> (\<forall>cyc. findCycle d = Some cyc \<longrightarrow> (\<exists>x mid. cyc = x # mid @ [x]) \<and> successively (\<lambda>n m. (n, m) \<in> dep_edges d) cyc)"
proof -
  have e: "(n, m) \<in> dep_edges d \<longleftrightarrow> m \<in> set (deps_of (d_Steps d) n)" for n m
    using edges_deps_of [OF assms(1)] by (auto simp: edges_def)
  have "\<not> acyclic (dep_edges d)" if "findCycle d = Some cyc" for cyc
    using genuine_cycle_cyclic [OF findCycle_cases(3) [OF assms that]] edges_deps_of [OF assms(1)] by simp
  then have "findCycle d = None" if "acyclic (dep_edges d)" using that by (cases "findCycle d") auto
  then show ?thesis
    using findCycle_cases [OF assms] by (auto simp: genuine_cycle_def e)
qed

theorem findCycle_correct_witness:
  "findCycle_fuel 3 \<lparr>d_Name = ''w'', d_Version = 1, d_Steps =
      [\<lparr>st_Name = ''a'', st_Handler = ''h'', st_DependsOn = [''b''], st_Retry = None, st_Timeout = 0\<rparr>,
       \<lparr>st_Name = ''b'', st_Handler = ''h'', st_DependsOn = [''a''], st_Retry = None, st_Timeout = 0\<rparr>], d_Hash = []\<rparr>
   = Some (Some [''a'', ''b'', ''a''])"
  (is "findCycle_fuel 3 ?d = _")
proof -
  have "distinct (step_names ?d)" "deps_known ?d" by (simp_all add: step_names_def deps_known_def)
  from findCycle_correct [OF this] have "findCycle_fuel 3 ?d = Some (findCycle ?d)" by (simp add: numeral_3_eq_3)
  moreover have "findCycle ?d = Some [''a'', ''b'', ''a'']" by code_simp
  ultimately show ?thesis by simp
qed

text \<open>
  \<^verbatim>\<open>descendants\<close> returns each step that depends on the named one, directly or through
  others, exactly once, and never the step itself.
\<close>

lemma descendants_exact:
  "distinct (descendants d n) \<and> set (descendants d n) = {m. (n, m) \<in> (down_edges d)\<^sup>+} - {n}"
  using descendants_correct(1,3) [of d n] by simp

end
