(* ===== verification/Relab_Spec.thy ===== *)
theory Relab_Spec
  imports Relab_Graph Relab_Outcome
begin

text \<open>
  What the scheduler promises, as a small machine over one run: the status of the run and
  of each of its steps, with no database, clock, lease or journal.  The machine's
  invariant says that a step runs only after what it depends on, that a dead step takes
  everything downstream with it, and that an open run always has a step that can move.
\<close>

section \<open>The machine\<close>

type_synonym view = "string \<Rightarrow> task_status option"

fun active :: "task_status \<Rightarrow> bool" where
  "active TaskReady = True"
| "active TaskLeased = True"
| "active TaskRunning = True"
| "active TaskRetrying = True"
| "active _ = False"

text \<open>A success releases the waiting steps whose dependencies have all succeeded.\<close>

definition unlock :: "wf_definition \<Rightarrow> string \<Rightarrow> view \<Rightarrow> view" where
  "unlock d n v = (\<lambda>m.
     if v m = Some TaskPending \<and> (m, n) \<in> dep_edges d \<and> (\<forall>k. (m, k) \<in> dep_edges d \<longrightarrow> v k = Some TaskSucceeded)
     then Some TaskReady else v m)"

text \<open>A death takes down every waiting step that depends on it, directly or not.\<close>

definition abandon :: "wf_definition \<Rightarrow> string \<Rightarrow> view \<Rightarrow> view" where
  "abandon d n v = (\<lambda>m. if m \<in> set (descendants d n) \<and> v m = Some TaskPending then Some TaskDead else v m)"

definition all_ended :: "view \<Rightarrow> bool" where
  "all_ended v \<longleftrightarrow> (\<forall>n s. v n = Some s \<longrightarrow> TaskStatus_Terminal s)"

definition settled :: "run_status \<Rightarrow> view \<Rightarrow> run_status" where
  "settled s v =
     (if all_ended v \<and> (s = RunQueued \<or> s = RunRunning)
      then if \<exists>n. v n = Some TaskDead then RunFailed else RunSucceeded
      else s)"

definition cancelled :: "view \<Rightarrow> view" where
  "cancelled v = (\<lambda>n. case v n of
     Some s \<Rightarrow> Some (if s = TaskPending \<or> s = TaskReady \<or> s = TaskRetrying then TaskDead else s) | None \<Rightarrow> None)"

inductive spec_step :: "wf_definition \<Rightarrow> run_status \<times> view \<Rightarrow> run_status \<times> view \<Rightarrow> bool" for d where
  move: "\<not> RunStatus_Terminal s \<Longrightarrow> v n = Some a \<Longrightarrow> active a \<Longrightarrow> active b \<Longrightarrow> spec_step d (s, v) (s, v(n \<mapsto> b))"
| begun: "spec_step d (RunQueued, v) (RunRunning, v)"
| succeed: "\<not> RunStatus_Terminal s \<Longrightarrow> v n = Some TaskRunning \<Longrightarrow> v' = unlock d n (v(n \<mapsto> TaskSucceeded)) \<Longrightarrow>
    spec_step d (s, v) (settled s v', v')"
| die: "\<not> RunStatus_Terminal s \<Longrightarrow> v n = Some a \<Longrightarrow> active a \<Longrightarrow> v' = abandon d n (v(n \<mapsto> TaskDead)) \<Longrightarrow>
    spec_step d (s, v) (settled s v', v')"
| cancel: "\<not> RunStatus_Terminal s \<Longrightarrow> spec_step d (s, v) (RunCancelled, cancelled v)"
| release: "RunStatus_Terminal s \<Longrightarrow> v n = Some a \<Longrightarrow> Holds a \<Longrightarrow> spec_step d (s, v) (s, v(n \<mapsto> TaskDead))"

definition spec_init :: "wf_definition \<Rightarrow> run_status \<times> view" where
  "spec_init d = (RunQueued, \<lambda>n. map_option (\<lambda>st. if st_DependsOn st = [] then TaskReady else TaskPending) (Step d n))"

section \<open>Its invariant\<close>

definition deps_done :: "wf_definition \<Rightarrow> view \<Rightarrow> bool" where
  "deps_done d v \<longleftrightarrow>
     (\<forall>n u m. v n = Some u \<and> u \<noteq> TaskPending \<and> u \<noteq> TaskDead \<and> (n, m) \<in> dep_edges d \<longrightarrow> v m = Some TaskSucceeded)"

definition waiting_justified :: "wf_definition \<Rightarrow> view \<Rightarrow> bool" where
  "waiting_justified d v \<longleftrightarrow>
     (\<forall>n. v n = Some TaskPending \<longrightarrow> (\<exists>m. (n, m) \<in> dep_edges d \<and> v m \<noteq> Some TaskSucceeded))"

definition dead_closed :: "wf_definition \<Rightarrow> view \<Rightarrow> bool" where
  "dead_closed d v \<longleftrightarrow> (\<forall>n m. v m = Some TaskDead \<and> (n, m) \<in> dep_edges d \<longrightarrow> v n = Some TaskDead)"

definition closed_ok :: "run_status \<Rightarrow> view \<Rightarrow> bool" where
  "closed_ok s v \<longleftrightarrow>
     (\<forall>n u. v n = Some u \<longrightarrow> Holds u \<or> TaskStatus_Terminal u)
     \<and> (s = RunSucceeded \<longrightarrow> (\<forall>n u. v n = Some u \<longrightarrow> u = TaskSucceeded))
     \<and> (s = RunFailed \<longrightarrow> all_ended v \<and> (\<exists>n. v n = Some TaskDead))"

definition spec_inv :: "wf_definition \<Rightarrow> run_status \<times> view \<Rightarrow> bool" where
  "spec_inv d = (\<lambda>(s, v).
     dom v = set (step_names d) \<and> deps_done d v \<and> waiting_justified d v
     \<and> (\<forall>n. v n \<noteq> Some TaskFailed) \<and> s \<noteq> RunCreated
     \<and> (if RunStatus_Terminal s then closed_ok s v else dead_closed d v \<and> \<not> all_ended v))"

lemma active_cases: "active a \<longleftrightarrow> a = TaskReady \<or> a = TaskRetrying \<or> Holds a"
  by (cases a) (auto simp: Holds_def)

lemma dep_edges_names: "deps_known d \<Longrightarrow> (n, m) \<in> dep_edges d \<Longrightarrow> n \<in> set (step_names d) \<and> m \<in> set (step_names d)"
  by (auto simp: dep_edges_def step_names_def deps_known_def)

lemma step_names_image: "set (step_names d) = st_Name ` set (d_Steps d)"
  by (simp add: step_names_def)

lemma dep_acyclic: "valid_definition d \<Longrightarrow> (n, n) \<notin> (dep_edges d)\<^sup>+"
  by (auto simp: valid_definition_def acyclic_def)

lemma deps_done_mono:
  assumes "deps_done d v" and "\<And>m. v m = Some TaskSucceeded \<Longrightarrow> v' m = Some TaskSucceeded"
    and "\<And>m u. v' m = Some u \<Longrightarrow> u \<noteq> TaskPending \<Longrightarrow> u \<noteq> TaskDead \<Longrightarrow> \<exists>w. v m = Some w \<and> w \<noteq> TaskPending \<and> w \<noteq> TaskDead"
  shows "deps_done d v'"
  using assms unfolding deps_done_def by blast

lemma waiting_mono:
  assumes "waiting_justified d v" and "\<And>m. v' m = Some TaskPending \<Longrightarrow> v m = Some TaskPending"
    and "\<And>m. v' m = Some TaskSucceeded \<Longrightarrow> v m = Some TaskSucceeded"
  shows "waiting_justified d v'"
  using assms unfolding waiting_justified_def by blast

lemma dead_closed_same:
  assumes "dead_closed d v" and "\<And>m. v' m = Some TaskDead \<longleftrightarrow> v m = Some TaskDead"
  shows "dead_closed d v'"
  using assms unfolding dead_closed_def by simp

lemma open_status: "spec_inv d (s, v) \<Longrightarrow> \<not> RunStatus_Terminal s \<Longrightarrow> s = RunQueued \<or> s = RunRunning"
  by (cases s) (auto simp: spec_inv_def)

text \<open>
  Closing: the view part of the invariant, together with dead steps being closed
  downwards, is all that settling a run needs.
\<close>

lemma spec_inv_settled:
  assumes "dom v = set (step_names d)" and "deps_done d v" and "waiting_justified d v" and "\<forall>n. v n \<noteq> Some TaskFailed"
    and s: "s = RunQueued \<or> s = RunRunning" and "dead_closed d v"
  shows "spec_inv d (settled s v, v)"
proof (cases "all_ended v")
  case False
  with assms show ?thesis by (auto simp: spec_inv_def settled_def)
next
  case True
  then have "settled s v = (if \<exists>n. v n = Some TaskDead then RunFailed else RunSucceeded)"
    using s by (simp add: settled_def)
  moreover have "v n = Some u \<Longrightarrow> u = TaskSucceeded \<or> u = TaskDead" for n u
    using True by (auto simp: all_ended_def status_simps)
  then have "\<forall>n. v n \<noteq> Some TaskDead \<Longrightarrow> v n = Some u \<Longrightarrow> u = TaskSucceeded" for n u by blast
  ultimately show ?thesis using assms True
    by (auto simp: spec_inv_def closed_ok_def all_ended_def)
qed

text \<open>Steps among the active statuses change nothing the invariant looks at in an open run.\<close>

lemma spec_inv_move:
  assumes inv: "spec_inv d (s, v)" and open_run: "\<not> RunStatus_Terminal s" and n: "v n = Some a" "active a" "active b"
  shows "spec_inv d (s, v(n \<mapsto> b))"
proof -
  have b: "b \<noteq> TaskPending" "b \<noteq> TaskDead" "b \<noteq> TaskSucceeded" "b \<noteq> TaskFailed" "\<not> TaskStatus_Terminal b"
    using n(3) by (cases b; simp)+
  have a: "a \<noteq> TaskPending" "a \<noteq> TaskDead" "a \<noteq> TaskSucceeded" using n(2) by (cases a; simp)+
  have "deps_done d (v(n \<mapsto> b))"
    by (rule deps_done_mono [of d v]) (use inv n(1) a b in \<open>auto simp: spec_inv_def split: if_splits\<close>)
  moreover have "waiting_justified d (v(n \<mapsto> b))"
    by (rule waiting_mono [of d v]) (use inv n(1) a b in \<open>auto simp: spec_inv_def split: if_splits\<close>)
  moreover have "dead_closed d (v(n \<mapsto> b))"
    by (rule dead_closed_same [of d v]) (use inv open_run n(1) a b in \<open>auto simp: spec_inv_def\<close>)
  moreover have "\<not> all_ended (v(n \<mapsto> b))" using b by (auto simp: all_ended_def)
  ultimately show ?thesis using inv open_run n(1) b by (auto simp: spec_inv_def)
qed

lemma spec_inv_succeed:
  assumes valid: "valid_definition d" and inv: "spec_inv d (s, v)" and open_run: "\<not> RunStatus_Terminal s"
    and n: "v n = Some TaskRunning" and v': "v' = unlock d n (v(n \<mapsto> TaskSucceeded))"
  shows "spec_inv d (settled s v', v')"
proof (rule spec_inv_settled)
  have succ: "v' m = Some TaskSucceeded \<longleftrightarrow> m = n \<or> v m = Some TaskSucceeded" for m
    by (auto simp: v' unlock_def)
  have pend: "v' m = Some TaskPending \<longleftrightarrow> m \<noteq> n \<and> v m = Some TaskPending
      \<and> ((m, n) \<notin> dep_edges d \<or> (\<exists>k. (m, k) \<in> dep_edges d \<and> v' k \<noteq> Some TaskSucceeded))" for m
    unfolding succ by (auto simp: v' unlock_def split: if_splits)
  have other: "v' m = v m \<or> (v m = Some TaskPending \<and> v' m = Some TaskReady
      \<and> (\<forall>k. (m, k) \<in> dep_edges d \<longrightarrow> v' k = Some TaskSucceeded))" if "m \<noteq> n" for m
    unfolding succ using that by (auto simp: v' unlock_def)
  have dead: "v' m = Some TaskDead \<longleftrightarrow> v m = Some TaskDead" for m using n by (auto simp: v' unlock_def)
  have "v' m = None \<longleftrightarrow> v m = None" for m using n by (auto simp: v' unlock_def)
  then have "dom v' = dom v" by (auto simp: dom_def)
  then show "dom v' = set (step_names d)" using inv by (simp add: spec_inv_def)
  show "\<forall>m. v' m \<noteq> Some TaskFailed" using inv by (auto simp: v' unlock_def spec_inv_def)
  show "s = RunQueued \<or> s = RunRunning" using open_status [OF inv open_run] .
  show "dead_closed d v'" using inv open_run by (simp add: spec_inv_def dead_closed_def dead)
  show "deps_done d v'"
    unfolding deps_done_def
  proof (intro allI impI)
    fix m u k
    assume m: "v' m = Some u \<and> u \<noteq> TaskPending \<and> u \<noteq> TaskDead \<and> (m, k) \<in> dep_edges d"
    show "v' k = Some TaskSucceeded"
    proof (cases "m = n")
      case True
      then have "v k = Some TaskSucceeded" using inv n m by (auto simp: spec_inv_def deps_done_def)
      then show ?thesis by (simp add: succ)
    next
      case False
      from other [OF False] show ?thesis
      proof
        assume "v' m = v m"
        with m have "v m = Some u" by simp
        then have "v k = Some TaskSucceeded" using inv m unfolding spec_inv_def deps_done_def by blast
        then show ?thesis by (simp add: succ)
      qed (use m in auto)
    qed
  qed
  show "waiting_justified d v'"
    unfolding waiting_justified_def
  proof (intro allI impI)
    fix m
    assume m: "v' m = Some TaskPending"
    then obtain k where "(m, k) \<in> dep_edges d" "v k \<noteq> Some TaskSucceeded"
      using inv unfolding pend spec_inv_def waiting_justified_def by auto
    then show "\<exists>k. (m, k) \<in> dep_edges d \<and> v' k \<noteq> Some TaskSucceeded"
      using m unfolding pend succ by blast
  qed
qed

text \<open>Downstream of a step that has not succeeded everything is waiting or dead.\<close>

lemma downstream_idle:
  assumes inv: "deps_done d v" and n: "v n \<noteq> Some TaskSucceeded" and path: "(n, m) \<in> (down_edges d)\<^sup>+"
    and m: "v m = Some u"
  shows "u = TaskPending \<or> u = TaskDead"
proof -
  have "v m \<noteq> Some TaskSucceeded \<and> (\<forall>u. v m = Some u \<longrightarrow> u = TaskPending \<or> u = TaskDead)"
    using path
  proof (induction rule: trancl_induct)
    case (base y)
    then show ?case using inv n by (auto simp: deps_done_def down_edges_converse)
  next
    case (step y z)
    then show ?case using inv by (auto simp: deps_done_def down_edges_converse)
  qed
  with m show ?thesis by blast
qed

lemma spec_inv_die:
  assumes valid: "valid_definition d" and inv: "spec_inv d (s, v)" and open_run: "\<not> RunStatus_Terminal s"
    and n: "v n = Some a" "active a" and v': "v' = abandon d n (v(n \<mapsto> TaskDead))"
  shows "spec_inv d (settled s v', v')"
proof (rule spec_inv_settled)
  let ?D = "set (descendants d n)"
  have a: "a \<noteq> TaskPending" "a \<noteq> TaskDead" "a \<noteq> TaskSucceeded" using n(2) by (cases a; simp)+
  have Dn: "n \<notin> ?D" and D: "m \<in> ?D \<longleftrightarrow> (n, m) \<in> (down_edges d)\<^sup>+ \<and> m \<noteq> n" for m
    using descendants_correct(2) [of n d] descendants_correct(3) [of d n] by auto
  have idle: "u = TaskPending \<or> u = TaskDead" if "m \<in> ?D" "v m = Some u" for m u
    using downstream_idle [of d v n m u] inv n a that D by (auto simp: spec_inv_def)
  have val: "v' m = (if m = n \<or> (m \<in> ?D \<and> v m \<noteq> None) then Some TaskDead else v m)" for m
    using idle [of m] Dn by (auto simp: v' abandon_def)
  have succ: "v' m = Some TaskSucceeded \<longleftrightarrow> v m = Some TaskSucceeded" for m
    using val [of m] idle [of m] n(1) a by (auto split: if_splits)
  have alive: "v m = Some u" if "v' m = Some u" "u \<noteq> TaskDead" for m u using that val [of m] by (auto split: if_splits)
  have "v' m = None \<longleftrightarrow> v m = None" for m using val [of m] n(1) by auto
  then have "dom v' = dom v" by (auto simp: dom_def)
  then show dom': "dom v' = set (step_names d)" using inv by (simp add: spec_inv_def)
  show "\<forall>m. v' m \<noteq> Some TaskFailed" using inv alive by (auto simp: spec_inv_def)
  show "s = RunQueued \<or> s = RunRunning" using open_status [OF inv open_run] .
  show "deps_done d v'"
    by (rule deps_done_mono [of d v]) (use inv alive succ in \<open>auto simp: spec_inv_def\<close>)
  show "waiting_justified d v'"
    by (rule waiting_mono [of d v]) (use inv alive succ in \<open>auto simp: spec_inv_def\<close>)
  show "dead_closed d v'"
    unfolding dead_closed_def
  proof (intro allI impI)
    fix x y
    assume y: "v' y = Some TaskDead \<and> (x, y) \<in> dep_edges d"
    then have xn: "x \<in> dom v'"
      using dep_edges_names [of d x y] valid dom' by (auto simp: valid_definition_def)
    have edge: "(y, x) \<in> down_edges d" using y by (simp add: down_edges_converse)
    show "v' x = Some TaskDead"
    proof (cases "y = n \<or> y \<in> ?D")
      case True
      then have "(n, x) \<in> (down_edges d)\<^sup>+" using edge D by (auto intro: trancl_into_trancl)
      then have "x = n \<or> x \<in> ?D" using D by blast
      then show ?thesis using val [of x] xn by (auto split: if_splits)
    next
      case False
      then have "v y = Some TaskDead" using y val [of y] by auto
      then have "v x = Some TaskDead" using inv open_run y by (auto simp: spec_inv_def dead_closed_def)
      then show ?thesis using val [of x] by auto
    qed
  qed
qed

lemma cancelled_simps:
  "cancelled v n = None \<longleftrightarrow> v n = None"
  "cancelled v n = Some TaskSucceeded \<longleftrightarrow> v n = Some TaskSucceeded"
  "cancelled v n \<noteq> Some TaskPending"
  "cancelled v n = Some TaskFailed \<longleftrightarrow> v n = Some TaskFailed"
  by (auto simp: cancelled_def split: option.splits)

lemma cancelled_alive: "cancelled v n = Some u \<Longrightarrow> u \<noteq> TaskDead \<Longrightarrow> v n = Some u \<and> u \<noteq> TaskPending \<and> u \<noteq> TaskReady \<and> u \<noteq> TaskRetrying"
  by (auto simp: cancelled_def split: option.splits if_splits)

lemma spec_inv_cancel:
  assumes inv: "spec_inv d (s, v)"
  shows "spec_inv d (RunCancelled, cancelled v)"
proof -
  have "dom (cancelled v) = dom v" by (auto simp: dom_def cancelled_def split: option.splits)
  moreover have "deps_done d (cancelled v)"
    by (rule deps_done_mono [of d v])
      (use inv cancelled_alive [of v] in \<open>auto simp: spec_inv_def cancelled_simps\<close>)
  moreover have "Holds u \<or> TaskStatus_Terminal u" if "cancelled v n = Some u" for n u
  proof (cases "u = TaskDead")
    case False
    then have "v n = Some u" "u \<noteq> TaskPending" "u \<noteq> TaskReady" "u \<noteq> TaskRetrying" "u \<noteq> TaskFailed"
      using cancelled_alive [OF that] inv by (auto simp: spec_inv_def)
    then show ?thesis by (cases u) (auto simp: Holds_def)
  qed simp
  ultimately show ?thesis
    using inv by (auto simp: spec_inv_def waiting_justified_def closed_ok_def cancelled_simps)
qed

lemma spec_inv_release:
  assumes inv: "spec_inv d (s, v)" and closed: "RunStatus_Terminal s" and n: "v n = Some a" "Holds a"
  shows "spec_inv d (s, v(n \<mapsto> TaskDead))"
proof -
  have a: "a \<noteq> TaskSucceeded" "\<not> TaskStatus_Terminal a" using n(2) by (auto simp: Holds_def)
  have s: "s \<noteq> RunSucceeded" "s \<noteq> RunFailed"
    using inv closed n(1) a by (auto simp: spec_inv_def closed_ok_def all_ended_def)
  have "dom (v(n \<mapsto> TaskDead)) = dom v" using n(1) by auto
  moreover have "deps_done d (v(n \<mapsto> TaskDead))"
    by (rule deps_done_mono [of d v]) (use inv n(1) a in \<open>auto simp: spec_inv_def split: if_splits\<close>)
  moreover have "waiting_justified d (v(n \<mapsto> TaskDead))"
    by (rule waiting_mono [of d v]) (use inv in \<open>auto simp: spec_inv_def split: if_splits\<close>)
  ultimately show ?thesis using inv closed s by (auto simp: spec_inv_def closed_ok_def)
qed

lemma spec_step_inv:
  assumes valid: "valid_definition d" and "spec_step d c c'" and inv: "spec_inv d c"
  shows "spec_inv d c'"
  using assms(2) inv
proof cases
  case (begun v)
  then show ?thesis using inv by (auto simp: spec_inv_def)
qed (auto intro: spec_inv_move spec_inv_succeed [OF valid] spec_inv_die [OF valid] spec_inv_cancel spec_inv_release)

section \<open>Creation and progress\<close>

lemma Step_names: "Step d n \<noteq> None \<longleftrightarrow> n \<in> set (step_names d)"
proof -
  have "step_loop ss n \<noteq> None \<longleftrightarrow> n \<in> st_Name ` set ss" for ss
    by (induction ss n rule: step_loop.induct) auto
  then show ?thesis by (simp only: Step_def step_names_image)
qed

lemma Step_SomeD: "Step d n = Some st \<Longrightarrow> st \<in> set (d_Steps d) \<and> st_Name st = n"
proof -
  have "step_loop ss n = Some st \<Longrightarrow> st \<in> set ss \<and> st_Name st = n" for ss
    by (induction ss n rule: step_loop.induct) (auto split: if_splits)
  then show "Step d n = Some st \<Longrightarrow> st \<in> set (d_Steps d) \<and> st_Name st = n" by (simp add: Step_def)
qed

lemma dep_edges_Step:
  assumes "distinct (step_names d)"
  shows "(n, m) \<in> dep_edges d \<longleftrightarrow> (\<exists>st. Step d n = Some st \<and> m \<in> set (st_DependsOn st))"
proof
  assume "(n, m) \<in> dep_edges d"
  then obtain s where s: "s \<in> set (d_Steps d)" "st_Name s = n" "m \<in> set (st_DependsOn s)" by (auto simp: dep_edges_def)
  then have "Step d n \<noteq> None" unfolding Step_names step_names_image by blast
  then obtain st where st: "Step d n = Some st" by blast
  with s assms have "st = s" using Step_SomeD [OF st] by (auto simp: step_names_def dest: distinct_key_eq)
  with s st show "\<exists>st. Step d n = Some st \<and> m \<in> set (st_DependsOn st)" by blast
qed (auto simp: dep_edges_def dest!: Step_SomeD)

lemma spec_init_inv:
  assumes "valid_definition d"
  shows "spec_inv d (spec_init d)"
proof -
  have dist: "distinct (step_names d)" and roots: "Roots d \<noteq> []"
    using assms roots_exist by (auto simp: valid_definition_def)
  let ?v = "snd (spec_init d)"
  have dom: "dom ?v = set (step_names d)" using Step_names [of d] by (auto simp: spec_init_def dom_def)
  have val: "?v n = Some u \<longleftrightarrow> (\<exists>st. Step d n = Some st \<and> u = (if st_DependsOn st = [] then TaskReady else TaskPending))" for n u
    by (auto simp: spec_init_def)
  have nosucc: "?v n \<noteq> Some TaskSucceeded" "?v n \<noteq> Some TaskFailed" "?v n \<noteq> Some TaskDead" for n
    by (auto simp: spec_init_def split: if_splits)
  have "deps_done d ?v" by (auto simp: deps_done_def val dep_edges_Step [OF dist] split: if_splits)
  moreover have "waiting_justified d ?v"
    using nosucc by (auto simp: waiting_justified_def val dep_edges_Step [OF dist] split: if_splits) (metis list.set_intros(1) neq_Nil_conv)
  moreover have "dead_closed d ?v" using nosucc by (simp add: dead_closed_def)
  moreover have "\<not> all_ended ?v"
  proof -
    from roots obtain s where s: "s \<in> set (d_Steps d)" "st_DependsOn s = []"
      by (auto simp: Roots_def filter_empty_conv)
    then obtain st where st: "Step d (st_Name s) = Some st" using Step_names [of d "st_Name s"] by (auto simp: step_names_image)
    with s dist have "st = s" using Step_SomeD [OF st] by (auto simp: step_names_def dest: distinct_key_eq)
    with s st have "?v (st_Name s) = Some TaskReady" by (simp add: spec_init_def)
    then show ?thesis unfolding all_ended_def by (metis TaskStatus_Terminal.simps(4))
  qed
  ultimately show ?thesis using dom nosucc by (auto simp: spec_inv_def spec_init_def)
qed

text \<open>
  An open run has an active step: take a waiting step no waiting step depends on; what it
  still lacks is neither succeeded, dead nor waiting.
\<close>

lemma open_run_active:
  assumes valid: "valid_definition d" and inv: "spec_inv d (s, v)" and open_run: "\<not> RunStatus_Terminal s"
  shows "\<exists>n u. v n = Some u \<and> active u"
proof (rule ccontr)
  assume none: "\<not> ?thesis"
  let ?P = "{n. v n = Some TaskPending}"
  have kind: "u = TaskPending \<or> u = TaskSucceeded \<or> u = TaskDead" if "v n = Some u" for n u
  proof -
    have "\<not> active u" using none that by blast
    moreover have "u \<noteq> TaskFailed" using inv that by (auto simp: spec_inv_def)
    ultimately show ?thesis by (cases u) auto
  qed
  obtain n0 where n0: "n0 \<in> ?P"
    using inv open_run kind by (auto simp: spec_inv_def all_ended_def status_simps)
  have wf: "wf ((dep_edges d)\<inverse>)"
  proof (rule finite_acyclic_wf_converse)
    show "finite (dep_edges d)"
      by (rule finite_subset [of _ "set (step_names d) \<times> set (step_names d)"])
        (use valid dep_edges_names in \<open>auto simp: valid_definition_def\<close>)
    show "acyclic (dep_edges d)" using valid by (simp add: valid_definition_def)
  qed
  from wfE_min [OF wf n0] obtain n where n: "n \<in> ?P" and least: "\<And>m. (m, n) \<in> (dep_edges d)\<inverse> \<Longrightarrow> m \<notin> ?P" by blast
  from n inv obtain m where m: "(n, m) \<in> dep_edges d" "v m \<noteq> Some TaskSucceeded"
    by (auto simp: spec_inv_def waiting_justified_def)
  have "m \<in> dom v" using dep_edges_names [of d n m] m valid inv by (auto simp: spec_inv_def valid_definition_def)
  then obtain u where u: "v m = Some u" by blast
  with kind m least have "v m = Some TaskDead" by auto
  then have "v n = Some TaskDead" using inv open_run m by (auto simp: spec_inv_def dead_closed_def)
  with n show False by simp
qed

end
