(* ===== verification/Relab_Refine.thy ===== *)
theory Relab_Refine
  imports Relab_History Relab_Spec
begin

text \<open>
  The transactions of the engine implement the scheduler's machine: seen through
  \<open>view_of\<close>, every committed transaction is a sequence of machine steps for each run.
\<close>

section \<open>The view of a run\<close>

definition heads :: "db \<Rightarrow> uuid \<Rightarrow> (uuid \<times> run_status) option" where
  "heads db rid = map_option (\<lambda>r. (r_workflow_id r, r_status r)) (run_by_id rid db)"

definition view_of :: "uuid \<Rightarrow> db \<Rightarrow> view" where
  "view_of rid db = (\<lambda>n. map_option t_status (task_by_name rid n db))"

lemma task_by_name_update:
  assumes "keys_kept f"
  shows "task_by_name rid n (db\<lparr>tasks := sql_update c f (tasks db)\<rparr>) =
    map_option (\<lambda>t. if c t then f t else t) (task_by_name rid n db)"
  using find_sql_update [of "tasks db" c "\<lambda>t. (t_run_id t, t_name t)" f "(rid, n)"] assms
  by (simp add: task_by_name_def keys_kept_def)

lemma task_by_nameD: "task_by_name rid n db = Some t \<Longrightarrow> t \<in> set (tasks db) \<and> t_run_id t = rid \<and> t_name t = n"
  by (auto simp: task_by_name_def find_Some_iff)

lemma task_find:
  assumes "tables_ok db" and "t \<in> set (tasks db)"
  shows "task_by_name (t_run_id t) (t_name t) db = Some t"
  using find_key_in [of "\<lambda>t. (t_run_id t, t_name t)" "tasks db" t] assms by (simp add: tables_ok_def task_by_name_def)

lemma task_id_unique: "tables_ok db \<Longrightarrow> t \<in> set (tasks db) \<Longrightarrow> q \<in> set (tasks db) \<Longrightarrow> t_id t = t_id q \<Longrightarrow> t = q"
  by (auto simp: tables_ok_def dest: distinct_key_eq)

section \<open>Silent statements\<close>

text \<open>
  What the machine can see of the database; most statements leave it alone, an append
  among them.
\<close>

definition core :: "db \<Rightarrow> task_row list \<times> workflow_row list \<times> (uuid \<Rightarrow> (uuid \<times> run_status) option)" where
  "core db = (tasks db, workflows db, heads db)"

definition core_is where
  "core_is k db \<longleftrightarrow> core db = k"

named_theorems silent \<open>statements that change nothing the machine can see\<close>

lemma heads_bump: "heads (bump_seq q db) rid = heads db rid"
  by (simp add: heads_def run_by_id_bump option.map_comp comp_def if_distrib cong: if_cong)

lemma heads_runs: "runs db' = runs db \<Longrightarrow> heads db' = heads db"
  by (simp add: heads_def run_by_id_def fun_eq_iff)

lemma append_runs:
  assumes "append now rid p m db = Inr (u, db')"
  shows "runs db' = runs (bump_seq rid db)"
  using assms
  by (auto simp: append_def Append_def Let_def tx_bind_Inr update_runs_Inr insert_event_def bump_seq_def
      split: if_splits option.splits)

lemma append_core: "append now rid p m db = Inr (u, db') \<Longrightarrow> core db' = core db"
  using append_frame [of now rid p m db u db'] heads_runs [OF append_runs [of now rid p m db u db']]
  by (simp add: core_def heads_bump fun_eq_iff)

lemma append_open:
  assumes "append now rid p m db = Inr (u, db')"
  shows "\<exists>r. run_by_id rid db = Some r \<and> (distinct (map r_id (runs db)) \<longrightarrow> r_completed_at r = None)"
proof -
  from assms obtain q where q: "q \<in> set (runs db)" "r_id q = rid" "r_completed_at q = None"
    by (auto simp: append_def Append_def Let_def tx_bind_Inr update_runs_Inr split: if_splits option.splits)
  show ?thesis
  proof (cases "run_by_id rid db")
    case None
    then show ?thesis using q by (auto simp: run_by_id_def find_None_iff)
  next
    case (Some r)
    then show ?thesis using q by (metis distinct_key_eq run_by_idD)
  qed
qed

lemma silent_statements [silent]:
  "tx_keeps (core_is k) (append now rid p m)" "tx_keeps (core_is k) (insert_worker wk)"
  "tx_keeps (core_is k) (update_workers e h)" "tx_keeps (core_is k) (record_attempt a)"
  "tx_keeps (core_is k) (insert_dead_letter l)" "tx_keeps (core_is k) (upsert_artifact u)"
  "tx_keeps (core_is k) (record_effect key rid name raw)"
proof -
  show "tx_keeps (core_is k) (append now rid p m)"
    by (rule tx_keepsI) (simp add: core_is_def append_core)
qed (auto simp: core_is_def core_def insert_worker_def update_workers_def record_attempt_def insert_attempt_def
    insert_dead_letter_def upsert_artifact_def record_effect_def Let_def intro!: tx_keepsI heads_runs split: if_splits)

lemma silentD: "tx_keeps (core_is (core db)) m \<Longrightarrow> m db = Inr (x, db') \<Longrightarrow> core db' = core db"
  using tx_keepsD [of "core_is (core db)" m db x db'] by (simp add: core_is_def)

lemma core_view: "core db' = core db \<Longrightarrow> view_of rid db' = view_of rid db \<and> heads db' = heads db
    \<and> tasks db' = tasks db \<and> workflows db' = workflows db"
  by (simp add: core_def view_of_def task_by_name_def)

lemma Definition_workflows: "workflows db' = workflows db \<Longrightarrow> Definition env wid db' = Definition env wid db"
  by (simp add: Definition_def WorkflowByID_def)

section \<open>Evolution\<close>

text \<open>
  The state the engine keeps at rest: consistent tables, and for every run a definition that
  parses and a view that satisfies the machine's invariant.
\<close>

definition runs_ok :: "env \<Rightarrow> db \<Rightarrow> bool" where
  "runs_ok env db \<longleftrightarrow> tables_ok db \<and>
     (\<forall>rid w s. heads db rid = Some (w, s) \<longrightarrow>
        (\<exists>def. Definition env w db = Inr def \<and> valid_definition def \<and> spec_inv def (s, view_of rid db)))"

definition evolves :: "env \<Rightarrow> db \<Rightarrow> db \<Rightarrow> bool" where
  "evolves env db db' \<longleftrightarrow>
     workflows db' = workflows db \<and> (\<forall>rid. heads db rid = None \<longrightarrow> heads db' rid = None)
     \<and> (\<forall>rid w s def. heads db rid = Some (w, s) \<longrightarrow> Definition env w db = Inr def \<longrightarrow>
          (\<exists>s'. heads db' rid = Some (w, s') \<and> (spec_step def)\<^sup>*\<^sup>* (s, view_of rid db) (s', view_of rid db')))"

lemma runs_okD:
  assumes "runs_ok env db" and "heads db rid = Some (w, s)"
  obtains d where "Definition env w db = Inr d" "valid_definition d" "spec_inv d (s, view_of rid db)"
  using assms unfolding runs_ok_def by blast

lemma runs_ok_tables: "runs_ok env db \<Longrightarrow> tables_ok db"
  by (simp add: runs_ok_def)

lemma evolvesD:
  assumes "evolves env db db'" and "heads db rid = Some (w, s)" and "Definition env w db = Inr d"
  obtains s' where "heads db' rid = Some (w, s')" "(spec_step d)\<^sup>*\<^sup>* (s, view_of rid db) (s', view_of rid db')"
  using assms unfolding evolves_def by blast

lemma evolves_refl: "core db' = core db \<Longrightarrow> evolves env db db'"
  using core_view [of db' db] by (auto simp: evolves_def)

lemma evolves_trans:
  assumes "evolves env db db1" and "evolves env db1 db2"
  shows "evolves env db db2"
proof -
  have w: "workflows db2 = workflows db" "workflows db1 = workflows db" using assms by (auto simp: evolves_def)
  have "\<exists>s'. heads db2 rid = Some (w, s') \<and> (spec_step def)\<^sup>*\<^sup>* (s, view_of rid db) (s', view_of rid db2)"
    if h: "heads db rid = Some (w, s)" "Definition env w db = Inr def" for rid w s def
  proof -
    obtain s1 where s1: "heads db1 rid = Some (w, s1)" "(spec_step def)\<^sup>*\<^sup>* (s, view_of rid db) (s1, view_of rid db1)"
      by (rule evolvesD [OF assms(1) h])
    have D: "Definition env w db1 = Inr def" using h(2) Definition_workflows [OF w(2)] by simp
    obtain s2 where "heads db2 rid = Some (w, s2)" "(spec_step def)\<^sup>*\<^sup>* (s1, view_of rid db1) (s2, view_of rid db2)"
      by (rule evolvesD [OF assms(2) s1(1) D])
    with s1(2) show ?thesis by (auto intro: rtranclp_trans)
  qed
  then show ?thesis using assms w by (simp add: evolves_def)
qed

lemma spec_steps_inv:
  assumes "valid_definition d" and "(spec_step d)\<^sup>*\<^sup>* c c'" and "spec_inv d c"
  shows "spec_inv d c'"
  using assms(2,3) by (induction rule: rtranclp_induct) (auto intro: spec_step_inv [OF assms(1)])

lemma evolves_runs_ok:
  assumes ok: "runs_ok env db" and e: "evolves env db db'" and t: "tables_ok db'"
  shows "runs_ok env db'"
  unfolding runs_ok_def
proof (intro conjI t allI impI)
  fix rid w' s'
  assume h': "heads db' rid = Some (w', s')"
  then have "heads db rid \<noteq> None" using e unfolding evolves_def by (metis option.distinct(1))
  then obtain w s where h: "heads db rid = Some (w, s)" by auto
  obtain d where d: "Definition env w db = Inr d" "valid_definition d" "spec_inv d (s, view_of rid db)"
    by (rule runs_okD [OF ok h])
  from evolvesD [OF e h d(1)] h' have "w' = w" "(spec_step d)\<^sup>*\<^sup>* (s, view_of rid db) (s', view_of rid db')" by auto
  moreover have "Definition env w db' = Inr d" using e d(1) Definition_workflows by (metis evolves_def)
  ultimately show "\<exists>def. Definition env w' db' = Inr def \<and> valid_definition def \<and> spec_inv def (s', view_of rid db')"
    using d spec_steps_inv by blast
qed

section \<open>Moves\<close>

lemma moves:
  assumes "finite N" and "\<not> RunStatus_Terminal s"
    and "\<And>n. n \<in> N \<Longrightarrow> \<exists>a b. v n = Some a \<and> v' n = Some b \<and> active a \<and> active b"
    and "\<And>n. n \<notin> N \<Longrightarrow> v' n = v n"
  shows "(spec_step d)\<^sup>*\<^sup>* (s, v) (s, v')"
  using assms(1,3,4)
proof (induction N arbitrary: v rule: finite_induct)
  case empty
  then have "v' = v" by auto
  then show ?case by simp
next
  case (insert n N)
  from insert.prems(1) obtain a b where ab: "v n = Some a" "v' n = Some b" "active a" "active b" by blast
  have "(spec_step d)\<^sup>*\<^sup>* (s, v(n \<mapsto> b)) (s, v')"
    by (rule insert.IH) (use insert ab in \<open>auto split: if_splits\<close>)
  moreover have "spec_step d (s, v) (s, v(n \<mapsto> b))" using assms(2) ab by (intro spec_step.move)
  ultimately show ?case by (meson converse_rtranclp_into_rtranclp)
qed

lemma view_update:
  assumes "keys_kept f" and "db' = db\<lparr>tasks := sql_update c f (tasks db)\<rparr>"
  shows "view_of rid db' n = map_option (\<lambda>t. t_status (if c t then f t else t)) (task_by_name rid n db)"
  using task_by_name_update [OF assms(1)] assms(2) by (simp add: view_of_def option.map_comp comp_def)

lemma update_core: "db' = db\<lparr>tasks := ts\<rparr> \<Longrightarrow> heads db' = heads db \<and> workflows db' = workflows db"
  by (simp add: heads_def run_by_id_def fun_eq_iff)

lemma evolves_active:
  assumes ok: "runs_ok env db" and f: "keys_kept f" and db': "db' = db\<lparr>tasks := sql_update c f (tasks db)\<rparr>"
    and sel: "\<And>t. t \<in> set (tasks db) \<Longrightarrow> c t \<Longrightarrow> t_status (f t) = t_status t
      \<or> (active (t_status t) \<and> active (t_status (f t))
         \<and> (\<forall>w s. heads db (t_run_id t) = Some (w, s) \<longrightarrow> \<not> RunStatus_Terminal s))"
  shows "evolves env db db'"
  unfolding evolves_def
proof (intro conjI allI impI)
  note core = update_core [OF db']
  show "workflows db' = workflows db" using core by simp
  show "heads db' rid = None" if "heads db rid = None" for rid using core that by simp
  fix rid w s d
  assume h: "heads db rid = Some (w, s)" and d: "Definition env w db = Inr d"
  let ?v = "view_of rid db" and ?v' = "view_of rid db'"
  let ?N = "{n. ?v' n \<noteq> ?v n}"
  note v' = view_update [OF f db', of rid]
  have changed: "\<exists>a b. ?v n = Some a \<and> ?v' n = Some b \<and> active a \<and> active b \<and> \<not> RunStatus_Terminal s" if "n \<in> ?N" for n
  proof -
    from that v' [of n] obtain t where t: "task_by_name rid n db = Some t" "c t" "t_status (f t) \<noteq> t_status t"
      by (cases "task_by_name rid n db") (auto simp: view_of_def split: if_splits)
    with sel [of t] task_by_nameD [OF t(1)] h v' [of n] show ?thesis by (auto simp: view_of_def)
  qed
  have fin: "finite ?N"
  proof (rule finite_subset)
    show "?N \<subseteq> dom ?v" using changed by blast
    show "finite (dom ?v)" by (rule runs_okD [OF ok h]) (simp add: spec_inv_def)
  qed
  have "(spec_step d)\<^sup>*\<^sup>* (s, ?v) (s, ?v')"
  proof (cases "?N = {}")
    case True
    then have "?v' = ?v" by (simp add: fun_eq_iff)
    then show ?thesis by simp
  next
    case False
    then have "\<not> RunStatus_Terminal s" using changed by blast
    then show ?thesis
    proof (rule moves [OF fin])
      show "\<exists>a b. ?v n = Some a \<and> ?v' n = Some b \<and> active a \<and> active b" if "n \<in> ?N" for n
        using changed [OF that] by blast
    qed simp
  qed
  then show "\<exists>s'. heads db' rid = Some (w, s') \<and> (spec_step d)\<^sup>*\<^sup>* (s, ?v) (s', ?v')" using core h by simp
qed

text \<open>A row that is ready, waiting or retrying belongs to an open run.\<close>

lemma run_open:
  assumes "runs_ok env db" and "t \<in> set (tasks db)" and "\<not> Holds (t_status t)" and "\<not> TaskStatus_Terminal (t_status t)"
    and "heads db (t_run_id t) = Some (w, s)"
  shows "\<not> RunStatus_Terminal s"
proof
  assume s: "RunStatus_Terminal s"
  have "view_of (t_run_id t) db (t_name t) = Some (t_status t)"
    using task_find [of db t] assms(1,2) by (simp add: runs_ok_def view_of_def)
  moreover obtain d where "spec_inv d (s, view_of (t_run_id t) db)" by (rule runs_okD [OF assms(1,5)])
  ultimately show False using assms(3,4) s unfolding spec_inv_def closed_ok_def by auto
qed

lemma append_heads_open:
  assumes ok: "tables_ok db" and a: "append now rid p m db = Inr (u, db')" and h: "heads db rid = Some (w, s)"
  shows "\<not> RunStatus_Terminal s"
proof -
  from append_open [OF a] ok obtain r where r: "run_by_id rid db = Some r" "r_completed_at r = None"
    by (auto simp: tables_ok_def)
  with ok run_by_idD [OF r(1)] have "run_check r" by (auto simp: tables_ok_def list_all_iff)
  with r h show ?thesis by (auto simp: run_check_def heads_def)
qed

section \<open>Transactions as evolutions\<close>

definition evolved :: "env \<Rightarrow> db \<Rightarrow> db \<Rightarrow> bool" where
  "evolved env db0 db \<longleftrightarrow> runs_ok env db \<and> evolves env db0 db"

lemma evolved_block:
  assumes "\<And>db x db'. runs_ok env db \<Longrightarrow> m db = Inr (x, db') \<Longrightarrow> evolves env db db'" and "tx_keeps tables_ok m"
  shows "tx_keeps (evolved env db0) m"
proof (rule tx_keepsI)
  fix db x db'
  assume e: "evolved env db0 db" and m: "m db = Inr (x, db')"
  have ok: "runs_ok env db" using e by (simp add: evolved_def)
  have "tables_ok db'" using tx_keepsD [OF assms(2) runs_ok_tables [OF ok] m] .
  with assms(1) [OF ok m] ok e show "evolved env db0 db'"
    by (auto simp: evolved_def intro: evolves_runs_ok evolves_trans)
qed

lemma evolved_silent: "(\<And>k. tx_keeps (core_is k) m) \<Longrightarrow> tx_keeps tables_ok m \<Longrightarrow> tx_keeps (evolved env db0) m"
  by (rule evolved_block, rule evolves_refl, rule silentD)

named_theorems evolved_keeps \<open>transactions that are evolutions\<close>

lemma evolved_statements [evolved_keeps]:
  "tx_keeps (evolved env db0) (append now rid p m)" "tx_keeps (evolved env db0) (insert_worker wk)"
  "(\<And>x. wk_id (h x) = wk_id x) \<Longrightarrow> tx_keeps (evolved env db0) (update_workers e h)"
  by (simp_all add: evolved_silent silent tables_keeps)

lemma evolved_lease [evolved_keeps]:
  "tx_keeps (evolved env db0) (update_tasks c (\<lambda>t. t\<lparr>t_lease_expires_at := l, t_updated_at := now\<rparr>))"
  by (rule evolved_block) (auto simp: update_tasks_Inr intro: evolves_active tables_keeps)

lemma evolved_operations [evolved_keeps]:
  "tx_keeps (evolved env db0) (sweep_tx env' now)"
  "tx_keeps (evolved env db0) (retire_tx env' wid now)"
  "tx_keeps (evolved env db0) (renew_tx env' w ids now)"
  "tx_keeps (evolved env db0) (skipped_tx task key now)"
  "tx_keeps (evolved env db0) (heartbeat_tx wid active_tasks now)"
  unfolding engine_tx_defs
  by (intro keeps_rules evolved_keeps keeps_update_returning; simp)+

lemma selected_status:
  assumes ok: "tables_ok db" and t: "t \<in> set (tasks db)"
    and i: "t_id t \<in> set (map t_id (take n (skip_locked l (order_by g (filter c (tasks db))))))"
  shows "c t"
proof -
  from i obtain q where q: "q \<in> set (take n (skip_locked l (order_by g (filter c (tasks db)))))" "t_id q = t_id t" by auto
  then have "q \<in> set (skip_locked l (order_by g (filter c (tasks db))))" by (meson in_set_takeD)
  then have "q \<in> set (tasks db)" "c q" by auto
  with q ok t show ?thesis using task_id_unique by metis
qed

lemma returning_Inr:
  "update_tasks_returning c f db = Inr (ts, db') \<longleftrightarrow>
     ts = map f (filter c (tasks db)) \<and> (\<exists>n. update_tasks c f db = Inr (n, db'))"
  by (auto simp: update_tasks_returning_def tx_bind_Inr)

lemma silent_claim_one: "tx_keeps (core_is k) (tx_map (claim_one env w until now) ts)"
  unfolding claim_one_def hydrate_def by (intro keeps_rules silent)

lemma claim_evolves:
  assumes ok: "runs_ok env db" and m: "claim_tx env' locked now w ro limit db = Inr (x, db')"
  shows "evolves env db db'"
proof -
  let ?until = "now + LeaseDuration (env_timing env')"
  let ?c = "\<lambda>t. t_id t \<in> set (runnable locked now limit ro db)"
  from m obtain ts db1 n where u: "update_tasks ?c (lease w ?until now) db = Inr (n, db1)"
    and rest: "tx_map (claim_one env' w ?until now) ts db1 = Inr (x, db')"
    by (auto simp: claim_tx_def Let_def tx_bind_Inr returning_Inr)
  have "evolves env db db1"
  proof (rule evolves_active [OF ok, of "lease w ?until now" _ ?c])
    show "db1 = db\<lparr>tasks := sql_update ?c (lease w ?until now) (tasks db)\<rparr>" using u by (simp add: update_tasks_Inr)
    fix t
    assume t: "t \<in> set (tasks db)" "?c t"
    then have ready: "t_status t = TaskReady"
      using selected_status [OF runs_ok_tables [OF ok] t(1) t(2) [unfolded runnable_def]] by simp
    then show "t_status (lease w ?until now t) = t_status t \<or> (active (t_status t) \<and> active (t_status (lease w ?until now t))
        \<and> (\<forall>w s. heads db (t_run_id t) = Some (w, s) \<longrightarrow> \<not> RunStatus_Terminal s))"
      using run_open [OF ok t(1)] by (auto simp: lease_def Holds_def)
  qed simp
  moreover have "core db' = core db1" by (rule silentD [OF silent_claim_one rest])
  ultimately show ?thesis by (blast intro: evolves_trans evolves_refl)
qed

lemma promote_evolves:
  assumes ok: "runs_ok env db" and m: "promote_tx locked now limit db = Inr (x, db')"
  shows "evolves env db db'"
proof -
  let ?c = "\<lambda>t. t_id t \<in> set (due_retries locked now limit db)"
  let ?f = "\<lambda>t. t\<lparr>t_status := TaskReady, t_updated_at := now\<rparr> :: task_row"
  from m obtain ts db1 n u' where u: "update_tasks ?c ?f db = Inr (n, db1)" and rest: "tx_for ts (promote_one now) db1 = Inr (u', db')"
    by (auto simp: promote_tx_def tx_bind_Inr returning_Inr)
  have "evolves env db db1"
  proof (rule evolves_active [OF ok, of ?f _ ?c])
    show "db1 = db\<lparr>tasks := sql_update ?c ?f (tasks db)\<rparr>" using u by (simp add: update_tasks_Inr)
    fix t
    assume t: "t \<in> set (tasks db)" "?c t"
    then have "t_status t = TaskRetrying"
      using selected_status [OF runs_ok_tables [OF ok] t(1) t(2) [unfolded due_retries_def]] by simp
    then show "t_status (?f t) = t_status t \<or> (active (t_status t) \<and> active (t_status (?f t))
        \<and> (\<forall>w s. heads db (t_run_id t) = Some (w, s) \<longrightarrow> \<not> RunStatus_Terminal s))"
      using run_open [OF ok t(1)] by (auto simp: Holds_def)
  qed simp
  moreover have s: "tx_keeps (core_is (core db1)) (tx_for ts (promote_one now))"
    unfolding promote_one_def by (intro keeps_rules silent)
  moreover have "core db' = core db1" by (rule silentD [OF s rest])
  ultimately show ?thesis by (blast intro: evolves_trans evolves_refl)
qed

end
