(* ===== verification/Relab_Acts.thy ===== *)
theory Relab_Acts
  imports Relab_Refine
begin

text \<open>
  What the blocks of an outcome do to the view of one run: a row is rewritten, dependents
  are released or abandoned, the run is settled.
\<close>

section \<open>Acting on one run\<close>

definition acted :: "uuid \<Rightarrow> db \<Rightarrow> view \<Rightarrow> db \<Rightarrow> bool" where
  "acted rid db v db' \<longleftrightarrow> tables_ok db' \<and> workflows db' = workflows db \<and> heads db' = heads db
     \<and> (\<forall>q n. map_option t_id (task_by_name q n db') = map_option t_id (task_by_name q n db))
     \<and> (\<forall>q. view_of q db' = (if q = rid then v else view_of q db))"

lemma acted_trans: "acted rid db v db1 \<Longrightarrow> acted rid db1 v' db2 \<Longrightarrow> acted rid db v' db2"
  by (auto simp: acted_def)

lemma acted_tables: "acted rid db v db' \<Longrightarrow> tables_ok db'"
  by (simp add: acted_def)

lemma acted_view: "acted rid db v db' \<Longrightarrow> view_of rid db' = v"
  by (simp add: acted_def)

lemma acted_found:
  assumes "acted rid db v db'" and "task_by_name rid n db = Some t" and "v n = Some s"
  obtains q where "task_by_name rid n db' = Some q" "t_id q = t_id t" "t_status q = s"
proof -
  from assms have "map_option t_id (task_by_name rid n db') = Some (t_id t)" "view_of rid db' n = Some s"
    by (simp_all add: acted_def)
  with that show thesis by (auto simp: view_of_def)
qed

lemma acted_heads: "acted rid db v db' \<Longrightarrow> heads db' = heads db"
  by (simp add: acted_def)

lemma acted_silent:
  assumes "tables_ok db" and "\<And>k. tx_keeps (core_is k) m" and "tx_keeps tables_ok m" and "m db = Inr (x, db')"
  shows "acted rid db (view_of rid db) db'"
  using core_view [OF silentD [OF assms(2,4)]] tx_keepsD [OF assms(3,1,4)] by (simp add: acted_def task_by_name_def)

lemma acted_then_silent:
  assumes a: "acted rid db v db1" and "\<And>k. tx_keeps (core_is k) m" and "tx_keeps tables_ok m" and "m db1 = Inr (x, db2)"
  shows "acted rid db v db2"
  using acted_trans [OF a acted_silent [OF acted_tables [OF a] assms(2-4), of rid]] acted_view [OF a] by simp

lemma acted_append: "acted rid db v db1 \<Longrightarrow> append now q p m db1 = Inr (x, db2) \<Longrightarrow> acted rid db v db2"
  by (rule acted_then_silent [OF _ silent(1) tables_append])

lemma acted_dead_letter: "acted rid db v db1 \<Longrightarrow> insert_dead_letter l db1 = Inr (x, db2) \<Longrightarrow> acted rid db v db2"
  by (rule acted_then_silent [OF _ silent(5) tables_inserts(2)])

lemma acted_attempt: "acted rid db v db1 \<Longrightarrow> record_attempt a db1 = Inr (x, db2) \<Longrightarrow> acted rid db v db2"
  by (rule acted_then_silent [OF _ silent(4) tables_inserts(1)])

lemma acted_refl: "tables_ok db \<Longrightarrow> acted rid db (view_of rid db) db"
  by (simp add: acted_def)

text \<open>An UPDATE whose condition fixes the row.\<close>

lemma acted_row:
  assumes ok: "tables_ok db" and f: "keys_kept f" and u: "update_tasks c f db = Inr (k, db')"
    and at_t: "task_by_name rid n db = Some t" and only: "\<And>q. q \<in> set (tasks db) \<Longrightarrow> c q \<Longrightarrow> t_id q = t_id t"
  shows "acted rid db (if c t then (view_of rid db)(n \<mapsto> t_status (f t)) else view_of rid db) db'"
proof -
  have t: "t \<in> set (tasks db)" and rt: "t_run_id t = rid" "t_name t = n" using task_by_nameD [OF at_t] by simp_all
  have db': "db' = db\<lparr>tasks := sql_update c f (tasks db)\<rparr>" using u by (simp add: update_tasks_Inr)
  have one: "q = t" if "q \<in> set (tasks db)" "c q" for q using only [OF that] task_id_unique [OF ok that(1) t] by simp
  have "view_of r db' m = (if r = rid then (if c t then (view_of rid db)(n \<mapsto> t_status (f t)) else view_of rid db) m
      else view_of r db m)" for r m
  proof (cases "task_by_name r m db")
    case None
    then show ?thesis using view_update [OF f db', of r m] at_t by (auto simp: view_of_def)
  next
    case (Some q)
    have v: "view_of r db m = Some (t_status q)" "view_of r db' m = Some (t_status (if c q then f q else q))"
      using view_update [OF f db', of r m] Some by (simp_all add: view_of_def)
    show ?thesis
    proof (cases "q = t")
      case True
      then show ?thesis using v task_by_nameD [OF Some] rt by simp
    next
      case False
      then have "\<not> c q" using one task_by_nameD [OF Some] by blast
      moreover have "\<not> (m = n \<and> r = rid)" using Some at_t False by auto
      ultimately show ?thesis using v by auto
    qed
  qed
  moreover have "tables_ok db'" using tx_keepsD [OF tables_update_tasks [OF f] ok u] .
  moreover have "map_option t_id (task_by_name r m db') = map_option t_id (task_by_name r m db)" for r m
    using task_by_name_update [OF f, of r m] f by (simp add: db' option.map_comp comp_def keys_kept_def if_distrib cong: if_cong)
  ultimately show ?thesis using update_core [OF db'] by (auto simp: acted_def fun_eq_iff)
qed

lemma view_row: "tables_ok db \<Longrightarrow> t \<in> set (tasks db) \<Longrightarrow> view_of (t_run_id t) db (t_name t) = Some (t_status t)"
  by (simp add: view_of_def task_find)

lemma in_run_tasks: "t \<in> set (run_tasks rid db) \<longleftrightarrow> t \<in> set (tasks db) \<and> t_run_id t = rid"
  by (auto simp: run_tasks_def)

lemma view_iff:
  assumes "tables_ok db"
  shows "view_of rid db n = Some s \<longleftrightarrow> (\<exists>t\<in>set (run_tasks rid db). t_name t = n \<and> t_status t = s)"
proof
  assume "view_of rid db n = Some s"
  then obtain t where t: "task_by_name rid n db = Some t" "t_status t = s" by (auto simp: view_of_def)
  then show "\<exists>t\<in>set (run_tasks rid db). t_name t = n \<and> t_status t = s"
    using task_by_nameD [OF t(1)] by (intro bexI [of _ t]) (simp_all add: in_run_tasks)
next
  assume "\<exists>t\<in>set (run_tasks rid db). t_name t = n \<and> t_status t = s"
  then show "view_of rid db n = Some s" using view_row [OF assms] by (auto simp: in_run_tasks)
qed

lemma succeededTasks_view: "tables_ok db \<Longrightarrow> set (succeededTasks rid db) = {n. view_of rid db n = Some TaskSucceeded}"
  by (auto simp: succeededTasks_def view_iff)

section \<open>Unlocking\<close>

definition released :: "wf_definition \<Rightarrow> string set \<Rightarrow> string set \<Rightarrow> view \<Rightarrow> view" where
  "released d L S v = (\<lambda>m.
     if m \<in> L \<and> v m = Some TaskPending \<and> (\<forall>k. (m, k) \<in> dep_edges d \<longrightarrow> k \<in> S) then Some TaskReady else v m)"

lemma promote_status [simp]: "t_status (promote now t) = TaskReady"
  by (simp add: promote_def)

lemma unlock_one_acts:
  assumes ok: "tables_ok db" and d: "distinct (step_names d)" and m: "unlock_one d rid now succ n db = Inr (x, db')"
  shows "acted rid db (released d {n} (set succ) (view_of rid db)) db'"
proof -
  let ?c = "\<lambda>t. t_run_id t = rid \<and> t_name t = n \<and> t_status t = TaskPending"
  from m obtain st where st: "Step d n = Some st" by (auto simp: unlock_one_def split: option.splits)
  have deps: "(\<forall>k. (n, k) \<in> dep_edges d \<longrightarrow> k \<in> set succ) \<longleftrightarrow> list_all (\<lambda>k. k \<in> set succ) (st_DependsOn st)"
    using st by (auto simp: dep_edges_Step [OF d] list_all_iff)
  show ?thesis
  proof (cases "list_all (\<lambda>k. k \<in> set succ) (st_DependsOn st)")
    case False
    then have "db' = db" using m st by (auto simp: unlock_one_def split: if_splits)
    moreover have "released d {n} (set succ) (view_of rid db) = view_of rid db"
      using False deps by (auto simp: released_def fun_eq_iff)
    ultimately show ?thesis using ok by (simp add: acted_def)
  next
    case True
    with m st obtain k db1 where u: "update_tasks ?c (promote now) db = Inr (k, db1)"
      and rest: "(if k = 0 then tx_return () else append now rid (TaskScheduledPayload 0 now (st_DependsOn st)) (at_task n None now)) db1 = Inr (x, db')"
      by (auto simp: unlock_one_def tx_bind_Inr)
    have a1: "acted rid db (released d {n} (set succ) (view_of rid db)) db1"
    proof (cases "task_by_name rid n db")
      case None
      then have none: "\<not> ?c t" if "t \<in> set (tasks db)" for t using task_find [OF ok that] by auto
      then have "db1 = db" using u by (simp add: update_tasks_Inr sql_update_none)
      then show ?thesis using ok None by (auto simp: acted_def released_def view_of_def)
    next
      case (Some t)
      note t = task_by_nameD [OF Some]
      have "acted rid db (if ?c t then (view_of rid db)(n \<mapsto> TaskReady) else view_of rid db) db1"
      proof -
        have only: "t_id q = t_id t" if "q \<in> set (tasks db)" "?c q" for q using Some task_find [OF ok that(1)] that(2) by simp
        show ?thesis
          by (rule acted_row [OF ok keys_kept_updates(3) u Some, unfolded promote_status]) (rule only)
      qed
      moreover have "released d {n} (set succ) (view_of rid db) = (if ?c t then (view_of rid db)(n \<mapsto> TaskReady) else view_of rid db)"
      proof
        have v: "view_of rid db n = Some (t_status t)" using Some by (simp add: view_of_def)
        show "released d {n} (set succ) (view_of rid db) m = (if ?c t then (view_of rid db)(n \<mapsto> TaskReady) else view_of rid db) m" for m
          unfolding released_def using True deps t v by (cases "m = n") auto
      qed
      ultimately show ?thesis by simp
    qed
    show ?thesis
    proof (cases "k = 0")
      case True
      then show ?thesis using rest a1 by simp
    next
      case False
      then show ?thesis using rest acted_append [OF a1] by simp
    qed
  qed
qed

lemma unlock_loop_acts:
  assumes "tables_ok db" and "distinct (step_names d)" and "tx_for ns (unlock_one d rid now succ) db = Inr (x, db')"
  shows "acted rid db (released d (set ns) (set succ) (view_of rid db)) db'"
  using assms(1,3)
proof (induction ns arbitrary: db)
  case Nil
  then show ?case by (simp add: acted_def released_def)
next
  case (Cons n ns)
  from Cons.prems(2) obtain y db1 where one: "unlock_one d rid now succ n db = Inr (y, db1)"
    and rest: "tx_for ns (unlock_one d rid now succ) db1 = Inr (x, db')" by (auto simp: tx_bind_Inr)
  note a = unlock_one_acts [OF Cons.prems(1) assms(2) one]
  have "released d (set ns) (set succ) (released d {n} (set succ) (view_of rid db)) = released d (set (n # ns)) (set succ) (view_of rid db)"
  proof
    fix m
    show "released d (set ns) (set succ) (released d {n} (set succ) (view_of rid db)) m = released d (set (n # ns)) (set succ) (view_of rid db) m"
      unfolding released_def
      by (cases "view_of rid db m = Some TaskPending"; cases "\<forall>k. (m, k) \<in> dep_edges d \<longrightarrow> k \<in> set succ"; cases "m = n"; simp)
  qed
  with acted_trans [OF a Cons.IH [OF acted_tables [OF a] rest]] acted_view [OF a] show ?case by simp
qed

lemma Dependents_edges: "set (Dependents d n) = {m. (m, n) \<in> dep_edges d}"
  by (auto simp: Dependents_def dep_edges_def)

lemma unlockDependents_acts:
  assumes ok: "tables_ok db" and d: "distinct (step_names d)" and m: "unlockDependents d rid n now db = Inr (x, db')"
  shows "acted rid db (unlock d n (view_of rid db)) db'"
proof (cases "Dependents d n = []")
  case True
  then have "db' = db" using m by (simp add: unlockDependents_def)
  moreover have "(k, n) \<notin> dep_edges d" for k using True Dependents_edges [of d n] by auto
  then have "unlock d n v = v" for v by (simp add: unlock_def)
  ultimately show ?thesis using ok by (simp add: acted_def)
next
  case False
  then have "tx_for (Dependents d n) (unlock_one d rid now (succeededTasks rid db)) db = Inr (x, db')"
    using m by (auto simp: unlockDependents_def tx_bind_Inr)
  from unlock_loop_acts [OF ok d this]
  have "acted rid db (released d (set (Dependents d n)) (set (succeededTasks rid db)) (view_of rid db)) db'" .
  moreover have "released d (set (Dependents d n)) (set (succeededTasks rid db)) (view_of rid db) = unlock d n (view_of rid db)"
    by (auto simp: released_def unlock_def Dependents_edges succeededTasks_view [OF ok] fun_eq_iff)
  ultimately show ?thesis by simp
qed

section \<open>Dead letters\<close>

lemma bury_status [simp]: "t_status (bury now t) = TaskDead"
  by (simp add: bury_def)

lemma deadLetter_acts:
  assumes ok: "tables_ok db" and t: "task_by_name rid n db = Some t" and i: "t_id task = t_id t"
    and m: "deadLetter task reason detail now db = Inr (x, db')"
  shows "acted rid db (if buriable (t_status t) then (view_of rid db)(n \<mapsto> TaskDead) else view_of rid db) db'"
proof -
  let ?c = "\<lambda>q. t_id q = t_id task \<and> buriable (t_status q)"
  let ?dl = "\<lparr>dl_task_id = t_id task, dl_run_id = t_run_id task, dl_reason = reason,
                dl_attempts = max (t_attempt task) 1, dl_last_worker = t_worker_id task, dl_created_at = now\<rparr>"
  from m obtain k db1 y db2 where u: "update_tasks ?c (bury now) db = Inr (k, db1)"
    and l: "insert_dead_letter ?dl db1 = Inr (y, db2)"
    and p: "append now (t_run_id task) (TaskDeadLetteredPayload (t_attempt task) (reason @ '': '' @ truncateError detail))
       (at_task (t_name task) None now) db2 = Inr (x, db')"
    by (auto simp: deadLetter_def tx_bind_Inr)
  have "acted rid db (if ?c t then (view_of rid db)(n \<mapsto> TaskDead) else view_of rid db) db1"
    by (rule acted_row [OF ok keys_kept_updates(6) u t, unfolded bury_status]) (simp add: i)
  from acted_append [OF acted_dead_letter [OF this l] p] show ?thesis using i by simp
qed

definition buried :: "string set \<Rightarrow> view \<Rightarrow> view" where
  "buried L v = (\<lambda>m. case v m of Some s \<Rightarrow> Some (if m \<in> L \<and> buriable s then TaskDead else s) | None \<Rightarrow> None)"

lemma buried_buried: "buried L (buried M v) = buried (L \<union> M) v"
  by (rule ext) (auto simp: buried_def buriable_def split: option.split)

lemma buried_empty: "buried {} v = v"
  by (rule ext) (simp add: buried_def split: option.split)

lemma abandon_one_acts:
  assumes ok: "tables_ok db" and m: "abandon_one rid failed now n db = Inr (x, db')"
  shows "acted rid db (buried {n} (view_of rid db)) db'"
proof -
  from m obtain t where t: "task_by_name rid n db = Some t"
    and rest: "(if TaskStatus_Terminal (t_status t) then tx_return ()
      else deadLetter t (''upstream task '' @ failed @ '' did not succeed'') [] now) db = Inr (x, db')"
    by (auto simp: abandon_one_def tx_bind_Inr)
  have v: "view_of rid db n = Some (t_status t)" using t by (simp add: view_of_def)
  have "buried {n} (view_of rid db) = (if buriable (t_status t) then (view_of rid db)(n \<mapsto> TaskDead) else view_of rid db)"
    using v by (auto simp: buried_def fun_eq_iff split: option.splits)
  moreover have "TaskStatus_Terminal (t_status t) \<Longrightarrow> \<not> buriable (t_status t)"
    by (auto simp: buriable_def)
  ultimately show ?thesis using rest deadLetter_acts [OF ok t refl] acted_refl [OF ok] by (auto split: if_splits)
qed

lemma abandonDependents_acts:
  assumes "tables_ok db" and m: "abandonDependents d rid failed now db = Inr (x, db')"
  shows "acted rid db (buried (set (descendants d failed)) (view_of rid db)) db'"
proof -
  have "acted rid db (buried (set ns) (view_of rid db)) db'"
    if "tables_ok db" "tx_for ns (abandon_one rid failed now) db = Inr (x, db')" for ns
    using that
  proof (induction ns arbitrary: db)
    case Nil
    then show ?case by (simp add: acted_def buried_empty)
  next
    case (Cons n ns)
    from Cons.prems(2) obtain y db1 where one: "abandon_one rid failed now n db = Inr (y, db1)"
      and rest: "tx_for ns (abandon_one rid failed now) db1 = Inr (x, db')" by (auto simp: tx_bind_Inr)
    note a = abandon_one_acts [OF Cons.prems(1) one]
    from acted_trans [OF a Cons.IH [OF acted_tables [OF a] rest]] acted_view [OF a] show ?case
      by (simp add: buried_buried)
  qed
  then show ?thesis using assms by (simp add: abandonDependents_def)
qed

text \<open>
  Downstream of a step that has just died nothing runs, so burying and the machine's
  \<open>abandon\<close> agree.
\<close>

lemma abandon_buried:
  assumes inv: "spec_inv d (s, v)" and n: "v n = Some a" "a \<noteq> TaskSucceeded"
  shows "buried (set (descendants d n)) (v(n \<mapsto> TaskDead)) = abandon d n (v(n \<mapsto> TaskDead))"
proof
  fix m
  show "buried (set (descendants d n)) (v(n \<mapsto> TaskDead)) m = abandon d n (v(n \<mapsto> TaskDead)) m"
  proof (cases "m \<in> set (descendants d n) \<and> m \<noteq> n")
    case False
    then show ?thesis by (auto simp: buried_def abandon_def buriable_def split: option.splits)
  next
    case True
    then have "(n, m) \<in> (down_edges d)\<^sup>+" using descendants_correct(3) [of d n] by auto
    then have "u = TaskPending \<or> u = TaskDead" if "v m = Some u" for u
      using downstream_idle [of d v n m u] inv n that by (auto simp: spec_inv_def)
    with True show ?thesis by (cases "v m") (auto simp: buried_def abandon_def buriable_def)
  qed
qed

section \<open>Settling\<close>

definition settled_to :: "uuid \<Rightarrow> run_status \<Rightarrow> db \<Rightarrow> db \<Rightarrow> bool" where
  "settled_to rid s' db db' \<longleftrightarrow> tasks db' = tasks db \<and> workflows db' = workflows db
     \<and> (\<forall>w s. heads db rid = Some (w, s) \<longrightarrow> heads db' = (heads db)(rid \<mapsto> (w, s')))"

lemma heads_update_runs:
  assumes "run_keys_kept f" and "db' = db\<lparr>runs := sql_update c f (runs db)\<rparr>"
  shows "heads db' rid = map_option (\<lambda>r. (r_workflow_id r, r_status (if c r then f r else r))) (run_by_id rid db)"
proof -
  have "run_by_id rid db' = map_option (\<lambda>r. if c r then f r else r) (run_by_id rid db)"
    using assms by (simp add: run_by_id_def run_keys_kept_def find_sql_update)
  then show ?thesis using assms(1) by (cases "run_by_id rid db") (simp_all add: heads_def run_keys_kept_def)
qed

lemma close_run_acts:
  assumes h: "heads db rid = Some (w, s)" and m: "close_run rid now status p reason db = Inr (x, db')"
  shows "settled_to rid (if s = RunQueued \<or> s = RunRunning then status else s) db db'"
proof -
  from h obtain r where r: "run_by_id rid db = Some r" "r_status r = s" "r_workflow_id r = w" by (auto simp: heads_def)
  show ?thesis
  proof (cases "s = RunQueued \<or> s = RunRunning")
    case False
    then have "db' = db" using m r by (auto simp: close_run_def tx_bind_Inr)
    then show ?thesis using h False by (auto simp: settled_to_def fun_eq_iff)
  next
    case True
    let ?f = "\<lambda>q. q\<lparr>r_status := status, r_completed_at := Some now, r_failure_reason := nullString reason\<rparr> :: run_row"
    from m r True obtain u db1 n where a: "append now rid p (at_run now) db = Inr (u, db1)"
      and upd: "update_runs (\<lambda>q. r_id q = rid) ?f db1 = Inr (n, db')"
      by (auto simp: close_run_def tx_bind_Inr)
    have db': "db' = db1\<lparr>runs := sql_update (\<lambda>q. r_id q = rid) ?f (runs db1)\<rparr>" using upd by (simp add: update_runs_Inr)
    have c: "tasks db1 = tasks db" "workflows db1 = workflows db" "heads db1 = heads db"
      using append_core [OF a] by (simp_all add: core_def)
    have "heads db' q = (if q = rid then Some (w, status) else heads db q)" for q
    proof -
      have "heads db' q = map_option (\<lambda>r. (r_workflow_id r, r_status (if r_id r = rid then ?f r else r))) (run_by_id q db1)"
        by (rule heads_update_runs [OF run_keys_kept_updates(3) db'])
      moreover have "heads db q = map_option (\<lambda>r. (r_workflow_id r, r_status r)) (run_by_id q db1)"
        using c(3) by (simp add: heads_def fun_eq_iff)
      ultimately show ?thesis using h by (cases "run_by_id q db1") (auto dest: run_by_idD)
    qed
    then show ?thesis using True h c db' by (auto simp: settled_to_def fun_eq_iff)
  qed
qed

lemma sql_count_disjoint:
  assumes "\<And>r. \<not> (P r \<and> Q r)"
  shows "sql_count P rs + sql_count Q rs = sql_count (\<lambda>r. P r \<or> Q r) rs"
  by (induction rs) (use assms in auto)

lemma terminal_cases: "TaskStatus_Terminal s \<longleftrightarrow> s = TaskSucceeded \<or> s = TaskDead"
  by (cases s) auto

lemma all_ended_count:
  assumes "tables_ok db"
  shows "all_ended (view_of rid db) \<longleftrightarrow>
    \<not> sql_count (\<lambda>t. t_status t = TaskSucceeded) (run_tasks rid db)
      + sql_count (\<lambda>t. t_status t = TaskDead) (run_tasks rid db) < int (length (run_tasks rid db))"
proof -
  let ?P = "\<lambda>t. t_status t = TaskSucceeded \<or> t_status t = TaskDead"
  have "sql_count (\<lambda>t. t_status t = TaskSucceeded) (run_tasks rid db) + sql_count (\<lambda>t. t_status t = TaskDead) (run_tasks rid db)
      = sql_count ?P (run_tasks rid db)" by (rule sql_count_disjoint) simp
  moreover have "all_ended (view_of rid db) \<longleftrightarrow> (\<forall>t\<in>set (run_tasks rid db). ?P t)"
    by (auto simp: all_ended_def view_iff [OF assms] terminal_cases)
  ultimately show ?thesis using sql_count_all [of ?P "run_tasks rid db"] sql_count_le [of ?P "run_tasks rid db"] by linarith
qed

lemma settleRun_acts:
  assumes ok: "tables_ok db" and h: "heads db rid = Some (w, s)" and m: "settleRun rid now db = Inr (x, db')"
  shows "settled_to rid (settled s (view_of rid db)) db db'"
proof -
  let ?dead = "sql_count (\<lambda>t. t_status t = TaskDead) (run_tasks rid db)"
  have dead: "0 < ?dead \<longleftrightarrow> (\<exists>n. view_of rid db n = Some TaskDead)"
  proof -
    have "0 < ?dead \<longleftrightarrow> ?dead \<noteq> 0" using sql_count_nonneg [of "\<lambda>t. t_status t = TaskDead" "run_tasks rid db"] by linarith
    then show ?thesis by (auto simp: view_iff [OF ok])
  qed
  show ?thesis
  proof (cases "all_ended (view_of rid db)")
    case False
    then have "db' = db" using m all_ended_count [OF ok, of rid] by (auto simp: settleRun_def Let_def tx_bind_Inr)
    then show ?thesis using False h by (auto simp: settled_to_def settled_def fun_eq_iff)
  next
    case True
    then obtain p reason where "close_run rid now (if 0 < ?dead then RunFailed else RunSucceeded) p reason db = Inr (x, db')"
      using m all_ended_count [OF ok, of rid] by (auto simp: settleRun_def Let_def tx_bind_Inr split: if_splits)
    from close_run_acts [OF h this] show ?thesis using True unfolding dead settled_def by simp
  qed
qed

section \<open>One run at a time\<close>

lemma evolves_one:
  assumes h: "heads db rid = Some (w, s)" and W: "workflows db' = workflows db" and H: "heads db' = (heads db)(rid \<mapsto> (w, s'))"
    and V: "\<And>q. q \<noteq> rid \<Longrightarrow> view_of q db' = view_of q db"
    and st: "\<And>d. Definition env w db = Inr d \<Longrightarrow> (spec_step d)\<^sup>*\<^sup>* (s, view_of rid db) (s', view_of rid db')"
  shows "evolves env db db'"
  unfolding evolves_def
proof (intro conjI allI impI W)
  show "heads db' q = None" if "heads db q = None" for q using that h H by auto
  fix q w1 s1 d
  assume q: "heads db q = Some (w1, s1)" "Definition env w1 db = Inr d"
  show "\<exists>s'. heads db' q = Some (w1, s') \<and> (spec_step d)\<^sup>*\<^sup>* (s1, view_of q db) (s', view_of q db')"
  proof (cases "q = rid")
    case True
    then have "w1 = w" "s1 = s" using q(1) h by simp_all
    then show ?thesis using st q(2) H True by auto
  next
    case False
    then show ?thesis using H V q(1) by simp
  qed
qed

lemma evolves_acted:
  assumes "heads db rid = Some (w, s)" and "acted rid db v db'"
    and "\<And>d. Definition env w db = Inr d \<Longrightarrow> (spec_step d)\<^sup>*\<^sup>* (s, view_of rid db) (s, v)"
  shows "evolves env db db'"
  by (rule evolves_one [OF assms(1)]) (use assms in \<open>auto simp: acted_def\<close>)

text \<open>An outcome: the blocks act on the run's view, then the run is settled.\<close>

lemma evolves_settled:
  assumes h: "heads db rid = Some (w, s)" and a: "acted rid db v db1" and m: "settleRun rid now db1 = Inr (x, db')"
    and st: "\<And>d. Definition env w db = Inr d \<Longrightarrow> spec_step d (s, view_of rid db) (settled s v, v)"
  shows "evolves env db db'"
proof -
  have h1: "heads db1 rid = Some (w, s)" using acted_heads [OF a] h by simp
  have "settled_to rid (settled s v) db1 db'"
    using settleRun_acts [OF acted_tables [OF a] h1 m] acted_view [OF a] by simp
  then have e: "tasks db' = tasks db1" "workflows db' = workflows db" "heads db' = (heads db)(rid \<mapsto> (w, settled s v))"
    using h1 a by (auto simp: settled_to_def acted_def)
  have "view_of q db' = view_of q db1" for q using e(1) by (simp add: view_of_def task_by_name_def)
  then have "view_of q db' = (if q = rid then v else view_of q db)" for q using a by (simp add: acted_def)
  then show ?thesis using e st by (intro evolves_one [OF h]) auto
qed

end
