(* ===== verification/Relab_Schedule.thy ===== *)
theory Relab_Schedule
  imports Relab_Acts
begin

text \<open>
  Every transaction of the engine as steps of the scheduler's machine, and what follows for
  every reachable database.
\<close>

section \<open>Rows, runs and definitions\<close>

lemma task_head:
  assumes "tables_ok db" and "t \<in> set (tasks db)"
  obtains w s where "heads db (t_run_id t) = Some (w, s)"
proof -
  from assms obtain r where "r \<in> set (runs db)" "r_id r = t_run_id t" by (fastforce simp: tables_ok_def)
  with run_find [OF assms(1)] have "run_by_id (t_run_id t) db = Some r" by metis
  with that show thesis by (simp add: heads_def)
qed

lemma copy_row:
  assumes "tables_ok db" and "copy_of_task task db"
  obtains t where "task_by_name (t_run_id task) (t_name task) db = Some t" "t_id t = t_id task"
proof -
  from assms(2) obtain t where t: "t \<in> set (tasks db)" "t_id t = t_id task" "t_run_id t = t_run_id task" "t_name t = t_name task"
    by (auto simp: copy_of_task_def)
  with task_find [OF assms(1) t(1)] that show thesis by simp
qed

lemma named_head:
  assumes "tables_ok db" and "task_by_name rid n db = Some t"
  obtains w s where "heads db rid = Some (w, s)"
  using task_head [OF assms(1)] task_by_nameD [OF assms(2)] by metis

lemma tx_lift_Inr [simp]: "tx_lift f db = Inr (x, db') \<longleftrightarrow> f db = Inr x \<and> db' = db"
  by (auto simp: tx_lift_def split: sum.splits)

lemma definitionForRun_Inr:
  "definitionForRun env rid db = Inr (d, db') \<longleftrightarrow>
     db' = db \<and> (\<exists>w s. heads db rid = Some (w, s) \<and> Definition env w db = Inr d)"
  by (auto simp: definitionForRun_def tx_bind_Inr heads_def)

lemma Definition_valid: "Definition env w db = Inr d \<Longrightarrow> valid_definition d"
proof -
  assume "Definition env w db = Inr d"
  then obtain known d' h where "validate known d' = []" "d = d'\<lparr>d_Hash := h\<rparr>"
    by (auto simp: Definition_def Parse_def split: sum.splits if_splits)
  then show ?thesis
    using validate_ok [of known d']
    by (simp add: valid_definition_def step_names_def deps_known_def dep_edges_def)
qed

lemma acted_open:
  assumes "acted rid db v db1" and "append now rid p m db1 = Inr (u, db2)" and "heads db rid = Some (w, s)"
  shows "\<not> RunStatus_Terminal s"
  using append_heads_open [OF acted_tables [OF assms(1)] assms(2)] acted_heads [OF assms(1)] assms(3) by simp

section \<open>Starting\<close>

lemma markRunStarted_evolves:
  assumes m: "markRunStarted rid now db = Inr (x, db')"
  shows "evolves env db db'"
proof -
  let ?c = "\<lambda>r. r_id r = rid \<and> r_status r = RunQueued"
  let ?f = "\<lambda>r. r\<lparr>r_status := RunRunning, r_started_at := Some now\<rparr> :: run_row"
  from m obtain n db1 where u: "update_runs ?c ?f db = Inr (n, db1)"
    and rest: "(if n = 0 then tx_return () else append now rid RunStartedPayload (at_run now)) db1 = Inr (x, db')"
    by (auto simp: markRunStarted_def tx_bind_Inr)
  have db1: "db1 = db\<lparr>runs := sql_update ?c ?f (runs db)\<rparr>" using u by (simp add: update_runs_Inr)
  have same: "tasks db1 = tasks db" "workflows db1 = workflows db" by (simp_all add: db1)
  have v: "view_of q db1 = view_of q db" for q by (simp add: view_of_def task_by_name_def same)
  have "evolves env db db1"
  proof (cases "\<exists>w. heads db rid = Some (w, RunQueued)")
    case True
    then obtain w where w: "heads db rid = Some (w, RunQueued)" by blast
    have "heads db1 q = ((heads db)(rid \<mapsto> (w, RunRunning))) q" for q
      using heads_update_runs [OF run_keys_kept_updates(2) db1, of q] w
      by (cases "run_by_id q db") (auto simp: heads_def dest: run_by_idD)
    then show ?thesis
      by (intro evolves_one [OF w same(2)]) (auto simp: v intro: spec_step.begun)
  next
    case False
    have "heads db1 q = heads db q" for q
      using heads_update_runs [OF run_keys_kept_updates(2) db1, of q] False run_by_idD [of q db]
      by (cases "run_by_id q db"; cases "q = rid") (auto simp: heads_def)
    then show ?thesis by (intro evolves_refl) (simp add: core_def same fun_eq_iff)
  qed
  moreover have "core db' = core db1" using rest append_core by (auto split: if_splits)
  ultimately show ?thesis by (blast intro: evolves_trans evolves_refl)
qed

lemma start_evolves:
  assumes ok: "runs_ok env db" and copy: "copy_of_task task db" and m: "start_tx w task handler now db = Inr (x, db')"
  shows "evolves env db db'"
proof -
  let ?rid = "t_run_id task" and ?n = "t_name task"
  let ?c = "\<lambda>t. held_by w task t \<and> t_status t = TaskLeased"
  note tok = runs_ok_tables [OF ok]
  obtain t where t: "task_by_name ?rid ?n db = Some t" "t_id t = t_id task" by (rule copy_row [OF tok copy])
  obtain wid s where h: "heads db ?rid = Some (wid, s)" by (rule named_head [OF tok t(1)])
  from m obtain k db1 y db2 z db3 where u: "update_tasks ?c (start now) db = Inr (k, db1)" and k: "k \<noteq> 0"
    and r: "record_attempt \<lparr>ta_task_id = t_id task, ta_attempt = t_attempt task, ta_worker_id = w, ta_started_at = now\<rparr> db1 = Inr (y, db2)"
    and p: "append now ?rid (TaskStartedPayload (t_attempt task) handler) (at_task ?n (Some w) now) db2 = Inr (z, db3)"
    and mk: "markRunStarted ?rid now db3 = Inr (x, db')"
    by (auto simp: start_tx_def tx_bind_Inr split: if_splits)
  have "acted ?rid db (if ?c t then (view_of ?rid db)(?n \<mapsto> t_status (start now t)) else view_of ?rid db) db1"
    by (rule acted_row [OF tok keys_kept_updates(2) u t(1)]) (simp add: held_by_def t(2))
  moreover have ct: "?c t"
  proof -
    obtain q where q: "q \<in> set (tasks db)" "?c q" using u k by (auto simp: update_tasks_Inr)
    then have "q = t" using task_id_unique [OF tok q(1), of t] task_by_nameD [OF t(1)] t(2) by (simp add: held_by_def)
    with q show ?thesis by simp
  qed
  ultimately have a1: "acted ?rid db ((view_of ?rid db)(?n \<mapsto> TaskRunning)) db1" by (simp add: start_def)
  note a2 = acted_attempt [OF a1 r]
  note a3 = acted_append [OF a2 p]
  have "evolves env db db3"
  proof (rule evolves_acted [OF h a3], rule r_into_rtranclp, rule spec_step.move)
    show "\<not> RunStatus_Terminal s" by (rule acted_open [OF a2 p h])
    show "view_of ?rid db ?n = Some TaskLeased" using t ct by (simp add: view_of_def)
  qed simp_all
  with markRunStarted_evolves [OF mk] show ?thesis by (blast intro: evolves_trans)
qed

section \<open>Completing\<close>

lemma silent_artifacts: "tx_keeps (core_is k) (recordArtifacts task as)" "tx_keeps tables_ok (recordArtifacts task as)"
  unfolding recordArtifacts_def record_artifact_def by (intro keeps_rules silent tables_keeps)+

text \<open>The row a guarded update found, and what it makes of the run's view.\<close>

lemma acted_held:
  assumes ok: "tables_ok db" and t: "task_by_name (t_run_id task) (t_name task) db = Some t" "t_id t = t_id task"
    and f: "keys_kept f" and u: "update_tasks (\<lambda>t. held_by w task t \<and> P (t_status t)) f db = Inr (k, db1)" and k: "k \<noteq> 0"
  shows "P (t_status t) \<and> acted (t_run_id task) db ((view_of (t_run_id task) db)(t_name task \<mapsto> t_status (f t))) db1"
proof -
  let ?c = "\<lambda>t. held_by w task t \<and> P (t_status t)"
  have "acted (t_run_id task) db (if ?c t then (view_of (t_run_id task) db)(t_name task \<mapsto> t_status (f t))
      else view_of (t_run_id task) db) db1"
    by (rule acted_row [OF ok f u t(1)]) (simp add: held_by_def t(2))
  moreover have "?c t"
  proof -
    obtain q where q: "q \<in> set (tasks db)" "?c q" using u k by (auto simp: update_tasks_Inr)
    then have "q = t" using task_id_unique [OF ok q(1), of t] task_by_nameD [OF t(1)] t(2) by (simp add: held_by_def)
    with q show ?thesis by simp
  qed
  ultimately show ?thesis by simp
qed

lemma success_evolves:
  assumes ok: "runs_ok env db" and copy: "copy_of_task task db"
    and d: "heads db (t_run_id task) = Some (wid, s)" "Definition env wid db = Inr d"
    and m: "recordSuccess w task out d now db = Inr (x, db')"
  shows "evolves env db db'"
proof -
  let ?rid = "t_run_id task" and ?n = "t_name task"
  note tok = runs_ok_tables [OF ok]
  obtain t where t: "task_by_name ?rid ?n db = Some t" "t_id t = t_id task" by (rule copy_row [OF tok copy])
  from m obtain k db1 refs db2 y db3 z db4
    where u: "update_tasks (\<lambda>t. held_by w task t \<and> t_status t = TaskRunning) (succeed (o_Output out) now) db = Inr (k, db1)"
    and k: "k \<noteq> 0" and r: "recordArtifacts task (o_Artifacts out) db1 = Inr (refs, db2)"
    and p: "append now ?rid (TaskSucceededPayload (t_attempt task) (Milliseconds (o_Duration out)) (o_Output out) refs)
                  (at_task ?n (Some w) now) db2 = Inr (y, db3)"
    and ul: "unlockDependents d ?rid ?n now db3 = Inr (z, db4)" and se: "settleRun ?rid now db4 = Inr (x, db')"
    by (auto simp: recordSuccess_def tx_bind_Inr split: if_splits)
  have run: "t_status t = TaskRunning" and a1: "acted ?rid db ((view_of ?rid db)(?n \<mapsto> TaskSucceeded)) db1"
    using acted_held [OF tok t keys_kept_updates(4) u k] by (simp_all add: succeed_def)
  note a2 = acted_then_silent [OF a1 silent_artifacts(1) silent_artifacts(2) r]
  note a3 = acted_append [OF a2 p]
  have dist: "distinct (step_names d)" using Definition_valid [OF d(2)] by (simp add: valid_definition_def)
  have a4: "acted ?rid db (unlock d ?n ((view_of ?rid db)(?n \<mapsto> TaskSucceeded))) db4"
    using acted_trans [OF a3 unlockDependents_acts [OF acted_tables [OF a3] dist ul]] acted_view [OF a3] by simp
  show ?thesis
  proof (rule evolves_settled [OF d(1) a4 se])
    fix e
    assume "Definition env wid db = Inr e"
    then have e: "e = d" using d(2) by simp
    show "spec_step e (s, view_of ?rid db) (settled s (unlock d ?n ((view_of ?rid db)(?n \<mapsto> TaskSucceeded))),
        unlock d ?n ((view_of ?rid db)(?n \<mapsto> TaskSucceeded)))"
      unfolding e
    proof (rule spec_step.succeed)
      show "\<not> RunStatus_Terminal s" by (rule acted_open [OF a2 p d(1)])
      show "view_of ?rid db ?n = Some TaskRunning" using t run by (simp add: view_of_def)
    qed simp
  qed
qed

text \<open>A death of a step: its row is dead, its dependents are abandoned and the run is settled.\<close>

lemma death_evolves:
  assumes ok: "runs_ok env db" and t: "task_by_name rid n db = Some t" "active (t_status t)"
    and d: "heads db rid = Some (wid, s)" "Definition env wid db = Inr d" and op: "\<not> RunStatus_Terminal s"
    and a: "acted rid db ((view_of rid db)(n \<mapsto> TaskDead)) db1"
    and ab: "abandonDependents d rid n now db1 = Inr (y, db2)" and se: "settleRun rid now db2 = Inr (x, db')"
  shows "evolves env db db'"
proof -
  let ?v = "(view_of rid db)(n \<mapsto> TaskDead)"
  have v: "view_of rid db n = Some (t_status t)" using t by (simp add: view_of_def)
  have inv: "spec_inv d (s, view_of rid db)" using runs_okD [OF ok d(1)] d(2) by auto
  have eq: "buried (set (descendants d n)) ?v = abandon d n ?v"
    by (rule abandon_buried [OF inv v]) (use t(2) in auto)
  have a2: "acted rid db (abandon d n ?v) db2"
    using acted_trans [OF a abandonDependents_acts [OF acted_tables [OF a] ab]] acted_view [OF a] eq by simp
  show ?thesis
  proof (rule evolves_settled [OF d(1) a2 se])
    fix e
    assume "Definition env wid db = Inr e"
    then have e: "e = d" using d(2) by simp
    show "spec_step e (s, view_of rid db) (settled s (abandon d n ?v), abandon d n ?v)"
      unfolding e
    proof (rule spec_step.die [OF op])
      show "view_of rid db n = Some (t_status t)" by (rule v)
      show "active (t_status t)" by (rule t(2))
    qed simp
  qed
qed

lemma failure_evolves:
  assumes ok: "runs_ok env db" and copy: "copy_of_task task db"
    and d: "heads db (t_run_id task) = Some (wid, s)" "Definition env wid db = Inr d"
    and m: "recordFailure env' w task out err d now db = Inr (x, db')"
  shows "evolves env db db'"
proof -
  let ?rid = "t_run_id task" and ?n = "t_name task"
  let ?policy = "retryPolicyFor d ?n" and ?P = "\<lambda>s. s = TaskRunning \<or> s = TaskLeased"
  note tok = runs_ok_tables [OF ok]
  obtain t where t: "task_by_name ?rid ?n db = Some t" "t_id t = t_id task" by (rule copy_row [OF tok copy])
  define will where "will = ShouldRetry ?policy (t_attempt task) (o_Permanent out)"
  define reason where "reason = (if o_Permanent out then ''permanent failure'' else ''attempts exhausted'')"
  from m obtain k db1 y db2 where u: "update_tasks (\<lambda>t. held_by w task t \<and> ?P (t_status t)) (fail (truncateError err) now) db = Inr (k, db1)"
    and k: "k \<noteq> 0"
    and p: "append now ?rid (TaskFailedPayload (t_attempt task) (Milliseconds (o_Duration out)) (truncateError err) will)
                   (at_task ?n (Some w) now) db1 = Inr (y, db2)"
    and rest: "(if will then scheduleRetry env' task ?policy now
        else tx_bind (deadLetter task reason err now) (\<lambda>_.
          tx_bind (abandonDependents d ?rid ?n now) (\<lambda>_. settleRun ?rid now))) db2 = Inr (x, db')"
    by (auto simp: recordFailure_def Let_def tx_bind_Inr will_def reason_def split: if_splits)
  have run: "?P (t_status t)" and a1: "acted ?rid db ((view_of ?rid db)(?n \<mapsto> TaskFailed)) db1"
    using acted_held [OF tok t keys_kept_updates(7) u k] by (simp_all add: fail_def)
  note a2 = acted_append [OF a1 p]
  have op: "\<not> RunStatus_Terminal s" by (rule acted_open [OF a1 p d(1)])
  have act: "active (t_status t)" using run by auto
  have v: "view_of ?rid db ?n = Some (t_status t)" using t by (simp add: view_of_def)
  obtain q where q: "task_by_name ?rid ?n db2 = Some q" "t_id q = t_id t" "t_status q = TaskFailed"
    by (rule acted_found [OF a2 t(1)]) simp_all
  note tok2 = acted_tables [OF a2]
  show ?thesis
  proof (cases will)
    case True
    with rest obtain delay k3 db3 pl where
      u3: "update_tasks (\<lambda>t. t_id t = t_id task \<and> t_status t = TaskFailed) (retrying (now + delay) now) db2 = Inr (k3, db3)"
      and p3: "append now ?rid pl (at_task ?n None now) db3 = Inr (x, db')"
      by (auto simp: scheduleRetry_def Let_def tx_bind_Inr)
    have "acted ?rid db2 (if t_id q = t_id task \<and> t_status q = TaskFailed then (view_of ?rid db2)(?n \<mapsto> t_status (retrying (now + delay) now q))
        else view_of ?rid db2) db3"
      by (rule acted_row [OF tok2 keys_kept_updates(5) u3 q(1)]) (simp add: q t)
    then have "acted ?rid db2 ((view_of ?rid db)(?n \<mapsto> TaskRetrying)) db3"
      using q t acted_view [OF a2] by (simp add: retrying_def)
    note a3 = acted_append [OF acted_trans [OF a2 this] p3]
    show ?thesis
    proof (rule evolves_acted [OF d(1) a3], rule r_into_rtranclp, rule spec_step.move [OF op])
      show "view_of ?rid db ?n = Some (t_status t)" by (rule v)
    qed (simp_all add: act)
  next
    case False
    with rest obtain y1 db3 y2 db4 where dl: "deadLetter task reason err now db2 = Inr (y1, db3)"
      and ab: "abandonDependents d ?rid ?n now db3 = Inr (y2, db4)" and se: "settleRun ?rid now db4 = Inr (x, db')"
      by (auto simp: tx_bind_Inr)
    have i: "t_id task = t_id q" using q t by simp
    have "acted ?rid db2 ((view_of ?rid db)(?n \<mapsto> TaskDead)) db3"
      using deadLetter_acts [OF tok2 q(1) i dl] q(3) acted_view [OF a2] by (simp add: buriable_def)
    from death_evolves [OF ok t(1) act d op acted_trans [OF a2 this] ab se] show ?thesis .
  qed
qed

lemma complete_evolves:
  assumes ok: "runs_ok env db" and copy: "copy_of_task task db" and m: "complete_tx env w task out now db = Inr (x, db')"
  shows "evolves env db db'"
proof -
  from m obtain d wid s where d: "heads db (t_run_id task) = Some (wid, s)" "Definition env wid db = Inr d"
    and rest: "(case o_Err out of Some err \<Rightarrow> recordFailure env w task out err d now
        | None \<Rightarrow> recordSuccess w task out d now) db = Inr (x, db')"
    by (auto simp: complete_tx_def tx_bind_Inr definitionForRun_Inr)
  then show ?thesis
    using success_evolves [OF ok copy d] failure_evolves [OF ok copy d] by (auto split: option.splits)
qed

section \<open>Expired leases\<close>

lemma release_evolves:
  assumes ok: "runs_ok env db" and t: "t \<in> set (tasks db)" and held: "Holds (t_status t)"
    and h: "heads db (t_run_id t) = Some (wid, s)" "RunStatus_Terminal s" and m: "releaseAbandoned t now db = Inr (x, db')"
  shows "evolves env db db'"
proof -
  let ?rid = "t_run_id t" and ?n = "t_name t" and ?c = "\<lambda>q. t_id q = t_id t \<and> Holds (t_status q)"
  let ?f = "end_held ''run was no longer active when the lease expired'' now"
  note tok = runs_ok_tables [OF ok]
  note row = task_find [OF tok t]
  from m obtain k where u: "update_tasks ?c ?f db = Inr (k, db')" by (auto simp: releaseAbandoned_def tx_bind_Inr)
  have "acted ?rid db (if ?c t then (view_of ?rid db)(?n \<mapsto> t_status (?f t)) else view_of ?rid db) db'"
    by (rule acted_row [OF tok keys_kept_updates(8) u row]) simp
  then have a: "acted ?rid db ((view_of ?rid db)(?n \<mapsto> TaskDead)) db'" using held by (simp add: end_held_def)
  show ?thesis
  proof (rule evolves_acted [OF h(1) a], rule r_into_rtranclp, rule spec_step.release [OF h(2)])
    show "view_of ?rid db ?n = Some (t_status t)" by (rule view_row [OF tok t])
  qed (rule held)
qed

lemma requeue_evolves:
  assumes ok: "runs_ok env db" and t: "t \<in> set (tasks db)" and held: "Holds (t_status t)"
    and h: "heads db (t_run_id t) = Some (wid, s)" "\<not> RunStatus_Terminal s" and m: "requeue t now db = Inr (x, db')"
  shows "evolves env db db'"
proof -
  let ?rid = "t_run_id t" and ?n = "t_name t" and ?c = "\<lambda>q. t_id q = t_id t \<and> Holds (t_status q) \<and> t_attempt q = t_attempt t"
  note tok = runs_ok_tables [OF ok]
  note row = task_find [OF tok t]
  from m obtain k db1 p where u: "update_tasks ?c (hand_back now) db = Inr (k, db1)"
    and rest: "(if k = 0 then tx_return () else append now ?rid p (at_task ?n None now)) db1 = Inr (x, db')"
    by (auto simp: requeue_def tx_bind_Inr)
  have "acted ?rid db (if ?c t then (view_of ?rid db)(?n \<mapsto> t_status (hand_back now t)) else view_of ?rid db) db1"
    by (rule acted_row [OF tok keys_kept_updates(9) u row]) simp
  then have a1: "acted ?rid db ((view_of ?rid db)(?n \<mapsto> TaskReady)) db1" using held by (simp add: hand_back_def)
  have a: "acted ?rid db ((view_of ?rid db)(?n \<mapsto> TaskReady)) db'"
    using rest a1 acted_append [OF a1] by (auto split: if_splits)
  show ?thesis
  proof (rule evolves_acted [OF h(1) a], rule r_into_rtranclp, rule spec_step.move [OF h(2)])
    show "view_of ?rid db ?n = Some (t_status t)" by (rule view_row [OF tok t])
  qed (use held in \<open>simp_all add: active_cases\<close>)
qed

lemma dead_expired_acts:
  assumes tok: "tables_ok db" and t: "t \<in> set (tasks db)" and held: "Holds (t_status t)"
    and m: "deadLetterExpired t now db = Inr (x, db')"
  shows "acted (t_run_id t) db ((view_of (t_run_id t) db)(t_name t \<mapsto> TaskDead)) db'"
proof -
  let ?rid = "t_run_id t" and ?n = "t_name t" and ?c = "\<lambda>q. t_id q = t_id t \<and> Holds (t_status q) \<and> t_attempt q = t_attempt t"
  note row = task_find [OF tok t]
  from m obtain k db1 l y db2 p where u: "update_tasks ?c (end_held expiry_reason now) db = Inr (k, db1)"
    and l: "insert_dead_letter l db1 = Inr (y, db2)" and p: "append now ?rid p (at_task ?n None now) db2 = Inr (x, db')"
    by (auto simp: deadLetterExpired_def tx_bind_Inr)
  have "acted ?rid db (if ?c t then (view_of ?rid db)(?n \<mapsto> t_status (end_held expiry_reason now t)) else view_of ?rid db) db1"
    by (rule acted_row [OF tok keys_kept_updates(8) u row]) simp
  then have "acted ?rid db ((view_of ?rid db)(?n \<mapsto> TaskDead)) db1" using held by (simp add: end_held_def)
  from acted_append [OF acted_dead_letter [OF this l] p] show ?thesis .
qed

lemma expire_one_evolves:
  assumes ok: "runs_ok env db" and t: "t \<in> set (tasks db)" and held: "Holds (t_status t)"
    and m: "expire_one env now t db = Inr (x, db')"
  shows "evolves env db db'"
proof -
  let ?rid = "t_run_id t" and ?n = "t_name t"
  note tok = runs_ok_tables [OF ok]
  obtain wid s where h: "heads db ?rid = Some (wid, s)" by (rule task_head [OF tok t])
  then have fin: "runIsTerminal ?rid db = Inr (f, db1) \<longleftrightarrow> f = RunStatus_Terminal s \<and> db1 = db" for f db1
    by (auto simp: runIsTerminal_def tx_bind_Inr heads_def)
  show ?thesis
  proof (cases "RunStatus_Terminal s")
    case True
    then obtain u where "releaseAbandoned t now db = Inr (u, db')" using m by (auto simp: expire_one_def tx_bind_Inr fin)
    with release_evolves [OF ok t held h True] show ?thesis .
  next
    case False
    with m obtain y db1 d where r: "recordLeaseExpiry t now db = Inr (y, db1)"
      and d: "\<exists>w s. heads db1 ?rid = Some (w, s) \<and> Definition env w db1 = Inr d"
      and rest: "(if t_attempt t < rp_MaxAttempts (retryPolicyFor d ?n)
         then tx_bind (requeue t now) (\<lambda>_. tx_return Requeued)
         else tx_bind (deadLetterExpired t now) (\<lambda>_. tx_bind (abandonDependents d ?rid ?n now) (\<lambda>_.
                tx_bind (settleRun ?rid now) (\<lambda>_. tx_return Ended)))) db1 = Inr (x, db')"
      by (auto simp: expire_one_def tx_bind_Inr fin definitionForRun_Inr)
    have core: "core db1 = core db" using r append_core by (simp add: recordLeaseExpiry_def)
    then have e1: "evolves env db db1" by (rule evolves_refl)
    have tok1: "tables_ok db1" using r tx_keepsD [OF tables_append tok] by (simp add: recordLeaseExpiry_def)
    note ok1 = evolves_runs_ok [OF ok e1 tok1]
    have t1: "t \<in> set (tasks db1)" and h1: "heads db1 ?rid = Some (wid, s)" using t h core by (simp_all add: core_def)
    have d1: "Definition env wid db1 = Inr d" using d h1 by auto
    have "evolves env db1 db'"
    proof (cases "t_attempt t < rp_MaxAttempts (retryPolicyFor d ?n)")
      case True
      then obtain u where "requeue t now db1 = Inr (u, db')" using rest by (auto simp: tx_bind_Inr)
      with requeue_evolves [OF ok1 t1 held h1 False] show ?thesis .
    next
      case no_more: False
      with rest obtain u1 db2 u2 db3 u3 where dl: "deadLetterExpired t now db1 = Inr (u1, db2)"
        and ab: "abandonDependents d ?rid ?n now db2 = Inr (u2, db3)" and se: "settleRun ?rid now db3 = Inr (u3, db')"
        by (auto simp: tx_bind_Inr)
      show ?thesis
        by (rule death_evolves [OF ok1 task_find [OF tok1 t1] _ h1 d1 False dead_expired_acts [OF tok1 t1 held dl] ab se])
          (use held in \<open>simp add: active_cases\<close>)
    qed
    with e1 show ?thesis by (rule evolves_trans)
  qed
qed

text \<open>
  The sweep works from the rows it selected; handling one of them leaves every other held
  row as it is.
\<close>

definition has_row :: "task_row \<Rightarrow> db \<Rightarrow> bool" where
  "has_row t db \<longleftrightarrow> t \<in> set (tasks db)"

lemma has_row_update: "\<not> c t \<Longrightarrow> tx_keeps (has_row t) (update_tasks c f)"
  by (rule tx_keepsI) (auto simp: has_row_def update_tasks_Inr in_sql_update)

lemma has_row_silent: "(\<And>k. tx_keeps (core_is k) m) \<Longrightarrow> tx_keeps (has_row t) m"
proof (rule tx_keepsI)
  fix db x db'
  assume s: "\<And>k. tx_keeps (core_is k) m" and t: "has_row t db" and m: "m db = Inr (x, db')"
  show "has_row t db'" using silentD [OF s m] t by (simp add: has_row_def core_def)
qed

lemma has_row_runs: "tx_keeps (has_row t) (update_runs c f)"
  by (rule tx_keepsI) (simp add: has_row_def update_runs_Inr)

lemma held_row_stays:
  assumes "Holds (t_status t)" and "t_id q \<noteq> t_id t"
  shows "tx_keeps (has_row t) (expire_one env now q)"
proof -
  have [simp]: "\<not> buriable (t_status t)" using assms(1) by (auto simp: buriable_def Holds_def)
  note keep = keeps_rules has_row_update has_row_silent [OF silent(1)] has_row_silent [OF silent(5)] has_row_runs
  show ?thesis
    unfolding expire_one_def runIsTerminal_def releaseAbandoned_def recordLeaseExpiry_def requeue_def deadLetterExpired_def
      definitionForRun_def abandonDependents_def abandon_one_def deadLetter_def settleRun_def close_run_def
    by (intro keep) (use assms in auto)
qed

lemma expire_loop_evolves:
  assumes "runs_ok env db" and "distinct (map t_id ts)" and "\<And>t. t \<in> set ts \<Longrightarrow> has_row t db \<and> Holds (t_status t)"
    and "tx_map (expire_one env now) ts db = Inr (x, db')"
  shows "evolves env db db'"
  using assms
proof (induction ts arbitrary: db x)
  case Nil
  then show ?case by (simp add: evolves_refl)
next
  case (Cons t ts)
  from Cons.prems(4) obtain y db1 ys where one: "expire_one env now t db = Inr (y, db1)"
    and rest: "tx_map (expire_one env now) ts db1 = Inr (ys, db')" by (auto simp: tx_bind_Inr)
  have e1: "evolves env db db1"
    by (rule expire_one_evolves [OF Cons.prems(1) _ _ one]) (use Cons.prems(3) [of t] in \<open>auto simp: has_row_def\<close>)
  have k: "tx_keeps tables_ok (expire_one env now t)"
    unfolding engine_tx_defs closing_defs
    by (intro keeps_rules tables_keeps keys_kept_updates run_keys_kept_updates; simp)
  have "tables_ok db1" by (rule tx_keepsD [OF k runs_ok_tables [OF Cons.prems(1)] one])
  with Cons.prems(1) e1 have ok1: "runs_ok env db1" by (rule evolves_runs_ok)
  have rows: "has_row q db1 \<and> Holds (t_status q)" if "q \<in> set ts" for q
  proof -
    have "t_id t \<noteq> t_id q" using Cons.prems(2) that by auto
    then show ?thesis using tx_keepsD [OF held_row_stays _ one, of q] Cons.prems(3) [of q] that by auto
  qed
  have "evolves env db1 db'" by (rule Cons.IH [OF ok1 _ rows rest]) (use Cons.prems(2) in auto)
  with e1 show ?case by (rule evolves_trans)
qed

lemma expire_evolves:
  assumes ok: "runs_ok env db" and m: "expire_tx env locked now db = Inr (x, db')"
  shows "evolves env db db'"
proof (rule expire_loop_evolves [OF ok])
  let ?ts = "expired_tasks locked now db"
  show "tx_map (expire_one env now) ?ts db = Inr (x, db')" using m by (simp add: expire_tx_def tx_bind_Inr)
  have "distinct (map t_id (tasks db))" using runs_ok_tables [OF ok] by (simp add: tables_ok_def)
  then show "distinct (map t_id ?ts)"
    unfolding expired_tasks_def skip_locked_def
    by (intro distinct_map_filter_take) (simp add: distinct_map_filter)
  show "has_row t db \<and> Holds (t_status t)" if "t \<in> set ?ts" for t
    using that by (auto simp: expired_tasks_def has_row_def dest!: in_set_takeD)
qed

end
