(* ===== verification/Relab_Progress.thy ===== *)
theory Relab_Progress
  imports Relab_Schedule
begin

text \<open>
  Creation and cancellation of runs, the refinement of the whole engine, and its
  consequences for every reachable database: dependencies are respected, closed runs are
  consistent with their tasks, and an open run always has a task that can move.
\<close>

section \<open>Cancelling\<close>

lemma cancel_evolves:
  assumes ok: "runs_ok env db" and m: "cancel_tx rid reason now db = Inr (x, db')"
  shows "evolves env db db'"
proof -
  let ?c1 = "\<lambda>t. t_run_id t = rid \<and> (t_status t = TaskPending \<or> t_status t = TaskReady \<or> t_status t = TaskRetrying)"
  let ?c2 = "\<lambda>t. t_run_id t = rid \<and> Holds (t_status t)"
  let ?f2 = "\<lambda>t. t\<lparr>t_lease_expires_at := Some now, t_updated_at := now\<rparr> :: task_row"
  let ?g = "\<lambda>q. q\<lparr>r_status := RunCancelled, r_completed_at := Some now, r_failure_reason := nullString reason\<rparr> :: run_row"
  from m obtain r k1 db1 k2 db2 y db3 k4 where r: "run_by_id rid db = Some r" "\<not> RunStatus_Terminal (r_status r)"
    and u1: "update_tasks ?c1 (cancel_task now) db = Inr (k1, db1)" and u2: "update_tasks ?c2 ?f2 db1 = Inr (k2, db2)"
    and p: "append now rid (RunCancelledPayload reason) (at_run now) db2 = Inr (y, db3)"
    and u4: "update_runs (\<lambda>q. r_id q = rid) ?g db3 = Inr (k4, db')"
    by (auto simp: cancel_tx_def tx_bind_Inr split: if_splits)
  define w s where "w = r_workflow_id r" and "s = r_status r"
  have h: "heads db rid = Some (w, s)" using r by (simp add: heads_def w_def s_def)
  have db1: "db1 = db\<lparr>tasks := sql_update ?c1 (cancel_task now) (tasks db)\<rparr>" using u1 by (simp add: update_tasks_Inr)
  have db2: "db2 = db1\<lparr>tasks := sql_update ?c2 ?f2 (tasks db1)\<rparr>" using u2 by (simp add: update_tasks_Inr)
  have db': "db' = db3\<lparr>runs := sql_update (\<lambda>q. r_id q = rid) ?g (runs db3)\<rparr>" using u4 by (simp add: update_runs_Inr)
  have v1: "view_of q db1 n = (if q = rid then cancelled (view_of rid db) n else view_of q db n)" for q n
    using view_update [OF keys_kept_updates(10) db1, of q n]
    by (cases "task_by_name q n db") (auto simp: view_of_def cancelled_def cancel_task_def dest: task_by_nameD)
  have v2: "view_of q db2 n = view_of q db1 n" for q n
    using view_update [OF keys_kept_updates(11) db2, of q n] by (cases "task_by_name q n db1") (auto simp: view_of_def)
  have c: "tasks db3 = tasks db2" "workflows db3 = workflows db2" "heads db3 = heads db2"
    using append_core [OF p] by (simp_all add: core_def)
  have v: "view_of q db' = (if q = rid then cancelled (view_of rid db) else view_of q db)" for q
    using v1 v2 c(1) by (auto simp: view_of_def task_by_name_def db' fun_eq_iff)
  have h3: "heads db3 = heads db" using c(3) update_core [OF db2] update_core [OF db1] by simp
  have "heads db' q = ((heads db)(rid \<mapsto> (w, RunCancelled))) q" for q
  proof -
    have "heads db' q = map_option (\<lambda>r. (r_workflow_id r, r_status (if r_id r = rid then ?g r else r))) (run_by_id q db3)"
      by (rule heads_update_runs [OF run_keys_kept_updates(3) db'])
    moreover have "heads db q = map_option (\<lambda>r. (r_workflow_id r, r_status r)) (run_by_id q db3)"
      using h3 by (simp add: heads_def fun_eq_iff)
    ultimately show ?thesis using h by (cases "run_by_id q db3") (auto dest: run_by_idD)
  qed
  moreover have "workflows db' = workflows db" using c by (simp add: db' db2 db1)
  ultimately show ?thesis
    using r(2) v by (intro evolves_one [OF h]) (auto simp: s_def intro: spec_step.cancel)
qed

section \<open>Creating\<close>

lemma insert_task_view:
  assumes m: "insert_task t db = Inr (x, db')"
  shows "view_of q db' = (if q = t_run_id t then (view_of q db)(t_name t \<mapsto> t_status t) else view_of q db)"
    and "heads db' = heads db" and "workflows db' = workflows db"
proof -
  have db': "db' = db\<lparr>tasks := tasks db @ [t]\<rparr>" and new: "\<And>q. q \<in> set (tasks db) \<Longrightarrow> \<not> (t_run_id q = t_run_id t \<and> t_name q = t_name t)"
    using m by (auto simp: insert_task_def split: if_splits)
  have "task_by_name (t_run_id t) (t_name t) db = None"
    using new by (auto simp: task_by_name_def find_None_iff)
  moreover have "task_by_name r n db' = (case task_by_name r n db of Some q \<Rightarrow> Some q
      | None \<Rightarrow> if t_run_id t = r \<and> t_name t = n then Some t else None)" for r n
    unfolding task_by_name_def db' by (simp add: find_snoc split: option.split)
  ultimately show "view_of q db' = (if q = t_run_id t then (view_of q db)(t_name t \<mapsto> t_status t) else view_of q db)"
    by (auto simp: view_of_def fun_eq_iff split: option.splits)
  show "heads db' = heads db" "workflows db' = workflows db" by (simp_all add: db' heads_def run_by_id_def fun_eq_iff)
qed

lemma create_loop_view:
  assumes "distinct (map st_Name ss)"
    and "tx_for (enumerate k ss) (\<lambda>(i, st). create_task env d rid now (new_id i) st) db = Inr (x, db')"
  shows "heads db' = heads db \<and> workflows db' = workflows db \<and> (\<forall>q. q \<noteq> rid \<longrightarrow> view_of q db' = view_of q db)
    \<and> view_of rid db' = (\<lambda>n. case step_loop ss n of
        Some st \<Rightarrow> Some (if st_DependsOn st = [] then TaskReady else TaskPending) | None \<Rightarrow> view_of rid db n)"
  using assms
proof (induction ss arbitrary: db k)
  case Nil
  then show ?case by simp
next
  case (Cons st ss)
  from Cons.prems(2) obtain y db1 where one: "create_task env d rid now (new_id k) st db = Inr (y, db1)"
    and rest: "tx_for (enumerate (Suc k) ss) (\<lambda>(i, st). create_task env d rid now (new_id i) st) db1 = Inr (x, db')"
    by (auto simp: tx_bind_Inr)
  from one obtain z dba where ins: "insert_task (new_task_row env d rid now (new_id k) st) db = Inr (z, dba)"
    and c: "core db1 = core dba"
    using append_core by (auto simp: create_task_def tx_bind_Inr split: if_splits)
  note i = insert_task_view [OF ins]
  have v1: "view_of q db1 = (if q = rid then (view_of q db)(st_Name st \<mapsto> if st_DependsOn st = [] then TaskReady else TaskPending)
      else view_of q db)" for q
    using i(1) [of q] core_view [OF c] by (simp add: new_task_row_def)
  have hw: "heads db1 = heads db" "workflows db1 = workflows db" using i core_view [OF c] by simp_all
  have nost: "step_loop ss (st_Name st) = None"
  proof -
    have "step_loop rs n = None" if "n \<notin> st_Name ` set rs" for rs n
      using that by (induction rs n rule: step_loop.induct) auto
    then show ?thesis using Cons.prems(1) by simp
  qed
  have IH: "heads db' = heads db1 \<and> workflows db' = workflows db1 \<and> (\<forall>q. q \<noteq> rid \<longrightarrow> view_of q db' = view_of q db1)
    \<and> view_of rid db' = (\<lambda>n. case step_loop ss n of
        Some st \<Rightarrow> Some (if st_DependsOn st = [] then TaskReady else TaskPending) | None \<Rightarrow> view_of rid db1 n)"
    by (rule Cons.IH [OF _ rest]) (use Cons.prems(1) in simp)
  show ?case
    using IH hw v1 nost by (auto simp: fun_eq_iff split: option.splits)
qed

lemma create_run_view:
  assumes ok: "tables_ok db" and d: "distinct (step_names d)"
    and m: "create_run_tx env rid new_id wfl d opts seed now db = Inr (x, db')"
  shows "heads db rid = None" and "workflows db' = workflows db" and "heads db' = (heads db)(rid \<mapsto> (w_id wfl, RunQueued))"
    and "q \<noteq> rid \<Longrightarrow> view_of q db' = view_of q db" and "view_of rid db' = snd (spec_init d)"
proof -
  let ?r = "new_run_row rid (w_id wfl) opts seed now"
  let ?c = "\<lambda>r. r_id r = rid \<and> r_status r = RunCreated" and ?f = "\<lambda>r. r\<lparr>r_status := RunQueued\<rparr> :: run_row"
  from m obtain u1 db1 u2 db2 u3 db3 k db4 p1 p2 where i: "insert_run ?r db = Inr (u1, db1)"
    and a1: "append now rid p1 (at_run now) db1 = Inr (u2, db2)"
    and l: "tx_for (enumerate 0 (d_Steps d)) (\<lambda>(i, st). create_task env d rid now (new_id i) st) db2 = Inr (u3, db3)"
    and u: "update_runs ?c ?f db3 = Inr (k, db4)" and a2: "append now rid p2 (at_run now) db4 = Inr (x, db')"
    by (auto simp: create_run_tx_def tx_bind_Inr)
  have db1: "db1 = db\<lparr>runs := runs db @ [?r]\<rparr>" and new: "rid \<notin> r_id ` set (runs db)"
    using i by (auto simp: insert_run_def new_run_row_def split: if_splits)
  have db4: "db4 = db3\<lparr>runs := sql_update ?c ?f (runs db3)\<rparr>" using u by (simp add: update_runs_Inr)
  have none: "run_by_id rid db = None" using new by (simp add: run_by_id_def find_key_None)
  then show h0: "heads db rid = None" by (simp add: heads_def)
  have h1: "heads db1 = (heads db)(rid \<mapsto> (w_id wfl, RunCreated))"
  proof
    fix q
    show "heads db1 q = ((heads db)(rid \<mapsto> (w_id wfl, RunCreated))) q"
      using none by (auto simp: heads_def run_by_id_def db1 find_snoc new_run_row_def split: option.split)
  qed
  have v1: "view_of q db1 = view_of q db" for q by (simp add: db1 view_of_def task_by_name_def)
  have empty: "view_of rid db n = None" for n
  proof -
    have "t_run_id t \<noteq> rid" if "t \<in> set (tasks db)" for t using ok new that by (auto simp: tables_ok_def)
    then have "task_by_name rid n db = None" by (auto simp: task_by_name_def find_None_iff)
    then show ?thesis by (simp add: view_of_def)
  qed
  note c2 = core_view [OF append_core [OF a1]] and c4 = core_view [OF append_core [OF a2]]
  have l3: "heads db3 = heads db2 \<and> workflows db3 = workflows db2 \<and> (\<forall>q. q \<noteq> rid \<longrightarrow> view_of q db3 = view_of q db2)
    \<and> view_of rid db3 = (\<lambda>n. case step_loop (d_Steps d) n of
        Some st \<Rightarrow> Some (if st_DependsOn st = [] then TaskReady else TaskPending) | None \<Rightarrow> view_of rid db2 n)"
    by (rule create_loop_view [OF _ l]) (use d in \<open>simp add: step_names_def\<close>)
  have v4: "view_of q db4 = view_of q db3" for q by (simp add: db4 view_of_def task_by_name_def)
  have h3: "heads db3 = (heads db)(rid \<mapsto> (w_id wfl, RunCreated))" using l3 c2 h1 by simp
  have "heads db4 q = ((heads db)(rid \<mapsto> (w_id wfl, RunQueued))) q" for q
  proof -
    have "heads db4 q = map_option (\<lambda>r. (r_workflow_id r, r_status (if ?c r then ?f r else r))) (run_by_id q db3)"
      by (rule heads_update_runs [OF run_keys_kept_updates(1) db4])
    moreover have "map_option (\<lambda>r. (r_workflow_id r, r_status r)) (run_by_id q db3) = ((heads db)(rid \<mapsto> (w_id wfl, RunCreated))) q"
      using h3 by (simp add: heads_def fun_eq_iff)
    ultimately show ?thesis by (cases "run_by_id q db3") (auto dest: run_by_idD split: if_splits)
  qed
  then show "heads db' = (heads db)(rid \<mapsto> (w_id wfl, RunQueued))" using c4 by (simp add: fun_eq_iff)
  show "workflows db' = workflows db" using c4 l3 c2 by (simp add: db4 db1)
  show "view_of q db' = view_of q db" if "q \<noteq> rid" using that c4 l3 c2 v1 v4 by simp
  show "view_of rid db' = snd (spec_init d)"
    using c4 l3 c2 v1 v4 empty by (auto simp: spec_init_def Step_def fun_eq_iff split: option.splits)
qed

section \<open>The engine refines the machine\<close>

text \<open>
  A step of the engine, seen from one run: the run was there and its view moved by steps of
  the machine, or it was created and its view is the machine's initial state.
\<close>

definition follows :: "env \<Rightarrow> db \<Rightarrow> db \<Rightarrow> bool" where
  "follows env db db' \<longleftrightarrow>
     (\<forall>rid. heads db rid \<noteq> None \<longrightarrow> heads db' rid \<noteq> None)
     \<and> (\<forall>rid w s'. heads db' rid = Some (w, s') \<longrightarrow>
          (\<exists>d. Definition env w db' = Inr d \<and> valid_definition d
             \<and> ((\<exists>s. heads db rid = Some (w, s) \<and> Definition env w db = Inr d
                    \<and> (spec_step d)\<^sup>*\<^sup>* (s, view_of rid db) (s', view_of rid db'))
               \<or> (heads db rid = None \<and> (s', view_of rid db') = spec_init d))))"

lemma follows_runs_ok:
  assumes ok: "runs_ok env db" and f: "follows env db db'" and t: "tables_ok db'"
  shows "runs_ok env db'"
  unfolding runs_ok_def
proof (intro conjI t allI impI)
  fix rid w s'
  assume h: "heads db' rid = Some (w, s')"
  with f obtain d where d: "Definition env w db' = Inr d" "valid_definition d"
    and or: "(\<exists>s. heads db rid = Some (w, s) \<and> Definition env w db = Inr d \<and> (spec_step d)\<^sup>*\<^sup>* (s, view_of rid db) (s', view_of rid db'))
      \<or> (heads db rid = None \<and> (s', view_of rid db') = spec_init d)"
    unfolding follows_def by blast
  from or have "spec_inv d (s', view_of rid db')"
  proof (elim disjE exE conjE)
    fix s
    assume s: "heads db rid = Some (w, s)" "Definition env w db = Inr d" "(spec_step d)\<^sup>*\<^sup>* (s, view_of rid db) (s', view_of rid db')"
    have "spec_inv d (s, view_of rid db)" using runs_okD [OF ok s(1)] s(2) by auto
    then show ?thesis by (rule spec_steps_inv [OF d(2) s(3)])
  next
    assume "(s', view_of rid db') = spec_init d"
    then show ?thesis using spec_init_inv [OF d(2)] by simp
  qed
  with d show "\<exists>def. Definition env w db' = Inr def \<and> valid_definition def \<and> spec_inv def (s', view_of rid db')" by blast
qed

lemma evolves_follows:
  assumes ok: "runs_ok env db" and e: "evolves env db db'"
  shows "follows env db db'"
  unfolding follows_def
proof (intro conjI allI impI)
  fix rid
  assume "heads db rid \<noteq> None"
  then obtain w s where h: "heads db rid = Some (w, s)" by auto
  obtain d where d: "Definition env w db = Inr d" by (rule runs_okD [OF ok h])
  obtain s' where "heads db' rid = Some (w, s')" by (rule evolvesD [OF e h d])
  then show "heads db' rid \<noteq> None" by simp
next
  fix rid w' s'
  assume h': "heads db' rid = Some (w', s')"
  then have "heads db rid \<noteq> None" using e unfolding evolves_def by (metis option.distinct(1))
  then obtain w s where h: "heads db rid = Some (w, s)" by auto
  obtain d where d: "Definition env w db = Inr d" "valid_definition d" by (rule runs_okD [OF ok h])
  have W: "workflows db' = workflows db" using e by (simp add: evolves_def)
  from evolvesD [OF e h d(1)] h' have "w' = w" "(spec_step d)\<^sup>*\<^sup>* (s, view_of rid db) (s', view_of rid db')" by auto
  with d h Definition_workflows [OF W] show "\<exists>d. Definition env w' db' = Inr d \<and> valid_definition d
      \<and> ((\<exists>s. heads db rid = Some (w', s) \<and> Definition env w' db = Inr d \<and> (spec_step d)\<^sup>*\<^sup>* (s, view_of rid db) (s', view_of rid db'))
         \<or> (heads db rid = None \<and> (s', view_of rid db') = spec_init d))" by auto
qed

lemma create_follows:
  assumes ok: "runs_ok env db" and d: "Definition env (w_id wfl) db = Inr d"
    and m: "create_run_tx env rid new_id wfl d opts seed now db = Inr (x, db')"
  shows "follows env db db'"
proof -
  have valid: "valid_definition d" by (rule Definition_valid [OF d])
  then have dist: "distinct (step_names d)" by (simp add: valid_definition_def)
  note c = create_run_view [OF runs_ok_tables [OF ok] dist m]
  have D: "Definition env w db' = Definition env w db" for w by (rule Definition_workflows [OF c(2)])
  show ?thesis
    unfolding follows_def
  proof (intro conjI allI impI)
    show "heads db' q \<noteq> None" if "heads db q \<noteq> None" for q using that c(3) by auto
    fix q w s'
    assume h: "heads db' q = Some (w, s')"
    show "\<exists>d. Definition env w db' = Inr d \<and> valid_definition d
      \<and> ((\<exists>s. heads db q = Some (w, s) \<and> Definition env w db = Inr d \<and> (spec_step d)\<^sup>*\<^sup>* (s, view_of q db) (s', view_of q db'))
         \<or> (heads db q = None \<and> (s', view_of q db') = spec_init d))"
    proof (cases "q = rid")
      case True
      then have "w = w_id wfl" "s' = RunQueued" using h c(3) by simp_all
      then show ?thesis using True c(1,5) D d valid by (auto simp: spec_init_def)
    next
      case False
      then have h0: "heads db q = Some (w, s')" using h c(3) by simp
      obtain e where "Definition env w db = Inr e" "valid_definition e" by (rule runs_okD [OF ok h0])
      then show ?thesis using D h0 c(4) [OF False] by auto
    qed
  qed
qed

lemma workflow_follows:
  assumes ok: "runs_ok env db" and m: "insert_workflow wfl db = Inr (x, db')"
  shows "follows env db db'"
proof -
  have db': "db' = db\<lparr>workflows := workflows db @ [wfl]\<rparr>" using m by (auto simp: insert_workflow_def split: if_splits)
  have h: "heads db' = heads db" by (simp add: db' heads_def run_by_id_def fun_eq_iff)
  have v: "view_of q db' = view_of q db" for q by (simp add: db' view_of_def task_by_name_def)
  have D: "Definition env w db' = Inr d" if "Definition env w db = Inr d" for w d
    using that by (auto simp: Definition_def WorkflowByID_def db' find_snoc split: option.splits)
  show ?thesis
    unfolding follows_def h v
  proof (intro conjI allI impI)
    fix q w s
    assume q: "heads db q = Some (w, s)"
    obtain d where "Definition env w db = Inr d" "valid_definition d" by (rule runs_okD [OF ok q])
    with D q show "\<exists>d. Definition env w db' = Inr d \<and> valid_definition d
      \<and> ((\<exists>s'. heads db q = Some (w, s') \<and> Definition env w db = Inr d \<and> (spec_step d)\<^sup>*\<^sup>* (s', view_of q db) (s, view_of q db))
         \<or> (heads db q = None \<and> (s, view_of q db) = spec_init d))" by auto
  qed
qed

lemma bind_unit: "tx_bind m (\<lambda>_. tx_return ()) db = Inr ((), db') \<Longrightarrow> \<exists>x. m db = Inr (x, db')"
  by (auto simp: tx_bind_Inr)

lemma evolvedD:
  assumes "runs_ok env db" and "tx_keeps (evolved env db) m" and "m db = Inr (x, db')"
  shows "evolves env db db'"
  using tx_keepsD [OF assms(2) _ assms(3)] assms(1) evolves_refl [of db db env] by (simp add: evolved_def)

lemma engine_tx_follows:
  assumes ok: "runs_ok env db" and tx: "engine_tx env db m" and m: "m db = Inr ((), db')"
  shows "follows env db db'"
proof -
  note ev = evolves_follows [OF ok]
  have keep: "follows env db db'" if "tx_keeps (evolved env db) m"
    by (rule ev, rule evolvedD [OF ok that m])
  from tx show ?thesis
  proof cases
    case (1 wfl d rid new_id opts seed now)
    show ?thesis by (rule create_follows [OF ok 1(3)]) (use m 1(1) in simp)
  next
    case (2 wfl)
    show ?thesis by (rule workflow_follows [OF ok]) (use m 2 in simp)
  next
    case (3 locked now w ro limit)
    then obtain x where "claim_tx env locked now w ro limit db = Inr (x, db')" using m bind_unit by blast
    from ev [OF claim_evolves [OF ok this]] show ?thesis .
  next
    case (4 task w handler now)
    show ?thesis by (rule ev, rule start_evolves [OF ok 4(2)]) (use m 4(1) in simp)
  next
    case (5 task w out now)
    show ?thesis by (rule ev, rule complete_evolves [OF ok 5(2)]) (use m 5(1) in simp)
  next
    case (6 task key now)
    show ?thesis by (rule keep) (simp add: 6 evolved_operations)
  next
    case 7
    show ?thesis by (rule keep) (simp add: 7 evolved_statements)
  next
    case (8 key rid name raw)
    show ?thesis by (rule keep) (simp add: 8 keeps_bind keeps_return evolved_silent silent tables_record_effect)
  next
    case (9 locked now)
    then obtain x where "expire_tx env locked now db = Inr (x, db')" using m bind_unit by blast
    from ev [OF expire_evolves [OF ok this]] show ?thesis .
  next
    case (10 now)
    show ?thesis by (rule keep) (simp add: 10 keeps_bind keeps_return evolved_operations)
  next
    case (11 locked now limit)
    then obtain x where "promote_tx locked now limit db = Inr (x, db')" using m bind_unit by blast
    from ev [OF promote_evolves [OF ok this]] show ?thesis .
  next
    case (12 w ids now)
    show ?thesis by (rule keep) (simp add: 12 keeps_bind keeps_return evolved_operations)
  next
    case (13 rid reason now)
    show ?thesis by (rule ev, rule cancel_evolves [OF ok]) (use m 13 in simp)
  next
    case (14 wk)
    show ?thesis by (rule keep) (simp add: 14 evolved_statements)
  next
    case (15 wid active now)
    show ?thesis by (rule keep) (simp add: 15 evolved_operations)
  next
    case (16 wid now)
    show ?thesis by (rule keep) (simp add: 16 evolved_operations)
  qed
qed

lemma engine_tx_runs_ok: "runs_ok env db \<Longrightarrow> engine_tx env db m \<Longrightarrow> m db = Inr ((), db') \<Longrightarrow> runs_ok env db'"
  using follows_runs_ok [OF _ engine_tx_follows] tx_keepsD [OF engine_tx_tables runs_ok_tables] by blast

interpretation schedule: engine_invariant env "runs_ok env" for env
proof unfold_locales
  show "runs_ok env empty_db"
    by (simp add: runs_ok_def tables_ok_def empty_db_def heads_def run_by_id_def)
  show "runs_ok env db'" if "reachable env db" "engine_tx env db m" "runs_ok env db" "m db = Inr ((), db')" for db m db'
    using engine_tx_runs_ok that by blast
qed

lemma sys_step_follows:
  assumes "reachable env db" and "sys_step env db db'"
  shows "follows env db db'"
proof -
  have ok: "runs_ok env db" by (rule schedule.holds [OF assms(1)])
  from sys_step_tx [OF assms(2)] show ?thesis
  proof
    assume "db' = db"
    then show ?thesis using evolves_follows [OF ok evolves_refl] by simp
  qed (use engine_tx_follows [OF ok] in blast)
qed

section \<open>What holds of every reachable database\<close>

lemma run_view:
  assumes "reachable env db" and "run_by_id rid db = Some r"
  obtains d where "Definition env (r_workflow_id r) db = Inr d" "valid_definition d"
    "spec_inv d (r_status r, view_of rid db)"
proof -
  have "heads db rid = Some (r_workflow_id r, r_status r)" using assms(2) by (simp add: heads_def)
  from runs_okD [OF schedule.holds [OF assms(1)] this] that show thesis .
qed

lemma row_view: "reachable env db \<Longrightarrow> t \<in> set (tasks db) \<Longrightarrow> view_of (t_run_id t) db (t_name t) = Some (t_status t)"
  using view_row runs_ok_tables [OF schedule.holds] by blast

lemma view_row_ex:
  assumes "reachable env db" and "view_of rid db n = Some s"
  shows "\<exists>t\<in>set (tasks db). t_run_id t = rid \<and> t_name t = n \<and> t_status t = s"
  using assms view_iff [OF runs_ok_tables [OF schedule.holds [OF assms(1)]], of rid n s] by (auto simp: in_run_tasks)

lemma dependency_done:
  assumes db: "reachable env db" and t: "t \<in> set (tasks db)" and s: "t_status t \<noteq> TaskPending" "t_status t \<noteq> TaskDead"
    and r: "run_by_id (t_run_id t) db = Some r" and d: "Definition env (r_workflow_id r) db = Inr d"
    and st: "Step d (t_name t) = Some st" "dep \<in> set (st_DependsOn st)"
  shows "\<exists>q\<in>set (tasks db). t_run_id q = t_run_id t \<and> t_name q = dep \<and> t_status q = TaskSucceeded"
proof -
  obtain e where "Definition env (r_workflow_id r) db = Inr e" "spec_inv e (r_status r, view_of (t_run_id t) db)"
    by (rule run_view [OF db r])
  then have inv: "spec_inv d (r_status r, view_of (t_run_id t) db)" using d by simp
  have "distinct (step_names d)" using Definition_valid [OF d] by (simp add: valid_definition_def)
  then have "(t_name t, dep) \<in> dep_edges d" using st by (auto simp: dep_edges_Step)
  with inv row_view [OF db t] s have "view_of (t_run_id t) db dep = Some TaskSucceeded"
    unfolding spec_inv_def deps_done_def by blast
  then show ?thesis by (rule view_row_ex [OF db])
qed

lemma open_run_moves:
  assumes db: "reachable env db" and r: "run_by_id rid db = Some r" and op: "\<not> RunStatus_Terminal (r_status r)"
  shows "\<exists>t\<in>set (tasks db). t_run_id t = rid \<and> active (t_status t)"
proof -
  obtain d where "valid_definition d" "spec_inv d (r_status r, view_of rid db)" by (rule run_view [OF db r])
  from open_run_active [OF this op] obtain n u where "view_of rid db n = Some u" "active u" by blast
  with view_row_ex [OF db] show ?thesis by blast
qed

lemma closed_run_tasks:
  assumes db: "reachable env db" and r: "run_by_id rid db = Some r" and cl: "RunStatus_Terminal (r_status r)"
    and t: "t \<in> set (tasks db)" "t_run_id t = rid"
  shows "Holds (t_status t) \<or> TaskStatus_Terminal (t_status t)"
proof -
  obtain d where "spec_inv d (r_status r, view_of rid db)" by (rule run_view [OF db r])
  then show ?thesis using row_view [OF db t(1)] t(2) cl by (auto simp: spec_inv_def closed_ok_def)
qed

lemma progress_never_stalls:
  assumes db: "reachable env db"
  shows "\<not> Stalled (RunProgress rid now db)"
proof
  let ?ts = "run_tasks rid db"
  assume "Stalled (RunProgress rid now db)"
  then have less: "sql_count (\<lambda>t. t_status t = TaskSucceeded \<or> t_status t = TaskDead) ?ts < int (length ?ts)"
    and none: "\<forall>t\<in>set ?ts. \<not> active (t_status t)"
    by (auto simp: Stalled_def RunProgress_def Let_def active_cases Holds_def not_le)
  have "\<not> (\<forall>t\<in>set ?ts. TaskStatus_Terminal (t_status t))"
    using less sql_count_all [of "\<lambda>t. t_status t = TaskSucceeded \<or> t_status t = TaskDead" ?ts] by (auto simp: terminal_cases)
  then obtain t where t: "t \<in> set (tasks db)" "t_run_id t = rid" "\<not> TaskStatus_Terminal (t_status t)" by (auto simp: in_run_tasks)
  obtain w s where "heads db (t_run_id t) = Some (w, s)" by (rule task_head [OF runs_ok_tables [OF schedule.holds [OF db]] t(1)])
  then obtain r where r: "run_by_id rid db = Some r" using t(2) by (auto simp: heads_def)
  show False
  proof (cases "RunStatus_Terminal (r_status r)")
    case True
    then have "Holds (t_status t)" using closed_run_tasks [OF db r True t(1,2)] t(3) by blast
    then show False using none t by (auto simp: in_run_tasks active_cases)
  next
    case False
    then show False using open_run_moves [OF db r False] none by (auto simp: in_run_tasks)
  qed
qed

lemma run_outcome:
  assumes db: "reachable env db" and r: "run_by_id rid db = Some r"
  shows "r_status r = RunSucceeded \<Longrightarrow> t \<in> set (tasks db) \<Longrightarrow> t_run_id t = rid \<Longrightarrow> t_status t = TaskSucceeded"
    and "r_status r = RunFailed \<Longrightarrow> t \<in> set (tasks db) \<Longrightarrow> t_run_id t = rid \<Longrightarrow> TaskStatus_Terminal (t_status t)"
    and "r_status r = RunFailed \<Longrightarrow> \<exists>t\<in>set (tasks db). t_run_id t = rid \<and> t_status t = TaskDead"
proof -
  obtain d where inv: "spec_inv d (r_status r, view_of rid db)" by (rule run_view [OF db r])
  show "r_status r = RunSucceeded \<Longrightarrow> t \<in> set (tasks db) \<Longrightarrow> t_run_id t = rid \<Longrightarrow> t_status t = TaskSucceeded"
    "r_status r = RunFailed \<Longrightarrow> t \<in> set (tasks db) \<Longrightarrow> t_run_id t = rid \<Longrightarrow> TaskStatus_Terminal (t_status t)"
    using inv row_view [OF db, of t] by (auto simp: spec_inv_def closed_ok_def all_ended_def)
  assume "r_status r = RunFailed"
  then obtain n where "view_of rid db n = Some TaskDead" using inv by (auto simp: spec_inv_def closed_ok_def)
  then show "\<exists>t\<in>set (tasks db). t_run_id t = rid \<and> t_status t = TaskDead" using view_row_ex [OF db] by blast
qed

lemma run_has_every_step:
  assumes db: "reachable env db" and r: "run_by_id rid db = Some r" and d: "Definition env (r_workflow_id r) db = Inr d"
  shows "set (map t_name (run_tasks rid db)) = set (step_names d)" and "distinct (map t_name (run_tasks rid db))"
proof -
  have ok: "tables_ok db" by (rule runs_ok_tables [OF schedule.holds [OF db]])
  obtain e where "Definition env (r_workflow_id r) db = Inr e" "spec_inv e (r_status r, view_of rid db)" by (rule run_view [OF db r])
  then have "dom (view_of rid db) = set (step_names d)" using d by (simp add: spec_inv_def)
  moreover have "dom (view_of rid db) = t_name ` set (run_tasks rid db)" by (auto simp: dom_def view_iff [OF ok])
  ultimately show "set (map t_name (run_tasks rid db)) = set (step_names d)" by simp
  have "inj_on (\<lambda>t. (t_run_id t, t_name t)) (set (tasks db))" "distinct (tasks db)"
    using ok by (auto simp: tables_ok_def distinct_map)
  then show "distinct (map t_name (run_tasks rid db))"
    by (auto simp: run_tasks_def distinct_map inj_on_def)
qed

end
