(* ===== verification/Relab_Attempts.thy ===== *)
theory Relab_Attempts
  imports Relab_Progress
begin

text \<open>
  Single rows over time: a task that has ended is never written again, and no task is
  attempted more often than its policy allows.
\<close>

section \<open>Ended tasks are frozen\<close>

definition ended_row :: "task_row \<Rightarrow> db \<Rightarrow> bool" where
  "ended_row t db \<longleftrightarrow> tables_ok db \<and> t \<in> set (tasks db) \<and> TaskStatus_Terminal (t_status t)"

named_theorems ended_keeps \<open>statements that keep \<open>ended_row\<close>\<close>

lemma ended_update:
  assumes "keys_kept f" and "TaskStatus_Terminal (t_status t) \<Longrightarrow> \<not> c t"
  shows "tx_keeps (ended_row t) (update_tasks c f)"
proof (rule tx_keepsI)
  fix db n db'
  assume e: "ended_row t db" and u: "update_tasks c f db = Inr (n, db')"
  then have "\<not> c t" using assms(2) by (simp add: ended_row_def)
  moreover have "tables_ok db'" using tx_keepsD [OF tables_update_tasks [OF assms(1)] _ u] e by (simp add: ended_row_def)
  ultimately show "ended_row t db'" using e u by (auto simp: ended_row_def update_tasks_Inr in_sql_update)
qed

lemma ended_other:
  assumes "tx_keeps tables_ok m" and "tx_keeps (has_row t) m"
  shows "tx_keeps (ended_row t) m"
  using assms by (auto simp: ended_row_def tx_keeps_def has_row_def)

lemma has_row_inserts:
  "tx_keeps (has_row t) (insert_task q)" "tx_keeps (has_row t) (insert_run r)" "tx_keeps (has_row t) (insert_workflow w)"
  by (auto simp: has_row_def insert_task_def insert_run_def insert_workflow_def intro!: tx_keepsI split: if_splits)

lemma ended_statements [ended_keeps]:
  "tx_keeps (ended_row t) (append now rid p m)" "tx_keeps (ended_row t) (insert_worker wk)"
  "(\<And>x. wk_id (h x) = wk_id x) \<Longrightarrow> tx_keeps (ended_row t) (update_workers e h)"
  "tx_keeps (ended_row t) (record_attempt a)" "tx_keeps (ended_row t) (insert_dead_letter l)"
  "tx_keeps (ended_row t) (upsert_artifact u)" "tx_keeps (ended_row t) (record_effect key rid name raw)"
  "tx_keeps (ended_row t) (insert_task q)" "tx_keeps (ended_row t) (insert_run r)" "tx_keeps (ended_row t) (insert_workflow w)"
  "run_keys_kept g \<Longrightarrow> tx_keeps (ended_row t) (update_runs d g)"
  by (simp_all add: ended_other tables_keeps tables_record_effect has_row_inserts has_row_runs has_row_silent silent)

lemma ended_operations:
  "tx_keeps (ended_row t) (create_run_tx env rid new_id wfl def opts seed now)"
  "tx_keeps (ended_row t) (start_tx w task handler now)"
  "tx_keeps (ended_row t) (complete_tx env w task out now)"
  "tx_keeps (ended_row t) (skipped_tx task key now)"
  "tx_keeps (ended_row t) (expire_tx env locked now)"
  "tx_keeps (ended_row t) (sweep_tx env now)"
  "tx_keeps (ended_row t) (retire_tx env wid now)"
  "tx_keeps (ended_row t) (renew_tx env w ids now)"
  "tx_keeps (ended_row t) (cancel_tx rid reason now)"
  "tx_keeps (ended_row t) (heartbeat_tx wid load now)"
  unfolding engine_tx_defs closing_defs
  by (intro keeps_rules ended_keeps keeps_update_returning ended_update keys_kept_updates run_keys_kept_updates;
      auto simp: terminal_cases buriable_def Holds_def)+

text \<open>The two statements that pick rows by identifier read their status first.\<close>

lemma ended_selected:
  assumes k: "\<And>ts. tx_keeps (ended_row t) (rest ts)" and f: "keys_kept f"
    and sel: "\<And>db q. tables_ok db \<Longrightarrow> q \<in> set (tasks db) \<Longrightarrow> t_id q \<in> set (ids db) \<Longrightarrow> \<not> TaskStatus_Terminal (t_status q)"
  shows "tx_keeps (ended_row t) (tx_bind (tx_read ids) (\<lambda>is. tx_bind (update_tasks_returning (\<lambda>t. t_id t \<in> set is) f) rest))"
proof (rule tx_keepsI)
  fix db x db'
  assume e: "ended_row t db"
    and m: "tx_bind (tx_read ids) (\<lambda>is. tx_bind (update_tasks_returning (\<lambda>t. t_id t \<in> set is) f) rest) db = Inr (x, db')"
  from m obtain ts db1 n where u: "update_tasks (\<lambda>t. t_id t \<in> set (ids db)) f db = Inr (n, db1)" and r: "rest ts db1 = Inr (x, db')"
    by (auto simp: tx_bind_Inr returning_Inr)
  have "tx_keeps (ended_row t) (update_tasks (\<lambda>t. t_id t \<in> set (ids db)) f)"
    by (rule ended_update [OF f]) (use e sel in \<open>auto simp: ended_row_def\<close>)
  from tx_keepsD [OF this e u] have "ended_row t db1" .
  with r show "ended_row t db'" using tx_keepsD [OF k] by blast
qed

lemma ended_claim: "tx_keeps (ended_row t) (claim_tx env locked now w ro limit)"
  unfolding claim_tx_def Let_def claim_one_def hydrate_def
  by (rule ended_selected; (intro keeps_rules ended_keeps)?)
    (auto simp: runnable_def dest!: selected_status)

lemma ended_promote: "tx_keeps (ended_row t) (promote_tx locked now limit)"
  unfolding promote_tx_def promote_one_def
  by (rule ended_selected; (intro keeps_rules ended_keeps)?)
    (auto simp: due_retries_def dest!: selected_status)

lemma engine_tx_ended: "engine_tx env db m \<Longrightarrow> tx_keeps (ended_row t) m"
  by (rule engine_tx_keeps [where I = "ended_row t"];
      (assumption | rule ended_operations ended_claim ended_promote ended_keeps)?)

lemma ended_task_frozen:
  assumes "reachable env db" and "sys_step env db db'" and "t \<in> set (tasks db)" and "TaskStatus_Terminal (t_status t)"
  shows "t \<in> set (tasks db')"
proof -
  have e: "ended_row t db" using assms tables.holds [OF assms(1)] by (simp add: ended_row_def)
  from sys_step_tx [OF assms(2)] have "ended_row t db'"
  proof
    assume "\<exists>m. engine_tx env db m \<and> m db = Inr ((), db')"
    then obtain m where m: "engine_tx env db m" "m db = Inr ((), db')" by blast
    show ?thesis by (rule tx_keepsD [OF engine_tx_ended [OF m(1)] e m(2)])
  qed (use e in simp)
  then show ?thesis by (simp add: ended_row_def)
qed

section \<open>Attempts are bounded\<close>

text \<open>
  A row may still be claimed only while it has attempts left, and the limit it carries is
  the one its definition gives.
\<close>

definition row_bounded :: "task_row \<Rightarrow> bool" where
  "row_bounded t \<longleftrightarrow> t_attempt t \<le> t_max_attempts t \<and> (Holds (t_status t) \<longrightarrow> 1 \<le> t_attempt t)
     \<and> (t_status t = TaskPending \<or> t_status t = TaskReady \<or> t_status t = TaskRetrying \<longrightarrow> t_attempt t < t_max_attempts t)"

definition linked :: "env \<Rightarrow> db \<Rightarrow> bool" where
  "linked env db \<longleftrightarrow> (\<forall>t\<in>set (tasks db). \<forall>w s d. heads db (t_run_id t) = Some (w, s) \<longrightarrow> Definition env w db = Inr d \<longrightarrow>
     t_max_attempts t = rp_MaxAttempts (retryPolicyFor d (t_name t)))"

definition bounded :: "env \<Rightarrow> db \<Rightarrow> bool" where
  "bounded env db \<longleftrightarrow> tables_ok db \<and> linked env db \<and> (\<forall>t\<in>set (tasks db). row_bounded t)"

named_theorems bounded_keeps \<open>statements that keep \<open>bounded\<close>\<close>

lemma linked_core: "core db' = core db \<Longrightarrow> linked env db \<Longrightarrow> linked env db'"
  using Definition_workflows [of db' db env] by (simp add: linked_def core_def)

lemma bounded_silent: "(\<And>k. tx_keeps (core_is k) m) \<Longrightarrow> tx_keeps tables_ok m \<Longrightarrow> tx_keeps (bounded env) m"
proof (rule tx_keepsI)
  fix db x db'
  assume s: "\<And>k. tx_keeps (core_is k) m" and k: "tx_keeps tables_ok m" and b: "bounded env db" and m: "m db = Inr (x, db')"
  have "core db' = core db" by (rule silentD [OF s m])
  with b tx_keepsD [OF k _ m] show "bounded env db'" by (simp add: bounded_def linked_core core_def)
qed

lemma bounded_statements [bounded_keeps]:
  "tx_keeps (bounded env) (append now rid p m)" "tx_keeps (bounded env) (insert_worker wk)"
  "(\<And>x. wk_id (h x) = wk_id x) \<Longrightarrow> tx_keeps (bounded env) (update_workers e h)"
  "tx_keeps (bounded env) (record_attempt a)" "tx_keeps (bounded env) (insert_dead_letter l)"
  "tx_keeps (bounded env) (upsert_artifact u)" "tx_keeps (bounded env) (record_effect key rid name raw)"
  by (simp_all add: bounded_silent silent tables_keeps tables_record_effect)

lemma linked_update_tasks: "keys_kept f \<Longrightarrow> linked env db \<Longrightarrow> linked env (db\<lparr>tasks := sql_update c f (tasks db)\<rparr>)"
  using update_core [where db = db and ts = "sql_update c f (tasks db)", OF refl] Definition_workflows [of "db\<lparr>tasks := sql_update c f (tasks db)\<rparr>" db env]
  by (auto simp: linked_def in_sql_update keys_kept_def split: if_splits)

text \<open>An UPDATE keeps the bound when it does for each row it can hit.\<close>

lemma bounded_update_at:
  assumes "keys_kept f" and b: "bounded env db" and u: "update_tasks c f db = Inr (n, db')"
    and row: "\<And>t. t \<in> set (tasks db) \<Longrightarrow> c t \<Longrightarrow> row_bounded t \<Longrightarrow> task_check t \<Longrightarrow> row_bounded (f t)"
  shows "bounded env db'"
proof -
  have db': "db' = db\<lparr>tasks := sql_update c f (tasks db)\<rparr>" using u by (simp add: update_tasks_Inr)
  have "tables_ok db'" using tx_keepsD [OF tables_update_tasks [OF assms(1)] _ u] b by (simp add: bounded_def)
  moreover have "linked env db'" unfolding db' using linked_update_tasks [OF assms(1)] b by (simp add: bounded_def)
  moreover have "row_bounded t" if "t \<in> set (tasks db')" for t
    using that b row by (auto simp: db' in_sql_update bounded_def tables_ok_def list_all_iff)
  ultimately show ?thesis by (simp add: bounded_def)
qed

lemma bounded_update:
  assumes "keys_kept f" and "\<And>t. c t \<Longrightarrow> row_bounded t \<Longrightarrow> row_bounded (f t)"
  shows "tx_keeps (bounded env) (update_tasks c f)"
  by (rule tx_keepsI, erule (1) bounded_update_at [OF assms(1)]) (use assms(2) in blast)

lemma bounded_update_runs [bounded_keeps]:
  assumes g: "run_keys_kept g"
  shows "tx_keeps (bounded env) (update_runs e g)"
proof (rule tx_keepsI)
  fix db n db'
  assume b: "bounded env db" and u: "update_runs e g db = Inr (n, db')"
  then have db': "db' = db\<lparr>runs := sql_update e g (runs db)\<rparr>" by (simp add: update_runs_Inr)
  have "tables_ok db'" using tx_keepsD [OF tables_update_runs [OF g] _ u] b by (simp add: bounded_def)
  moreover have "\<exists>s0. heads db rid = Some (w, s0)" if "heads db' rid = Some (w, s)" for rid w s
    using that heads_update_runs [OF g db', of rid] by (cases "run_by_id rid db") (auto simp: heads_def)
  then have "linked env db'"
    using b Definition_workflows [of db' db env] unfolding bounded_def linked_def by (simp add: db') blast
  ultimately show "bounded env db'" using b by (simp add: bounded_def db')
qed

lemma row_bounded_updates:
  "row_bounded t \<Longrightarrow> t_status t = TaskLeased \<Longrightarrow> row_bounded (start now t)"
  "row_bounded t \<Longrightarrow> row_bounded (succeed out now t)" "row_bounded t \<Longrightarrow> row_bounded (bury now t)"
  "row_bounded t \<Longrightarrow> row_bounded (fail e now t)" "row_bounded t \<Longrightarrow> row_bounded (end_held why now t)"
  "row_bounded t \<Longrightarrow> row_bounded (cancel_task now t)"
  "row_bounded t \<Longrightarrow> t_status t = TaskPending \<Longrightarrow> row_bounded (promote now t)"
  "row_bounded t \<Longrightarrow> row_bounded (t\<lparr>t_lease_expires_at := l, t_updated_at := now\<rparr>)"
  "row_bounded t \<Longrightarrow> t_attempt t < t_max_attempts t \<Longrightarrow> row_bounded (retrying ra now t)"
  "row_bounded t \<Longrightarrow> t_attempt t < t_max_attempts t \<Longrightarrow> row_bounded (hand_back now t)"
  "row_bounded t \<Longrightarrow> t_status t = TaskReady \<Longrightarrow> task_check t \<Longrightarrow> row_bounded (lease w u now t)"
  "row_bounded t \<Longrightarrow> t_status t = TaskRetrying \<Longrightarrow> row_bounded (t\<lparr>t_status := TaskReady, t_updated_at := now\<rparr>)"
  by (auto simp: row_bounded_def row_update_defs Holds_def task_check_def)

lemma bounded_guarded [bounded_keeps]:
  "tx_keeps (bounded env) (update_tasks (\<lambda>t. c t \<and> t_status t = TaskLeased) (start now))"
  "tx_keeps (bounded env) (update_tasks d (succeed out now))" "tx_keeps (bounded env) (update_tasks d (bury now))"
  "tx_keeps (bounded env) (update_tasks d (fail e now))" "tx_keeps (bounded env) (update_tasks d (end_held why now))"
  "tx_keeps (bounded env) (update_tasks d (cancel_task now))"
  "tx_keeps (bounded env) (update_tasks (\<lambda>t. a t \<and> b t \<and> t_status t = TaskPending) (promote now))"
  "tx_keeps (bounded env) (update_tasks d (\<lambda>t. t\<lparr>t_lease_expires_at := l, t_updated_at := now\<rparr>))"
  by (rule bounded_update; auto intro: row_bounded_updates)+

lemma bounded_blocks [bounded_keeps]:
  "tx_keeps (bounded env) (deadLetter task reason detail now)"
  "tx_keeps (bounded env) (abandonDependents d rid failed now)"
  "tx_keeps (bounded env) (settleRun rid now)"
  "tx_keeps (bounded env) (unlockDependents d rid name now)"
  "tx_keeps (bounded env) (recordSuccess w task out d now)"
  "tx_keeps (bounded env) (releaseAbandoned task now)"
  "tx_keeps (bounded env) (deadLetterExpired task now)"
  unfolding recordSuccess_def deadLetter_def abandonDependents_def abandon_one_def settleRun_def close_run_def
    unlockDependents_def unlock_one_def recordArtifacts_def record_artifact_def releaseAbandoned_def deadLetterExpired_def
  by (intro keeps_rules bounded_keeps run_keys_kept_updates)+

lemma bounded_operations:
  "tx_keeps (bounded env) (start_tx w task handler now)"
  "tx_keeps (bounded env) (skipped_tx task key now)"
  "tx_keeps (bounded env) (sweep_tx env' now)"
  "tx_keeps (bounded env) (retire_tx env' wid now)"
  "tx_keeps (bounded env) (renew_tx env' w ids now)"
  "tx_keeps (bounded env) (cancel_tx rid reason now)"
  "tx_keeps (bounded env) (heartbeat_tx wid load now)"
  unfolding start_tx_def markRunStarted_def skipped_tx_def sweep_tx_def lose_worker_def announceWorkerLost_def
    releaseLeasesOf_def retire_tx_def renew_tx_def cancel_tx_def heartbeat_tx_def
  by (intro keeps_rules bounded_keeps keeps_update_returning run_keys_kept_updates; simp)+

text \<open>A definition read for a run gives the limits its rows carry.\<close>

lemma linked_limit:
  assumes "bounded env db" and "t \<in> set (tasks db)" and "heads db (t_run_id t) = Some (w, s)" and "Definition env w db = Inr d"
  shows "t_max_attempts t = rp_MaxAttempts (retryPolicyFor d (t_name t))"
  using assms unfolding bounded_def linked_def by blast

lemma bounded_claim:
  assumes b: "bounded env db" and m: "claim_tx env' locked now w ro limit db = Inr (x, db')"
  shows "bounded env db'"
proof -
  let ?until = "now + LeaseDuration (env_timing env')"
  let ?c = "\<lambda>t. t_id t \<in> set (runnable locked now limit ro db)"
  from m obtain ts db1 n where u: "update_tasks ?c (lease w ?until now) db = Inr (n, db1)"
    and rest: "tx_map (claim_one env' w ?until now) ts db1 = Inr (x, db')"
    by (auto simp: claim_tx_def Let_def tx_bind_Inr returning_Inr)
  have ready: "t_status t = TaskReady" if "t \<in> set (tasks db)" "?c t" for t
    using selected_status [OF _ that(1) that(2) [unfolded runnable_def]] b by (simp add: bounded_def)
  have b1: "bounded env db1" by (rule bounded_update_at [OF _ b u]) (use ready in \<open>auto intro: row_bounded_updates\<close>)
  have k: "tx_keeps (bounded env) (tx_map (claim_one env' w ?until now) ts)"
    unfolding claim_one_def hydrate_def by (intro keeps_rules bounded_keeps)
  show ?thesis by (rule tx_keepsD [OF k b1 rest])
qed

lemma bounded_promote:
  assumes b: "bounded env db" and m: "promote_tx locked now limit db = Inr (x, db')"
  shows "bounded env db'"
proof -
  let ?c = "\<lambda>t. t_id t \<in> set (due_retries locked now limit db)"
  let ?f = "\<lambda>t. t\<lparr>t_status := TaskReady, t_updated_at := now\<rparr> :: task_row"
  from m obtain ts db1 n u' where u: "update_tasks ?c ?f db = Inr (n, db1)" and rest: "tx_for ts (promote_one now) db1 = Inr (u', db')"
    by (auto simp: promote_tx_def tx_bind_Inr returning_Inr)
  have due: "t_status t = TaskRetrying" if "t \<in> set (tasks db)" "?c t" for t
    using selected_status [OF _ that(1) that(2) [unfolded due_retries_def]] b by (simp add: bounded_def)
  have b1: "bounded env db1" by (rule bounded_update_at [OF _ b u]) (use due in \<open>auto intro: row_bounded_updates\<close>)
  have k: "tx_keeps (bounded env) (tx_for ts (promote_one now))"
    unfolding promote_one_def by (intro keeps_rules bounded_keeps)
  show ?thesis by (rule tx_keepsD [OF k b1 rest])
qed

lemma bounded_failure:
  assumes b: "bounded env db" and copy: "copy_of_task task db"
    and d: "heads db (t_run_id task) = Some (wid, s)" "Definition env wid db = Inr d"
    and m: "recordFailure env' w task out err d now db = Inr (x, db')"
  shows "bounded env db'"
proof -
  let ?n = "t_name task" and ?policy = "retryPolicyFor d (t_name task)"
  let ?c = "\<lambda>t. held_by w task t \<and> (t_status t = TaskRunning \<or> t_status t = TaskLeased)" and ?f = "fail (truncateError err) now"
  let ?will = "ShouldRetry ?policy (t_attempt task) (o_Permanent out)"
  have ok: "tables_ok db" using b by (simp add: bounded_def)
  from copy obtain t where t: "t \<in> set (tasks db)" "t_id t = t_id task" "t_run_id t = t_run_id task" "t_name t = ?n"
    by (auto simp: copy_of_task_def)
  from m obtain k db1 y db2 p where u: "update_tasks ?c ?f db = Inr (k, db1)" and k: "k \<noteq> 0"
    and p: "append now (t_run_id task) p (at_task ?n (Some w) now) db1 = Inr (y, db2)"
    and rest: "(if ?will then scheduleRetry env' task ?policy now
        else tx_bind (deadLetter task (if o_Permanent out then ''permanent failure'' else ''attempts exhausted'') err now) (\<lambda>_.
          tx_bind (abandonDependents d (t_run_id task) ?n now) (\<lambda>_. settleRun (t_run_id task) now))) db2 = Inr (x, db')"
    by (auto simp: recordFailure_def Let_def tx_bind_Inr split: if_splits)
  have b2: "bounded env db2"
    using tx_keepsD [OF bounded_statements(1) tx_keepsD [OF bounded_guarded(4) b u] p] .
  show ?thesis
  proof (cases ?will)
    case False
    have "tx_keeps (bounded env) (tx_bind (deadLetter task (if o_Permanent out then ''permanent failure'' else ''attempts exhausted'') err now) (\<lambda>_.
          tx_bind (abandonDependents d (t_run_id task) ?n now) (\<lambda>_. settleRun (t_run_id task) now)))"
      by (intro keeps_rules bounded_keeps)
    from tx_keepsD [OF this b2] rest False show ?thesis by simp
  next
    case True
    then have less: "t_attempt task < rp_MaxAttempts ?policy" by (auto simp: ShouldRetry_def split: if_splits)
    obtain q where q: "q \<in> set (tasks db)" "?c q" using u k by (auto simp: update_tasks_Inr)
    then have "q = t" using task_id_unique [OF ok q(1) t(1)] t(2) by (simp add: held_by_def)
    with q have att: "t_attempt t = t_attempt task" by (simp add: held_by_def)
    have lim: "t_max_attempts t = rp_MaxAttempts ?policy" using linked_limit [OF b t(1)] d t by simp
    from True rest obtain ra k3 db3 pl where
      u3: "update_tasks (\<lambda>t. t_id t = t_id task \<and> t_status t = TaskFailed) (retrying ra now) db2 = Inr (k3, db3)"
      and p3: "append now (t_run_id task) pl (at_task ?n None now) db3 = Inr (x, db')"
      by (auto simp: scheduleRetry_def Let_def tx_bind_Inr)
    have "t_attempt r < t_max_attempts r" if r: "r \<in> set (tasks db2)" "t_id r = t_id task" for r
    proof -
      have "tasks db2 = sql_update ?c ?f (tasks db)" using append_frame(1) [OF p] u by (simp add: update_tasks_Inr)
      with r obtain r0 where r0: "r0 \<in> set (tasks db)" "r = (if ?c r0 then ?f r0 else r0)" by (auto simp: in_sql_update)
      then have "t_id r0 = t_id t" using r(2) t(2) by (auto simp: fail_def split: if_splits)
      then have "r0 = t" using task_id_unique [OF ok r0(1) t(1)] by simp
      then show ?thesis using r0 att lim less by (auto simp: fail_def)
    qed
    then have "bounded env db3"
      by (intro bounded_update_at [OF _ b2 u3]) (auto intro: row_bounded_updates)
    from tx_keepsD [OF bounded_statements(1) this p3] show ?thesis .
  qed
qed

lemma bounded_complete:
  assumes b: "bounded env db" and copy: "copy_of_task task db" and m: "complete_tx env w task out now db = Inr (x, db')"
  shows "bounded env db'"
proof -
  from m obtain d wid s where d: "heads db (t_run_id task) = Some (wid, s)" "Definition env wid db = Inr d"
    and rest: "(case o_Err out of Some err \<Rightarrow> recordFailure env w task out err d now
        | None \<Rightarrow> recordSuccess w task out d now) db = Inr (x, db')"
    by (auto simp: complete_tx_def tx_bind_Inr definitionForRun_Inr)
  then show ?thesis
    using bounded_failure [OF b copy d] tx_keepsD [OF bounded_blocks(5) b] by (auto split: option.splits)
qed

text \<open>
  In the sweep a task names a row by its identifier; the row keeps its run and name.
\<close>

definition same_task :: "task \<Rightarrow> db \<Rightarrow> bool" where
  "same_task t db \<longleftrightarrow> (\<forall>q\<in>set (tasks db). t_id q = t_id t \<longrightarrow> t_run_id q = t_run_id t \<and> t_name q = t_name t)"

lemma same_update: "keys_kept f \<Longrightarrow> tx_keeps (same_task t) (update_tasks c f)"
  by (rule tx_keepsI) (auto simp: same_task_def update_tasks_Inr in_sql_update keys_kept_def split: if_splits)

lemma same_silent: "(\<And>k. tx_keeps (core_is k) m) \<Longrightarrow> tx_keeps (same_task t) m"
proof (rule tx_keepsI)
  fix db x db'
  assume s: "\<And>k. tx_keeps (core_is k) m" and t: "same_task t db" and m: "m db = Inr (x, db')"
  show "same_task t db'" using silentD [OF s m] t by (simp add: same_task_def core_def)
qed

lemma same_runs: "tx_keeps (same_task t) (update_runs c f)"
  by (rule tx_keepsI) (simp add: same_task_def update_runs_Inr)

lemma same_expire: "tx_keeps (same_task t) (expire_one env now q)"
  unfolding expire_one_def runIsTerminal_def releaseAbandoned_def recordLeaseExpiry_def requeue_def deadLetterExpired_def
    definitionForRun_def abandonDependents_def abandon_one_def deadLetter_def settleRun_def close_run_def
  by (intro keeps_rules same_update keys_kept_updates same_silent [OF silent(1)] same_silent [OF silent(5)] same_runs)

lemma bounded_expire_one:
  assumes b: "bounded env db" and t: "same_task task db" and m: "expire_one env now task db = Inr (x, db')"
  shows "bounded env db'"
proof -
  have req: "bounded env db2" if b1: "bounded env db1" and t1: "same_task task db1"
    and d: "heads db1 (t_run_id task) = Some (w, s)" "Definition env w db1 = Inr d"
    and less: "t_attempt task < rp_MaxAttempts (retryPolicyFor d (t_name task))" and r: "requeue task now db1 = Inr (u, db2)" for db1 db2 d w s u
  proof -
    let ?c = "\<lambda>q. t_id q = t_id task \<and> Holds (t_status q) \<and> t_attempt q = t_attempt task"
    from r obtain k db1a p where up: "update_tasks ?c (hand_back now) db1 = Inr (k, db1a)"
      and rest: "(if k = 0 then tx_return () else append now (t_run_id task) p (at_task (t_name task) None now)) db1a = Inr (u, db2)"
      by (auto simp: requeue_def tx_bind_Inr)
    have "t_attempt q < t_max_attempts q" if "q \<in> set (tasks db1)" "?c q" for q
      using linked_limit [OF b1 that(1)] t1 that d less by (auto simp: same_task_def)
    then have "bounded env db1a" by (intro bounded_update_at [OF _ b1 up]) (auto intro: row_bounded_updates)
    then show ?thesis using rest tx_keepsD [OF bounded_statements(1)] by (auto split: if_splits)
  qed
  from m consider u where "releaseAbandoned task now db = Inr (u, db')"
    | y db1 d w s u where "recordLeaseExpiry task now db = Inr (y, db1)" "heads db1 (t_run_id task) = Some (w, s)"
        "Definition env w db1 = Inr d" "t_attempt task < rp_MaxAttempts (retryPolicyFor d (t_name task))" "requeue task now db1 = Inr (u, db')"
    | y db1 d u1 db2 u2 db3 u3 where "recordLeaseExpiry task now db = Inr (y, db1)" "deadLetterExpired task now db1 = Inr (u1, db2)"
        "abandonDependents d (t_run_id task) (t_name task) now db2 = Inr (u2, db3)" "settleRun (t_run_id task) now db3 = Inr (u3, db')"
    unfolding expire_one_def tx_bind_Inr [where m = "runIsTerminal (t_run_id task)"]
    by (auto simp: runIsTerminal_def tx_bind_Inr definitionForRun_Inr split: if_splits)
  then show ?thesis
  proof cases
    case 1
    then show ?thesis by (rule tx_keepsD [OF bounded_blocks(6) b])
  next
    case 2
    have "bounded env db1" "same_task task db1"
      using 2(1) tx_keepsD [OF bounded_statements(1) b] tx_keepsD [OF same_silent [OF silent(1)] t] by (simp_all add: recordLeaseExpiry_def)
    from req [OF this 2(2-5)] show ?thesis .
  next
    case 3
    have "bounded env db1" using 3(1) tx_keepsD [OF bounded_statements(1) b] by (simp add: recordLeaseExpiry_def)
    from tx_keepsD [OF bounded_blocks(3) tx_keepsD [OF bounded_blocks(2) tx_keepsD [OF bounded_blocks(7) this 3(2)] 3(3)] 3(4)]
    show ?thesis .
  qed
qed

lemma bounded_expire:
  assumes b: "bounded env db" and m: "expire_tx env locked now db = Inr (x, db')"
  shows "bounded env db'"
proof -
  have "bounded env db'" if "bounded env db" "\<And>t. t \<in> set ts \<Longrightarrow> same_task t db" "tx_map (expire_one env now) ts db = Inr (x, db')" for ts
    using that
  proof (induction ts arbitrary: db x)
    case (Cons t ts)
    from Cons.prems(3) obtain y db1 ys where one: "expire_one env now t db = Inr (y, db1)"
      and rest: "tx_map (expire_one env now) ts db1 = Inr (ys, db')" by (auto simp: tx_bind_Inr)
    have "bounded env db1" by (rule bounded_expire_one [OF Cons.prems(1) _ one]) (simp add: Cons.prems(2))
    then show ?case
      by (rule Cons.IH [OF _ _ rest]) (use Cons.prems(2) tx_keepsD [OF same_expire _ one] in auto)
  qed simp
  moreover have "same_task t db" if "t \<in> set (expired_tasks locked now db)" for t
  proof -
    have "t \<in> set (tasks db)" using that by (auto simp: expired_tasks_def dest!: in_set_takeD)
    then show ?thesis using b task_id_unique [of db] by (auto simp: same_task_def bounded_def)
  qed
  ultimately show ?thesis using b m by (auto simp: expire_tx_def tx_bind_Inr)
qed

lemma heads_insert_run:
  assumes "insert_run r db = Inr (x, db')"
  shows "heads db' q = (if q = r_id r then Some (r_workflow_id r, r_status r) else heads db q)"
proof -
  have "db' = db\<lparr>runs := runs db @ [r]\<rparr>" "find (\<lambda>q. r_id q = r_id r) (runs db) = None"
    using assms by (auto simp: insert_run_def find_key_None split: if_splits)
  then show ?thesis by (auto simp: heads_def run_by_id_def find_snoc split: option.split)
qed

lemma task_run_known: "tables_ok db \<Longrightarrow> t \<in> set (tasks db) \<Longrightarrow> t_run_id t \<in> r_id ` set (runs db)"
  by (simp add: tables_ok_def image_subset_iff)

lemma bounded_insert_run: "tx_keeps (bounded env) (insert_run r)"
proof (rule tx_keepsI)
  fix db x db'
  assume b: "bounded env db" and m: "insert_run r db = Inr (x, db')"
  then have db': "db' = db\<lparr>runs := runs db @ [r]\<rparr>" and new: "r_id r \<notin> r_id ` set (runs db)"
    by (auto simp: insert_run_def split: if_splits)
  have "t_run_id t \<noteq> r_id r" if "t \<in> set (tasks db)" for t
    using task_run_known [of db t] b new that by (auto simp: bounded_def)
  then have "linked env db'"
    using b heads_insert_run [OF m] Definition_workflows [of db' db env] by (auto simp: linked_def bounded_def db')
  moreover have "tables_ok db'" using b tx_keepsD [OF tables_insert_run _ m] by (simp add: bounded_def)
  ultimately show "bounded env db'" using b by (simp add: bounded_def db')
qed

text \<open>While the tasks of a new run are inserted, its definition is the one being instantiated.\<close>

definition creating :: "env \<Rightarrow> uuid \<Rightarrow> uuid \<Rightarrow> wf_definition \<Rightarrow> db \<Rightarrow> bool" where
  "creating env rid w d db \<longleftrightarrow> bounded env db \<and> (\<exists>s. heads db rid = Some (w, s)) \<and> Definition env w db = Inr d"

lemma creating_append: "tx_keeps (creating env rid w d) (append now q p m)"
proof (rule tx_keepsI)
  fix db x db'
  assume c: "creating env rid w d db" and m: "append now q p m db = Inr (x, db')"
  note core = core_view [OF append_core [OF m]]
  show "creating env rid w d db'"
    using c tx_keepsD [OF bounded_statements(1) _ m] core Definition_workflows [of db' db env] by (simp add: creating_def)
qed

lemma creating_insert_task: "tx_keeps (creating env rid w d) (insert_task (new_task_row env' d rid now tid st))"
proof (rule tx_keepsI)
  let ?t = "new_task_row env' d rid now tid st"
  fix db x db'
  assume c: "creating env rid w d db" and m: "insert_task ?t db = Inr (x, db')"
  have db': "db' = db\<lparr>tasks := tasks db @ [?t]\<rparr>" and chk: "task_check ?t" using m by (auto simp: insert_task_def split: if_splits)
  have b: "bounded env db" using c by (simp add: creating_def)
  have D: "Definition env q db' = Definition env q db" for q by (rule Definition_workflows [OF insert_task_view(3) [OF m]])
  have "row_bounded ?t" using chk by (simp add: row_bounded_def task_check_def new_task_row_def Holds_def)
  moreover have "linked env db'"
    using c insert_task_view(2) [OF m] D
    by (auto simp: creating_def bounded_def linked_def db' new_task_row_def retryPolicyFor_def FromWorkflow_def)
  moreover have "tables_ok db'" using b tx_keepsD [OF tables_insert_task _ m] by (simp add: bounded_def)
  ultimately show "creating env rid w d db'"
    using c insert_task_view(2) [OF m] D by (simp add: creating_def bounded_def db')
qed

lemma bounded_create:
  assumes b: "bounded env db" and d: "Definition env (w_id wfl) db = Inr d"
    and m: "create_run_tx env rid new_id wfl d opts seed now db = Inr (x, db')"
  shows "bounded env db'"
proof -
  let ?r = "new_run_row rid (w_id wfl) opts seed now"
  from m obtain u1 db1 u2 db2 u3 db3 k db4 p1 p2 where i: "insert_run ?r db = Inr (u1, db1)"
    and a1: "append now rid p1 (at_run now) db1 = Inr (u2, db2)"
    and l: "tx_for (enumerate 0 (d_Steps d)) (\<lambda>(i, st). create_task env d rid now (new_id i) st) db2 = Inr (u3, db3)"
    and u: "update_runs (\<lambda>r. r_id r = rid \<and> r_status r = RunCreated) (\<lambda>r. r\<lparr>r_status := RunQueued\<rparr>) db3 = Inr (k, db4)"
    and a2: "append now rid p2 (at_run now) db4 = Inr (x, db')"
    by (auto simp: create_run_tx_def tx_bind_Inr)
  have "workflows db1 = workflows db" using i by (auto simp: insert_run_def split: if_splits)
  then have c1: "creating env rid (w_id wfl) d db1"
    using tx_keepsD [OF bounded_insert_run b i] heads_insert_run [OF i, of rid] d Definition_workflows [of db1 db env]
    by (simp add: creating_def new_run_row_def)
  have k: "tx_keeps (creating env rid (w_id wfl) d)
      (tx_for (enumerate 0 (d_Steps d)) (\<lambda>(i, st). create_task env d rid now (new_id i) st))"
    unfolding create_task_def by (intro keeps_rules creating_append creating_insert_task)
  have "bounded env db3" using tx_keepsD [OF k tx_keepsD [OF creating_append c1 a1] l] by (simp add: creating_def)
  from tx_keepsD [OF bounded_statements(1) tx_keepsD [OF bounded_update_runs [OF run_keys_kept_updates(1)] this u] a2]
  show ?thesis .
qed

lemma bounded_workflow:
  assumes ok: "runs_ok env db" and b: "bounded env db" and m: "insert_workflow wfl db = Inr (x, db')"
  shows "bounded env db'"
proof -
  have db': "db' = db\<lparr>workflows := workflows db @ [wfl]\<rparr>" using m by (auto simp: insert_workflow_def split: if_splits)
  have h: "heads db' = heads db" by (simp add: db' heads_def run_by_id_def fun_eq_iff)
  have D: "Definition env w db' = Definition env w db" if h0: "heads db rid = Some (w, s)" for rid w s
  proof -
    obtain d where "Definition env w db = Inr d" by (rule runs_okD [OF ok h0])
    then show ?thesis by (auto simp: Definition_def WorkflowByID_def db' find_snoc split: option.splits)
  qed
  have "linked env db'" using b D unfolding bounded_def linked_def h by (auto simp: db')
  moreover have "tables_ok db'" using b tx_keepsD [OF tables_insert_workflow _ m] by (simp add: bounded_def)
  ultimately show ?thesis using b by (simp add: bounded_def db')
qed

lemma engine_tx_bounded:
  assumes ok: "runs_ok env db" and b: "bounded env db" and tx: "engine_tx env db m" and m: "m db = Inr ((), db')"
  shows "bounded env db'"
proof -
  have keep: "bounded env db'" if "tx_keeps (bounded env) m" by (rule tx_keepsD [OF that b m])
  from tx show ?thesis
  proof cases
    case (1 wfl d rid new_id opts seed now)
    show ?thesis by (rule bounded_create [OF b 1(3)]) (use m 1(1) in simp)
  next
    case (2 wfl)
    show ?thesis by (rule bounded_workflow [OF ok b]) (use m 2 in simp)
  next
    case (3 locked now w ro limit)
    then obtain x where "claim_tx env locked now w ro limit db = Inr (x, db')" using m bind_unit by blast
    then show ?thesis by (rule bounded_claim [OF b])
  next
    case (5 task w out now)
    show ?thesis by (rule bounded_complete [OF b 5(2)]) (use m 5(1) in simp)
  next
    case (9 locked now)
    then obtain x where "expire_tx env locked now db = Inr (x, db')" using m bind_unit by blast
    then show ?thesis by (rule bounded_expire [OF b])
  next
    case (11 locked now limit)
    then obtain x where "promote_tx locked now limit db = Inr (x, db')" using m bind_unit by blast
    then show ?thesis by (rule bounded_promote [OF b])
  qed (rule keep; simp add: keeps_bind keeps_return bounded_operations bounded_statements)+
qed

interpretation attempts: engine_invariant env "bounded env" for env
proof unfold_locales
  show "bounded env empty_db"
    by (simp add: bounded_def linked_def tables_ok_def empty_db_def)
  show "bounded env db'" if "reachable env db" "engine_tx env db m" "bounded env db" "m db = Inr ((), db')" for db m db'
    using engine_tx_bounded [OF schedule.holds] that by blast
qed

end
