(* ===== verification/Relab_Starts.thy ===== *)
theory Relab_Starts
  imports Relab_Attempts
begin

text \<open>
  The attempts a task has recorded: each is started once, their number stays within the
  policy, and the guard against concurrent attempts never has to fire.
\<close>

section \<open>An attempt is started once\<close>

text \<open>
  The recorded attempts of a task are below or at its counter, and strictly below it while
  the current attempt is leased but not started.
\<close>

definition attempt_known :: "attempt_row \<Rightarrow> task_row \<Rightarrow> bool" where
  "attempt_known a t \<longleftrightarrow> ta_attempt a \<le> t_attempt t \<and> (t_status t = TaskLeased \<longrightarrow> ta_attempt a < t_attempt t)"

definition started_ok :: "db \<Rightarrow> bool" where
  "started_ok db \<longleftrightarrow> tables_ok db \<and> distinct (map (\<lambda>a. (ta_task_id a, ta_attempt a)) (task_attempts db))
     \<and> (\<forall>a\<in>set (task_attempts db). 1 \<le> ta_attempt a \<and> ta_task_id a \<in> t_id ` set (tasks db)
          \<and> (\<forall>t\<in>set (tasks db). t_id t = ta_task_id a \<longrightarrow> attempt_known a t))"

definition counts_up :: "(task_row \<Rightarrow> task_row) \<Rightarrow> bool" where
  "counts_up f \<longleftrightarrow> keys_kept f \<and> (\<forall>a t. attempt_known a t \<longrightarrow> attempt_known a (f t))"

lemma counts_up_updates [simp, intro]:
  "counts_up (lease w u now)" "counts_up (start now)" "counts_up (promote now)" "counts_up (succeed out now)"
  "counts_up (retrying r now)" "counts_up (bury now)" "counts_up (fail e now)" "counts_up (end_held why now)"
  "counts_up (hand_back now)" "counts_up (cancel_task now)"
  "counts_up (\<lambda>t. t\<lparr>t_lease_expires_at := l, t_updated_at := now\<rparr>)"
  "counts_up (\<lambda>t. t\<lparr>t_status := TaskReady, t_updated_at := now\<rparr>)"
  by (auto simp: counts_up_def attempt_known_def row_update_defs)

named_theorems started_keeps \<open>statements that keep \<open>started_ok\<close>\<close>

lemma started_update [started_keeps]:
  assumes "counts_up f"
  shows "tx_keeps started_ok (update_tasks c f)"
proof (rule tx_keepsI)
  fix db n db'
  assume s: "started_ok db" and u: "update_tasks c f db = Inr (n, db')"
  have f: "keys_kept f" using assms by (simp add: counts_up_def)
  have db': "db' = db\<lparr>tasks := sql_update c f (tasks db)\<rparr>" using u by (simp add: update_tasks_Inr)
  have "map t_id (tasks db') = map t_id (tasks db)" using f by (simp add: db' keys_kept_def map_sql_update)
  then have ids: "t_id ` set (tasks db') = t_id ` set (tasks db)" by (metis set_map)
  have "tables_ok db'" using s tx_keepsD [OF tables_update_tasks [OF f] _ u] by (simp add: started_ok_def)
  moreover have "attempt_known a t" if "a \<in> set (task_attempts db)" "t \<in> set (tasks db')" "t_id t = ta_task_id a" for a t
    using that s assms by (auto simp: db' in_sql_update started_ok_def counts_up_def keys_kept_def split: if_splits)
  ultimately show "started_ok db'" using s ids by (simp add: started_ok_def db')
qed

lemma started_frame:
  "started_ok db \<Longrightarrow> tables_ok db' \<Longrightarrow> tasks db' = tasks db \<Longrightarrow> task_attempts db' = task_attempts db \<Longrightarrow> started_ok db'"
  by (simp add: started_ok_def)

text \<open>Statements that touch neither the tasks nor their attempts.\<close>

definition rows_free :: "'a tx \<Rightarrow> bool" where
  "rows_free m \<longleftrightarrow> (\<forall>db x db'. m db = Inr (x, db') \<longrightarrow> tasks db' = tasks db \<and> task_attempts db' = task_attempts db)"

lemma rows_free_statements:
  "rows_free (append now rid p m)" "rows_free (insert_worker wk)" "rows_free (update_workers e h)"
  "rows_free (insert_dead_letter l)" "rows_free (upsert_artifact u)" "rows_free (record_effect key rid name raw)"
  "rows_free (insert_run r)" "rows_free (insert_workflow w)" "rows_free (update_runs d g)"
  by (auto simp: rows_free_def append_frame insert_worker_def update_workers_def insert_dead_letter_def
      upsert_artifact_def record_effect_def insert_run_def insert_workflow_def update_runs_Inr Let_def split: if_splits)

lemma started_rows_free: "rows_free m \<Longrightarrow> tx_keeps tables_ok m \<Longrightarrow> tx_keeps started_ok m"
proof (rule tx_keepsI)
  fix db x db'
  assume r: "rows_free m" and k: "tx_keeps tables_ok m" and s: "started_ok db" and m: "m db = Inr (x, db')"
  have "tables_ok db'" using s tx_keepsD [OF k _ m] by (simp add: started_ok_def)
  then show "started_ok db'" using started_frame [OF s] r m by (auto simp: rows_free_def)
qed

lemma started_statements [started_keeps]:
  "tx_keeps started_ok (append now rid p m)" "tx_keeps started_ok (insert_worker wk)"
  "(\<And>x. wk_id (h x) = wk_id x) \<Longrightarrow> tx_keeps started_ok (update_workers e h)"
  "tx_keeps started_ok (insert_dead_letter l)" "tx_keeps started_ok (upsert_artifact u)"
  "tx_keeps started_ok (record_effect key rid name raw)" "tx_keeps started_ok (insert_run r)"
  "tx_keeps started_ok (insert_workflow w)" "run_keys_kept g \<Longrightarrow> tx_keeps started_ok (update_runs d g)"
  by (simp_all add: started_rows_free rows_free_statements tables_keeps tables_record_effect)

lemma started_insert_task [started_keeps]: "tx_keeps started_ok (insert_task q)"
proof (rule tx_keepsI)
  fix db x db'
  assume s: "started_ok db" and m: "insert_task q db = Inr (x, db')"
  have db': "db' = db\<lparr>tasks := tasks db @ [q]\<rparr>" and new: "t_id q \<notin> t_id ` set (tasks db)"
    using m by (auto simp: insert_task_def split: if_splits)
  have "tables_ok db'" using s tx_keepsD [OF tables_insert_task _ m] by (simp add: started_ok_def)
  moreover have "t_id q \<noteq> ta_task_id a" if "a \<in> set (task_attempts db)" for a using s new that by (auto simp: started_ok_def)
  ultimately show "started_ok db'" using s by (auto simp: started_ok_def db')
qed

lemma started_operations:
  "tx_keeps started_ok (create_run_tx env rid new_id wfl def opts seed now)"
  "tx_keeps started_ok (claim_tx env locked now w ro limit)"
  "tx_keeps started_ok (complete_tx env w task out now)"
  "tx_keeps started_ok (skipped_tx task key now)"
  "tx_keeps started_ok (expire_tx env locked now)"
  "tx_keeps started_ok (sweep_tx env now)"
  "tx_keeps started_ok (retire_tx env wid now)"
  "tx_keeps started_ok (renew_tx env w ids now)"
  "tx_keeps started_ok (promote_tx locked now limit)"
  "tx_keeps started_ok (cancel_tx rid reason now)"
  "tx_keeps started_ok (heartbeat_tx wid load now)"
  unfolding outcome_defs reaper_defs definitionForRun_def create_run_tx_def create_task_def closing_defs
    claim_tx_def claim_one_def hydrate_def
  by (intro keeps_rules started_keeps keeps_update_returning counts_up_updates run_keys_kept_updates; simp)+

text \<open>
  Starting: the guarded update hits exactly the leased row of the copy, so the attempt it
  records is new.
\<close>

lemma start_row:
  assumes ok: "tables_ok db" and copy: "copy_of_task task db"
    and u: "update_tasks (\<lambda>t. held_by w task t \<and> t_status t = TaskLeased) (start now) db = Inr (k, db1)" and k: "k \<noteq> 0"
  obtains t where "t \<in> set (tasks db)" "t_id t = t_id task" "t_attempt t = t_attempt task" "t_status t = TaskLeased"
    "\<forall>q\<in>set (tasks db1). t_id q = t_id task \<longrightarrow> q = start now t"
proof -
  let ?c = "\<lambda>t. held_by w task t \<and> t_status t = TaskLeased"
  obtain t where t: "t \<in> set (tasks db)" "?c t" using u k by (auto simp: update_tasks_Inr)
  have "q = start now t" if q: "q \<in> set (tasks db1)" "t_id q = t_id task" for q
  proof -
    from q(1) u obtain q0 where q0: "q0 \<in> set (tasks db)" "q = (if ?c q0 then start now q0 else q0)"
      by (auto simp: update_tasks_Inr in_sql_update)
    then have "t_id q0 = t_id task" using q(2) by (auto simp: start_def split: if_splits)
    then have "q0 = t" using task_id_unique [OF ok q0(1) t(1)] t(2) by (simp add: held_by_def)
    then show ?thesis using q0 t(2) by simp
  qed
  with that [of t] t show thesis by (simp add: held_by_def)
qed

lemma started_start:
  assumes b: "bounded env db" and s: "started_ok db" and copy: "copy_of_task task db"
    and m: "start_tx w task handler now db = Inr (x, db')"
  shows "started_ok db'"
proof -
  let ?a = "\<lparr>ta_task_id = t_id task, ta_attempt = t_attempt task, ta_worker_id = w, ta_started_at = now\<rparr>"
  have ok: "tables_ok db" using s by (simp add: started_ok_def)
  from m obtain k db1 y db2 z db3 p where u: "update_tasks (\<lambda>t. held_by w task t \<and> t_status t = TaskLeased) (start now) db = Inr (k, db1)"
    and k: "k \<noteq> 0" and r: "record_attempt ?a db1 = Inr (y, db2)" and p: "append now (t_run_id task) p (at_task (t_name task) (Some w) now) db2 = Inr (z, db3)"
    and mk: "markRunStarted (t_run_id task) now db3 = Inr (x, db')"
    by (auto simp: start_tx_def tx_bind_Inr split: if_splits)
  obtain t where t: "t \<in> set (tasks db)" "t_id t = t_id task" "t_attempt t = t_attempt task" "t_status t = TaskLeased"
    and only: "\<forall>q\<in>set (tasks db1). t_id q = t_id task \<longrightarrow> q = start now t"
    by (rule start_row [OF ok copy u k])
  have s1: "started_ok db1" by (rule tx_keepsD [OF started_update s u]) simp
  have db2: "db2 = db1\<lparr>task_attempts := task_attempts db1 @ [?a]\<rparr>"
    and new: "\<And>q. q \<in> set (task_attempts db1) \<Longrightarrow> \<not> (ta_task_id q = t_id task \<and> ta_attempt q = t_attempt task)"
    and fk: "t_id task \<in> t_id ` set (tasks db1)"
    using r by (auto simp: record_attempt_def insert_attempt_def split: if_splits)
  have "1 \<le> t_attempt task" using b t by (auto simp: bounded_def row_bounded_def Holds_def)
  moreover have "attempt_known ?a q" if "q \<in> set (tasks db1)" "t_id q = t_id task" for q
  proof -
    have "q = start now t" using only that by blast
    then show ?thesis using t by (simp add: attempt_known_def start_def)
  qed
  moreover have "tables_ok db2" using s1 tx_keepsD [OF tables_inserts(1) _ r] by (simp add: started_ok_def)
  moreover have "(t_id task, t_attempt task) \<notin> (\<lambda>a. (ta_task_id a, ta_attempt a)) ` set (task_attempts db1)" using new by fastforce
  ultimately have s2: "started_ok db2" using s1 fk by (auto simp: started_ok_def db2)
  have kmk: "tx_keeps started_ok (markRunStarted (t_run_id task) now)"
    unfolding markRunStarted_def by (intro keeps_rules started_keeps run_keys_kept_updates)
  show ?thesis by (rule tx_keepsD [OF kmk tx_keepsD [OF started_statements(1) s2 p] mk])
qed

lemma engine_tx_started:
  assumes b: "bounded env db" and s: "started_ok db" and tx: "engine_tx env db m" and m: "m db = Inr ((), db')"
  shows "started_ok db'"
proof -
  have keep: "started_ok db'" if "tx_keeps started_ok m" by (rule tx_keepsD [OF that s m])
  from tx show ?thesis
  proof cases
    case (4 task w handler now)
    show ?thesis by (rule started_start [OF b s 4(2)]) (use m 4(1) in simp)
  qed (rule keep; simp add: keeps_bind keeps_return started_operations started_keeps)+
qed

interpretation starts: engine_invariant env started_ok for env
proof unfold_locales
  show "started_ok empty_db" by (simp add: started_ok_def tables_ok_def empty_db_def)
  show "started_ok db'" if "reachable env db" "engine_tx env db m" "started_ok db" "m db = Inr ((), db')" for db m db'
    using engine_tx_started [OF attempts.holds] that by blast
qed

section \<open>Consequences\<close>

lemma attempts_within_limit:
  assumes "reachable env db" and "t \<in> set (tasks db)"
  shows "t_attempt t \<le> t_max_attempts t"
    and "int (length (filter (\<lambda>a. ta_task_id a = t_id t) (task_attempts db))) \<le> t_max_attempts t"
proof -
  let ?as = "filter (\<lambda>a. ta_task_id a = t_id t) (task_attempts db)"
  have b: "bounded env db" by (rule attempts.holds [OF assms(1)])
  have s: "started_ok db" by (rule starts.holds [OF assms(1)])
  show le: "t_attempt t \<le> t_max_attempts t" using b assms(2) by (auto simp: bounded_def row_bounded_def)
  have "inj_on (\<lambda>a. (ta_task_id a, ta_attempt a)) (set (task_attempts db))" and dist: "distinct ?as"
    using s by (auto simp: started_ok_def distinct_map)
  then have inj: "inj_on ta_attempt (set ?as)" by (auto simp: inj_on_def)
  have "ta_attempt ` set ?as \<subseteq> {1..t_attempt t}"
    using s assms(2) by (auto simp: started_ok_def attempt_known_def)
  then have "card (ta_attempt ` set ?as) \<le> card {1..t_attempt t}" by (intro card_mono) auto
  then have "length ?as \<le> nat (t_attempt t)" using card_image [OF inj] distinct_card [OF dist] by simp
  moreover have "0 \<le> t_attempt t" using b assms(2) by (auto simp: bounded_def tables_ok_def list_all_iff task_check_def)
  ultimately show "int (length ?as) \<le> t_max_attempts t" using le by linarith
qed

text \<open>Which errors a computation cannot end in.\<close>

definition tx_avoids :: "error \<Rightarrow> 'a tx \<Rightarrow> bool" where
  "tx_avoids e m \<longleftrightarrow> (\<forall>db. m db \<noteq> Inl e)"

named_theorems avoids_rules \<open>how \<open>tx_avoids\<close> follows the composition of operations\<close>

lemma avoids_basic [avoids_rules]:
  "tx_avoids e (tx_return x)" "tx_avoids e (tx_read f)" "e' \<noteq> e \<Longrightarrow> tx_avoids e (tx_fail e')"
  "e \<noteq> ErrNotFound \<Longrightarrow> tx_avoids e (tx_row g)"
  by (auto simp: tx_avoids_def tx_defs split: option.splits)

lemma avoids_bind [avoids_rules]: "tx_avoids e m \<Longrightarrow> (\<And>x. tx_avoids e (k x)) \<Longrightarrow> tx_avoids e (tx_bind m k)"
  by (auto simp: tx_avoids_def tx_bind_def split: sum.splits prod.splits)

lemma avoids_if [avoids_rules]: "tx_avoids e m \<Longrightarrow> tx_avoids e n \<Longrightarrow> tx_avoids e (if b then m else n)"
  by simp

lemma avoids_option [avoids_rules]:
  "tx_avoids e m \<Longrightarrow> (\<And>y. tx_avoids e (k y)) \<Longrightarrow> tx_avoids e (case x of None \<Rightarrow> m | Some y \<Rightarrow> k y)"
  by (cases x) auto

lemma avoids_concurrent [avoids_rules]:
  "tx_avoids ErrConcurrentAttempt (update_runs c f)" "tx_avoids ErrConcurrentAttempt (update_tasks d g)"
  "tx_avoids ErrConcurrentAttempt (insert_event v)"
  by (auto simp: tx_avoids_def update_runs_def update_tasks_def insert_event_def Let_def)

lemma avoids_append [avoids_rules]: "tx_avoids ErrConcurrentAttempt (append now rid p m)"
  unfolding append_def Append_def Let_def by (intro avoids_rules; simp)

lemma start_never_concurrent:
  assumes db: "reachable env db" and copy: "copy_of_task task db"
  shows "fst (StartTask w task handler now db) \<noteq> Inl ErrConcurrentAttempt"
proof
  let ?c = "\<lambda>t. held_by w task t \<and> t_status t = TaskLeased"
  let ?a = "\<lparr>ta_task_id = t_id task, ta_attempt = t_attempt task, ta_worker_id = w, ta_started_at = now\<rparr>"
  let ?rest = "\<lambda>_. tx_bind (append now (t_run_id task) (TaskStartedPayload (t_attempt task) handler)
                  (at_task (t_name task) (Some w) now)) (\<lambda>_. markRunStarted (t_run_id task) now)"
  assume "fst (StartTask w task handler now db) = Inl ErrConcurrentAttempt"
  then have m: "start_tx w task handler now db = Inl ErrConcurrentAttempt"
    by (auto simp: StartTask_def InTx_def split: sum.splits)
  have s: "started_ok db" by (rule starts.holds [OF db])
  have a0: "tx_avoids ErrConcurrentAttempt (update_tasks ?c (start now))" by (rule avoids_rules)
  have a1: "tx_avoids ErrConcurrentAttempt (?rest u)" for u :: unit
    unfolding markRunStarted_def by (intro avoids_rules)
  from m a0 obtain k db1 where u: "update_tasks ?c (start now) db = Inr (k, db1)" and k: "k \<noteq> 0"
    and r: "tx_bind (record_attempt ?a) ?rest db1 = Inl ErrConcurrentAttempt"
    by (auto simp: start_tx_def tx_bind_def tx_avoids_def tx_fail_def split: sum.splits prod.splits if_splits)
  from r a1 have conflict: "record_attempt ?a db1 = Inl ErrConcurrentAttempt"
    by (auto simp: tx_bind_def tx_avoids_def split: sum.splits prod.splits)
  then obtain q where q: "q \<in> set (task_attempts db1)" "ta_task_id q = t_id task" "ta_attempt q = t_attempt task"
    by (auto simp: record_attempt_def insert_attempt_def split: if_splits sum.splits)
  obtain t where t: "t \<in> set (tasks db)" "t_id t = t_id task" "t_attempt t = t_attempt task" "t_status t = TaskLeased"
    by (rule start_row [OF _ copy u k]) (use s in \<open>auto simp: started_ok_def\<close>)
  have "q \<in> set (task_attempts db)" using q(1) u by (simp add: update_tasks_Inr)
  then have "attempt_known q t" using s t(1,2) q(2) by (auto simp: started_ok_def)
  then show False using t q by (simp add: attempt_known_def)
qed

section \<open>A worker that lost its lease\<close>

lemma update_tasks_none:
  assumes "\<And>t. t \<in> set (tasks db) \<Longrightarrow> \<not> c t"
  shows "update_tasks c f db = Inr (0, db)"
proof -
  have none: "filter c (tasks db) = []" using assms by (simp add: filter_empty_conv)
  moreover have "sql_count c (tasks db) = 0" using assms by simp
  ultimately show ?thesis using sql_update_none [of "tasks db" c f] assms by (simp add: update_tasks_def Let_def)
qed

lemma definition_found:
  assumes "reachable env db" and "copy_of_task task db"
  obtains d where "definitionForRun env (t_run_id task) db = Inr (d, db)"
proof -
  have ok: "runs_ok env db" by (rule schedule.holds [OF assms(1)])
  obtain t where t: "task_by_name (t_run_id task) (t_name task) db = Some t" by (rule copy_row [OF runs_ok_tables [OF ok] assms(2)])
  obtain w s where h: "heads db (t_run_id task) = Some (w, s)" by (rule named_head [OF runs_ok_tables [OF ok] t])
  obtain d where "Definition env w db = Inr d" by (rule runs_okD [OF ok h])
  then show thesis using that h by (auto simp: definitionForRun_Inr)
qed

lemma stale_completion_refused:
  assumes db: "reachable env db" and copy: "copy_of_task task db"
    and lost: "\<And>t. t \<in> set (tasks db) \<Longrightarrow> t_id t = t_id task \<Longrightarrow> t_worker_id t = Some w \<Longrightarrow> t_attempt t = t_attempt task
      \<Longrightarrow> \<not> Holds (t_status t)"
  shows "CompleteTask env w task out now db = (Inl ErrLeaseLost, db)"
proof -
  obtain d where d: "definitionForRun env (t_run_id task) db = Inr (d, db)" by (rule definition_found [OF db copy])
  have "update_tasks (\<lambda>t. held_by w task t \<and> t_status t = TaskRunning) f db = Inr (0, db)"
    "update_tasks (\<lambda>t. held_by w task t \<and> (t_status t = TaskRunning \<or> t_status t = TaskLeased)) f db = Inr (0, db)" for f
    using lost by (auto intro!: update_tasks_none simp: held_by_def Holds_def)
  then show ?thesis
    by (auto simp: CompleteTask_def InTx_def complete_tx_def tx_bind_def d recordSuccess_def recordFailure_def Let_def tx_fail_def
        split: option.splits)
qed

end
