(* ===== verification/Relab_Worker.thy ===== *)
theory Relab_Worker
  imports Relab_Executor Relab_Starts
begin

text \<open>
  The processes that drive the engine: the in-process runner of \<^verbatim>\<open>internal/engine/local.go\<close>,
  the coordinator's sweep loop (\<^verbatim>\<open>coordinator.go\<close>) and the pool worker of
  \<^verbatim>\<open>internal/worker/worker.go\<close> with its bookkeeping of slots and held tasks.  The loops have
  no bound of their own: they take fuel, and nothing is claimed of a run that spends it.
\<close>

section \<open>The in-process runner\<close>

datatype local_error = Interrupted | LocalStore error | StalledRun | ProcessKilled

text \<open>A query or transaction of the runner that the others precede.\<close>

definition read_db :: "(db \<Rightarrow> 'a) \<Rightarrow> world \<Rightarrow> 'a \<times> world" where
  "read_db f w = (f (w_db (pass w)), pass w)"

definition locked_now :: "world \<Rightarrow> task_row \<Rightarrow> bool" where
  "locked_now w = tn_locked (w_turn w (w_at w))"

fun execute_all :: "executor \<Rightarrow> claimed_task list \<Rightarrow> world \<Rightarrow> local_error option \<times> world" where
  "execute_all x [] w = (None, w)"
| "execute_all x (c # cs) w =
     (case Execute x c w of
        (Returns, w') \<Rightarrow> execute_all x cs w'
      | (Killed, w') \<Rightarrow> (Some ProcessKilled, w')
      | (Fails e, w') \<Rightarrow> if e = ErrLeaseLost then execute_all x cs w' else (Some (LocalStore e), w'))"

text \<open>One pass of the loop: a result when the loop leaves, nothing when it goes round.\<close>

definition local_idle :: "uuid \<Rightarrow> world \<Rightarrow> local_error option \<times> world" where
  "local_idle rid w =
     (case on_db (\<lambda>now db. (RunProgress rid now db, db)) w of
        (progress, w1) \<Rightarrow>
          if Stalled progress then (Some StalledRun, w1)
          else if tn_ctx (w_turn w1 (w_at w1)) \<noteq> None then (Some Interrupted, w1)
          else (None, w1))"

definition local_pass :: "executor \<Rightarrow> uuid \<Rightarrow> world \<Rightarrow> (local_error + run) option \<times> world" where
  "local_pass x rid w =
     (if tn_ctx (w_turn w (w_at w)) \<noteq> None then (Some (Inl Interrupted), w)
      else case read_db (RunByID rid) w of
        (Inl e, w1) \<Rightarrow> (Some (Inl (LocalStore e)), w1)
      | (Inr run, w1) \<Rightarrow>
          if RunStatus_Terminal (run_Status run) then (Some (Inr run), w1)
          else (case on_db (\<lambda>now. PromoteDueRetries (locked_now w1) now 100) w1 of
            (Inl e, w2) \<Rightarrow> (Some (Inl (LocalStore e)), w2)
          | (Inr _, w2) \<Rightarrow>
             (case on_db (\<lambda>now. ClaimTasksForRun (ex_env x) (locked_now w2) now (ex_worker x) rid 1) w2 of
                (Inl e, w3) \<Rightarrow> (Some (Inl (LocalStore e)), w3)
              | (Inr claimed, w3) \<Rightarrow>
                  (case (if claimed = [] then local_idle rid w3 else execute_all x claimed w3) of
                     (None, w4) \<Rightarrow> (None, w4)
                   | (Some e, w4) \<Rightarrow> (Some (Inl e), w4)))))"

fun LocalRunner_Run :: "nat \<Rightarrow> executor \<Rightarrow> uuid \<Rightarrow> world \<Rightarrow> (local_error + run) option \<times> world" where
  "LocalRunner_Run 0 x rid w = (None, w)"
| "LocalRunner_Run (Suc n) x rid w =
     (case local_pass x rid w of
        (Some r, w') \<Rightarrow> (Some r, w')
      | (None, w') \<Rightarrow> LocalRunner_Run n x rid w')"

text \<open>\<open>DriveWithFaults\<close>: register an in-process worker, run with a fault source, retire it.\<close>

definition NewLocalRunner :: "executor \<Rightarrow> uuid \<Rightarrow> world \<Rightarrow> (error + executor) \<times> world" where
  "NewLocalRunner x wid w =
     (case on_db (\<lambda>now. RegisterWorker wid ''in-process'' ''local'' 1 now) w of
        (Inl e, w') \<Rightarrow> (Inl e, w')
      | (Inr worker, w') \<Rightarrow> (Inr (x\<lparr>ex_worker := wid\<rparr>), w'))"

definition LocalRunner_Close :: "executor \<Rightarrow> world \<Rightarrow> world" where
  "LocalRunner_Close x w = snd (on_db (\<lambda>now. RetireWorker (ex_env x) (ex_worker x) now) w)"

definition DriveWithFaults :: "nat \<Rightarrow> executor \<Rightarrow> uuid \<Rightarrow> uuid \<Rightarrow> scenario_lookup option \<Rightarrow> world \<Rightarrow> (local_error + run) option \<times> world" where
  "DriveWithFaults fuel x wid rid faults w =
     (case NewLocalRunner x wid w of
        (Inl e, w1) \<Rightarrow> (Some (Inl (LocalStore e)), w1)
      | (Inr y, w1) \<Rightarrow>
         (case LocalRunner_Run fuel (y\<lparr>ex_faults := Some faults\<rparr>) rid w1 of
            (Some (Inl ProcessKilled), w2) \<Rightarrow> (Some (Inl ProcessKilled), w2)
          | (r, w2) \<Rightarrow> (r, LocalRunner_Close y w2)))"

section \<open>The coordinator\<close>

text \<open>
  A sweep is the three transactions of \<open>Reap\<close> with the others before each; an error ends
  it.  The loop runs a sweep per tick until its context ends, and goes on after a failure.
\<close>

definition reap_turns :: "env \<Rightarrow> world \<Rightarrow> (reap_result \<times> error option) \<times> world" where
  "reap_turns env w =
     (case on_db (\<lambda>now. expireLeases env (locked_now w) now) w of
        (Inl e, w1) \<Rightarrow> ((no_reap, Some e), w1)
      | (Inr (ex, rq, dd), w1) \<Rightarrow>
          let res1 = no_reap\<lparr>LeasesExpired := ex, TasksRequeued := rq, TasksDead := dd\<rparr> in
          (case on_db (\<lambda>now. sweepWorkers env now) w1 of
             (Inl e, w2) \<Rightarrow> ((res1, Some e), w2)
           | (Inr (sus, lost), w2) \<Rightarrow>
               let res2 = res1\<lparr>WorkersSuspect := sus, WorkersLost := lost\<rparr> in
               (case on_db (\<lambda>now. PromoteDueRetries (locked_now w2) now 200) w2 of
                  (Inl e, w3) \<Rightarrow> ((res2, Some e), w3)
                | (Inr n, w3) \<Rightarrow> ((res2\<lparr>RetriesPromoted := n\<rparr>, None), w3))))"

fun Coordinator_Run :: "nat \<Rightarrow> env \<Rightarrow> world \<Rightarrow> bool \<times> world" where
  "Coordinator_Run 0 env w = (False, w)"
| "Coordinator_Run (Suc n) env w =
     (if tn_ctx (w_turn w (w_at w)) \<noteq> None then (True, w)
      else Coordinator_Run n env (snd (reap_turns env w)))"

section \<open>The pool worker\<close>

text \<open>
  Executions are goroutines: each has a number, its task, and whether it has been entered in
  the table of held tasks.  That table maps a task to the execution its cancel function
  stops.  \<open>pw_slots\<close> is the length of the semaphore channel.
\<close>

record pool_worker =
  pw_id :: uuid
  pw_concurrency :: int
  pw_slots :: int
  pw_running :: "(nat \<times> claimed_task \<times> bool) list"
  pw_held :: "(uuid \<times> nat) list"
  pw_cancelled :: "nat list"
  pw_next :: nat
  pw_beating :: bool

definition NewWorker :: "int \<Rightarrow> uuid \<Rightarrow> string \<Rightarrow> string \<Rightarrow> time \<Rightarrow> db \<Rightarrow> (error + pool_worker) \<times> db" where
  "NewWorker concurrency0 wid hostname version0 now db =
     (let concurrency = (if concurrency0 \<le> 0 then 4 else concurrency0);
          version = (if version0 = [] then ''dev'' else version0)
      in case RegisterWorker wid hostname version concurrency now db of
           (Inl e, db') \<Rightarrow> (Inl e, db')
         | (Inr i, db') \<Rightarrow>
             (Inr \<lparr>pw_id = i, pw_concurrency = concurrency, pw_slots = 0, pw_running = [], pw_held = [],
                   pw_cancelled = [], pw_next = 0, pw_beating = True\<rparr>, db'))"

definition track :: "uuid \<Rightarrow> nat \<Rightarrow> pool_worker \<Rightarrow> pool_worker" where
  "track tid n pw = pw\<lparr>pw_held := AList.update tid n (pw_held pw)\<rparr>"

definition untrack :: "uuid \<Rightarrow> pool_worker \<Rightarrow> pool_worker" where
  "untrack tid pw = pw\<lparr>pw_held := AList.delete tid (pw_held pw)\<rparr>"

definition cancelTask :: "uuid \<Rightarrow> pool_worker \<Rightarrow> pool_worker" where
  "cancelTask tid pw =
     (case map_of (pw_held pw) tid of None \<Rightarrow> pw | Some n \<Rightarrow> pw\<lparr>pw_cancelled := n # pw_cancelled pw\<rparr>)"

definition heldCount :: "pool_worker \<Rightarrow> int" where
  "heldCount pw = int (length (pw_held pw))"

definition heldIDs :: "pool_worker \<Rightarrow> uuid list" where
  "heldIDs pw = map fst (pw_held pw)"

definition spawn :: "claimed_task \<Rightarrow> pool_worker \<Rightarrow> pool_worker" where
  "spawn c pw = pw\<lparr>pw_slots := pw_slots pw + 1, pw_running := pw_running pw @ [(pw_next pw, c, False)],
                   pw_next := Suc (pw_next pw)\<rparr>"

definition claim_round :: "env \<Rightarrow> (task_row \<Rightarrow> bool) \<Rightarrow> time \<Rightarrow> pool_worker \<Rightarrow> db \<Rightarrow> pool_worker \<times> db" where
  "claim_round env locked now pw db =
     (let free = pw_concurrency pw - pw_slots pw in
      if free \<le> 0 then (pw, db)
      else case ClaimTasks env locked now (pw_id pw) free db of
             (Inl e, db') \<Rightarrow> (pw, db')
           | (Inr claimed, db') \<Rightarrow> (fold spawn claimed pw, db'))"

definition begin_execution :: "nat \<Rightarrow> pool_worker \<Rightarrow> pool_worker" where
  "begin_execution n pw =
     (case map_of (pw_running pw) n of
        Some (c, False) \<Rightarrow>
          track (t_id (ct_Task c)) n
            (pw\<lparr>pw_running := map (\<lambda>r. if fst r = n then (n, c, True) else r) (pw_running pw)\<rparr>)
      | _ \<Rightarrow> pw)"

definition end_execution :: "nat \<Rightarrow> pool_worker \<Rightarrow> pool_worker" where
  "end_execution n pw =
     (case map_of (pw_running pw) n of
        Some (c, True) \<Rightarrow>
          (untrack (t_id (ct_Task c)) pw)
            \<lparr>pw_running := filter (\<lambda>r. fst r \<noteq> n) (pw_running pw), pw_slots := pw_slots pw - 1\<rparr>
      | _ \<Rightarrow> pw)"

definition renew_round :: "env \<Rightarrow> time \<Rightarrow> pool_worker \<Rightarrow> db \<Rightarrow> pool_worker \<times> db" where
  "renew_round env now pw db =
     (let ids = heldIDs pw in
      if ids = [] then (pw, db)
      else case RenewLease env (pw_id pw) ids now db of
             (Inl e, db') \<Rightarrow> (pw, db')
           | (Inr renewed, db') \<Rightarrow>
               if length renewed = length ids then (pw, db')
               else (fold cancelTask (filter (\<lambda>i. i \<notin> set renewed) ids) pw, db'))"

definition heartbeat_round :: "time \<Rightarrow> pool_worker \<Rightarrow> db \<Rightarrow> pool_worker \<times> db" where
  "heartbeat_round now pw db =
     (if \<not> pw_beating pw then (pw, db)
      else case Heartbeat (pw_id pw) (heldCount pw) now db of
             (Inl e, db') \<Rightarrow> (if e = ErrWorkerLost then pw\<lparr>pw_beating := False\<rparr> else pw, db')
           | (Inr _, db') \<Rightarrow> (pw, db'))"

text \<open>
  The worker's goroutines interleave with each other and with everything else that happens
  to the database, the bodies of its executions included.
\<close>

inductive worker_step :: "env \<Rightarrow> pool_worker \<times> db \<Rightarrow> pool_worker \<times> db \<Rightarrow> bool" for env where
  claims: "worker_step env (pw, db) (claim_round env locked now pw db)"
| begins: "worker_step env (pw, db) (begin_execution n pw, db)"
| ends: "worker_step env (pw, db) (end_execution n pw, db)"
| renews: "worker_step env (pw, db) (renew_round env now pw db)"
| beats: "worker_step env (pw, db) (heartbeat_round now pw db)"
| elsewhere: "sys_step env db db' \<Longrightarrow> worker_step env (pw, db) (pw, db')"

section \<open>What a claim hands out\<close>

lemma tx_map_results:
  assumes "tx_map f xs db = Inr (ys, db')" and "\<And>x db y db'. f x db = Inr (y, db') \<Longrightarrow> g y = x"
  shows "map g ys = xs"
  using assms(1)
proof (induction xs arbitrary: ys db)
  case (Cons x xs)
  then obtain y db1 zs where "f x db = Inr (y, db1)" "tx_map f xs db1 = Inr (zs, db')" "ys = y # zs"
    by (auto simp: tx_bind_Inr)
  then show ?case using Cons.IH assms(2) by auto
qed simp

lemma claim_one_task: "claim_one env w u now task db = Inr (c, db') \<Longrightarrow> ct_Task c = task"
  by (auto simp: claim_one_def hydrate_def tx_bind_Inr tx_lift_def split: option.splits sum.splits)

text \<open>The tasks a claim returns are copies of rows, and no more of them than it asked for.\<close>

lemma claim_results:
  assumes ok: "tables_ok db" and c: "claim env locked now w ro limit db = (Inr cs, db')"
  shows "length cs \<le> nat limit \<and> (\<forall>c\<in>set cs. copy_of_task (ct_Task c) db')"
proof (cases "limit \<le> 0")
  case True
  with c show ?thesis by (simp add: claim_def)
next
  case False
  let ?u = "now + LeaseDuration (env_timing env)" and ?ids = "runnable locked now limit ro db"
  from c False obtain ts db1 where u: "update_tasks_returning (\<lambda>t. t_id t \<in> set ?ids) (lease w ?u now) db = Inr (ts, db1)"
    and m: "tx_map (claim_one env w ?u now) ts db1 = Inr (cs, db')"
    by (auto simp: claim_def InTx_def claim_tx_def Let_def tx_bind_Inr split: sum.splits prod.splits)
  have ts: "ts = map (lease w ?u now) (filter (\<lambda>t. t_id t \<in> set ?ids) (tasks db))"
    and db1: "db1 = db\<lparr>tasks := sql_update (\<lambda>t. t_id t \<in> set ?ids) (lease w ?u now) (tasks db)\<rparr>"
    using u by (auto simp: update_tasks_returning_def tx_bind_Inr update_tasks_Inr)
  have cs: "map ct_Task cs = ts" by (rule tx_map_results [OF m]) (rule claim_one_task)
  let ?F = "filter (\<lambda>t. t_id t \<in> set ?ids) (tasks db)"
  have d: "distinct (map t_id ?F)" using ok by (simp add: tables_ok_def distinct_map_filter)
  have "length ?F = card (set (map t_id ?F))" using distinct_card [OF d] by simp
  also have "\<dots> \<le> card (set ?ids)" by (rule card_mono) auto
  also have "\<dots> \<le> nat limit" by (rule le_trans [OF card_length]) (simp add: runnable_def)
  finally have len: "length cs \<le> nat limit" using cs ts by (metis length_map)
  have k: "tx_keeps (copy_of_task q) (tx_map (claim_one env w ?u now) ts)" for q
    unfolding claim_one_def hydrate_def by (intro keeps_rules copy_keeps)
  have "copy_of_task (ct_Task c) db'" if "c \<in> set cs" for c
  proof -
    from that cs have "ct_Task c \<in> set ts" by (metis imageI set_map)
    then have "ct_Task c \<in> set (tasks db1)" by (force simp: ts db1 in_sql_update)
    then have "copy_of_task (ct_Task c) db1" unfolding copy_of_task_def by blast
    then show ?thesis by (rule tx_keepsD [OF k _ m])
  qed
  with len show ?thesis by blast
qed

section \<open>The runner only takes steps of the system\<close>

definition ran :: "env \<Rightarrow> world \<Rightarrow> world \<Rightarrow> bool" where
  "ran env w w' \<longleftrightarrow> w_turn w' = w_turn w
     \<and> (others_ok env (w_turn w) \<longrightarrow> reachable env (w_db w) \<longrightarrow> (sys_step env)\<^sup>*\<^sup>* (w_db w) (w_db w'))"

lemma ran_trans: "ran env w w' \<Longrightarrow> ran env w' w'' \<Longrightarrow> ran env w w''"
  unfolding ran_def by (metis reachable_steps rtranclp_trans)

lemma ran_refl [simp]: "ran env w w"
  by (simp add: ran_def)

lemma ran_pass: "ran env w (pass w)"
  by (simp add: ran_def pass_def others_ok_def)

lemma ran_on_db:
  assumes "on_db f w = (x, w')" and "\<And>now db. sys_step env db (snd (f now db)) \<or> snd (f now db) = db"
  shows "ran env w w'"
proof -
  let ?db = "w_db (pass w)" and ?now = "tn_now (w_turn w (w_at w))"
  have "w' = (pass w)\<lparr>w_db := snd (f ?now ?db)\<rparr>" using assms(1) by (auto simp: on_db_def split: prod.splits)
  then have "ran env (pass w) w'" using assms(2) [where now = ?now and db = ?db] by (auto simp: ran_def)
  with ran_pass show ?thesis by (rule ran_trans)
qed

lemma ran_Execute:
  assumes "Execute x c w = (r, w')" and "copy_of_task (ct_Task c) (w_db w)"
  shows "ran (ex_env x) w w'"
  using moved_Execute [OF assms(1)] assms(2) by (simp add: moved_def ran_def)

lemma ran_execute_all:
  assumes "execute_all x cs w = (e, w')" and "\<And>c. c \<in> set cs \<Longrightarrow> copy_of_task (ct_Task c) (w_db w)"
    and "others_ok (ex_env x) (w_turn w)" and "reachable (ex_env x) (w_db w)"
  shows "ran (ex_env x) w w' \<and> e \<noteq> Some StalledRun"
  using assms
proof (induction cs arbitrary: w)
  case (Cons c cs)
  obtain r w1 where ex: "Execute x c w = (r, w1)" by (metis prod.exhaust)
  have one: "ran (ex_env x) w w1" using ran_Execute [OF ex] Cons.prems(2) by simp
  then have w1: "others_ok (ex_env x) (w_turn w1)" "reachable (ex_env x) (w_db w1)" "\<And>d. d \<in> set cs \<Longrightarrow> copy_of_task (ct_Task d) (w_db w1)"
    using Cons.prems copy_steps reachable_steps by (auto simp: ran_def)
  have next_tasks: "ran (ex_env x) w1 w' \<and> e \<noteq> Some StalledRun" if "execute_all x cs w1 = (e, w')"
    using Cons.IH [OF that w1(3,1,2)] by blast
  show ?case
    using Cons.prems(1) ex one next_tasks
    by (cases r) (auto intro: ran_trans split: if_splits)
qed simp

lemma ran_promote: "on_db (\<lambda>now. PromoteDueRetries (l now) now n) w = (r, w') \<Longrightarrow> ran env w w'"
  by (erule ran_on_db) (simp add: sys_step.promote)

lemma ran_claim: "on_db (\<lambda>now. claim env (l now) now v ro n) w = (r, w') \<Longrightarrow> ran env w w'"
  by (erule ran_on_db) (simp add: sys_step.claim)

lemma ran_read: "read_db f w = (r, w') \<Longrightarrow> ran env w w'"
  by (auto simp: read_db_def ran_pass)

lemma on_db_tables:
  assumes "ran env w w'" and "others_ok env (w_turn w)" and "reachable env (w_db w)"
  shows "reachable env (w_db w')" "others_ok env (w_turn w')"
  using assms by (auto simp: ran_def intro: reachable_steps)

lemma local_idle_steps:
  assumes "local_idle rid w = (e, w')" and "others_ok env (w_turn w)" and "reachable env (w_db w)"
  shows "ran env w w' \<and> e \<noteq> Some StalledRun"
proof -
  let ?now = "tn_now (w_turn w (w_at w))"
  have p: "on_db (\<lambda>now db. (RunProgress rid now db, db)) w = (RunProgress rid ?now (w_db (pass w)), pass w)"
    by (simp add: on_db_def)
  have "reachable env (w_db (pass w))" using on_db_tables [OF ran_pass assms(2,3)] by simp
  then have "\<not> Stalled (RunProgress rid ?now (w_db (pass w)))" by (rule progress_never_stalls)
  then show ?thesis using assms(1) by (auto simp: local_idle_def p ran_pass split: if_splits)
qed

text \<open>
  Each pass of the runner takes steps of the system, never reports a stall, and leaves with
  a run only when the run has ended.
\<close>

lemma local_pass_steps:
  assumes l: "local_pass x rid w = (r, w')" and o: "others_ok (ex_env x) (w_turn w)" and db: "reachable (ex_env x) (w_db w)"
  shows "ran (ex_env x) w w' \<and> r \<noteq> Some (Inl StalledRun)
    \<and> (\<forall>run. r = Some (Inr run) \<longrightarrow> RunStatus_Terminal (run_Status run))"
proof -
  let ?E = "ex_env x"
  obtain r1 w1 where t1: "read_db (RunByID rid) w = (r1, w1)" by (metis prod.exhaust)
  obtain r2 w2 where t2: "on_db (\<lambda>now. PromoteDueRetries (locked_now w1) now 100) w1 = (r2, w2)" by (metis prod.exhaust)
  obtain r3 w3 where t3: "on_db (\<lambda>now. claim ?E (locked_now w2) now (ex_worker x) (Some rid) 1) w2 = (r3, w3)" by (metis prod.exhaust)
  have m1: "ran ?E w w1" by (rule ran_read [OF t1])
  have m2: "ran ?E w w2" using ran_trans [OF m1 ran_promote [OF t2]] .
  have m3: "ran ?E w w3" using ran_trans [OF m2 ran_claim [OF t3]] .
  note w2 = on_db_tables [OF m2 o db] and w3 = on_db_tables [OF m3 o db]
  have copies: "copy_of_task (ct_Task c) (w_db w3)" if r3: "r3 = Inr cs" and c: "c \<in> set cs" for cs c
  proof -
    have "reachable ?E (w_db (pass w2))" using on_db_tables [OF ran_pass w2(2,1)] by simp
    then have "tables_ok (w_db (pass w2))" by (rule tables.holds)
    moreover obtain db3 where "claim ?E (locked_now w2) (tn_now (w_turn w2 (w_at w2))) (ex_worker x) (Some rid) 1 (w_db (pass w2)) = (Inr cs, db3)"
      and "w_db w3 = db3" using t3 r3 by (auto simp: on_db_def split: prod.splits)
    ultimately show ?thesis using claim_results c by blast
  qed
  obtain r4 w4 where t4: "(case r3 of Inr cs \<Rightarrow> if cs = [] then local_idle rid w3 else execute_all x cs w3 | Inl _ \<Rightarrow> (None, w3)) = (r4, w4)"
    by (rule prod.exhaust)
  have m4: "ran ?E w3 w4 \<and> r4 \<noteq> Some StalledRun"
  proof (cases r3)
    case (Inr cs)
    with t4 local_idle_steps [OF _ w3(2,1)] ran_execute_all [OF _ copies [OF Inr] w3(2,1)] show ?thesis
      by (auto split: if_splits)
  qed (use t4 in auto)
  have "w' = w \<or> w' = w1 \<or> w' = w2 \<or> w' = w3 \<or> w' = w4"
    and "r \<noteq> Some (Inl StalledRun)" and "\<forall>run. r = Some (Inr run) \<longrightarrow> RunStatus_Terminal (run_Status run)"
    using l t1 t2 t3 t4 m4
    by (auto simp: local_pass_def ClaimTasksForRun_def split: if_splits sum.splits option.splits prod.splits)
  then show ?thesis using m1 m2 m3 m4 ran_trans [OF m3] ran_refl by metis
qed

lemma LocalRunner_steps:
  assumes "LocalRunner_Run n x rid w = (r, w')" and "others_ok (ex_env x) (w_turn w)" and "reachable (ex_env x) (w_db w)"
  shows "ran (ex_env x) w w' \<and> r \<noteq> Some (Inl StalledRun)
    \<and> (\<forall>run. r = Some (Inr run) \<longrightarrow> RunStatus_Terminal (run_Status run))"
  using assms
proof (induction n arbitrary: w)
  case (Suc n)
  obtain r1 w1 where p: "local_pass x rid w = (r1, w1)" by (metis prod.exhaust)
  note one = local_pass_steps [OF p Suc.prems(2,3)]
  show ?case
  proof (cases r1)
    case None
    with Suc.prems p have "LocalRunner_Run n x rid w1 = (r, w')" by simp
    from Suc.IH [OF this] on_db_tables [OF _ Suc.prems(2,3)] one show ?thesis by (blast intro: ran_trans)
  next
    case (Some a)
    with Suc.prems p one show ?thesis by auto
  qed
qed simp

lemma ran_reap: "reap_turns env w = (r, w') \<Longrightarrow> ran env w w'"
proof -
  assume r: "reap_turns env w = (r, w')"
  obtain r1 w1 where t1: "on_db (\<lambda>now. expireLeases env (locked_now w) now) w = (r1, w1)" by (metis prod.exhaust)
  obtain r2 w2 where t2: "on_db (\<lambda>now. sweepWorkers env now) w1 = (r2, w2)" by (metis prod.exhaust)
  obtain r3 w3 where t3: "on_db (\<lambda>now. PromoteDueRetries (locked_now w2) now 200) w2 = (r3, w3)" by (metis prod.exhaust)
  have m: "ran env w w1" "ran env w1 w2" "ran env w2 w3"
    using t1 t2 ran_promote [OF t3] by (auto elim!: ran_on_db intro: sys_step.expire sys_step.sweep)
  have "w' = w1 \<or> w' = w2 \<or> w' = w3"
    using r t1 t2 t3 by (auto simp: reap_turns_def Let_def split: sum.splits prod.splits)
  then show ?thesis using m by (metis ran_trans)
qed

lemma Coordinator_steps: "Coordinator_Run n env w = (b, w') \<Longrightarrow> ran env w w'"
proof (induction n arbitrary: w)
  case (Suc n)
  show ?case
  proof (cases "tn_ctx (w_turn w (w_at w)) = None")
    case True
    with Suc.prems have "Coordinator_Run n env (snd (reap_turns env w)) = (b, w')" by simp
    with Suc.IH ran_reap [of env w] show ?thesis by (metis ran_trans prod.collapse)
  qed (use Suc.prems in auto)
qed simp

section \<open>The bookkeeping of a worker\<close>

definition worker_ok :: "pool_worker \<Rightarrow> bool" where
  "worker_ok pw \<longleftrightarrow>
     pw_slots pw = int (length (pw_running pw)) \<and> pw_slots pw \<le> pw_concurrency pw
     \<and> distinct (map fst (pw_running pw)) \<and> (\<forall>n\<in>set (map fst (pw_running pw)). n < pw_next pw)
     \<and> distinct (map fst (pw_held pw))
     \<and> (\<forall>(tid, n)\<in>set (pw_held pw). \<exists>c. (n, c, True) \<in> set (pw_running pw) \<and> t_id (ct_Task c) = tid)"

lemma spawn_ok:
  "worker_ok pw \<Longrightarrow> pw_slots pw < pw_concurrency pw \<Longrightarrow> worker_ok (spawn c pw)"
  by (fastforce simp: worker_ok_def spawn_def)

lemma fold_spawn_ok:
  "worker_ok pw \<Longrightarrow> pw_slots pw + int (length cs) \<le> pw_concurrency pw \<Longrightarrow> worker_ok (fold spawn cs pw)"
proof (induction cs arbitrary: pw)
  case (Cons c cs)
  then have "worker_ok (spawn c pw)" by (intro spawn_ok) auto
  moreover have "pw_slots (spawn c pw) + int (length cs) \<le> pw_concurrency (spawn c pw)"
    using Cons.prems by (simp add: spawn_def)
  ultimately show ?case using Cons.IH by simp
qed simp

lemma running_unique: "worker_ok pw \<Longrightarrow> (n, c, b) \<in> set (pw_running pw) \<longleftrightarrow> map_of (pw_running pw) n = Some (c, b)"
  by (auto simp: worker_ok_def dest: map_of_SomeD intro: map_of_is_SomeI)

lemma in_update: "p \<in> set (AList.update k v al) \<Longrightarrow> p = (k, v) \<or> p \<in> set al"
  by (induction al) (auto split: if_splits)

lemma begin_ok: "worker_ok pw \<Longrightarrow> worker_ok (begin_execution n pw)"
proof -
  assume ok: "worker_ok pw"
  show ?thesis
  proof (cases "\<exists>c. map_of (pw_running pw) n = Some (c, False)")
    case True
    then obtain c where c: "map_of (pw_running pw) n = Some (c, False)" by blast
    let ?run = "map (\<lambda>r. if fst r = n then (n, c, True) else r) (pw_running pw)"
    have fsts: "map fst ?run = map fst (pw_running pw)" by (auto simp: comp_def)
    have new: "(n, c, True) \<in> set ?run" using map_of_SomeD [OF c] by force
    have old: "(m, d, True) \<in> set ?run" if "(m, d, True) \<in> set (pw_running pw)" for m d
      using that c running_unique [OF ok, of m d True] by (cases "m = n") force+
    have held: "\<exists>d. (m, d, True) \<in> set ?run \<and> t_id (ct_Task d) = tid"
      if "(tid, m) \<in> set (AList.update (t_id (ct_Task c)) n (pw_held pw))" for tid m
    proof -
      have "(tid, m) = (t_id (ct_Task c), n) \<or> (tid, m) \<in> set (pw_held pw)"
        using in_update [OF that] .
      then show ?thesis using ok new old unfolding worker_ok_def by blast
    qed
    have len: "length ?run = length (pw_running pw)" by simp
    have "worker_ok (track (t_id (ct_Task c)) n (pw\<lparr>pw_running := ?run\<rparr>))"
      unfolding worker_ok_def track_def using ok held fsts
      by (simp add: worker_ok_def AList.distinct_update del: map_map) blast
    then show ?thesis using c by (simp add: begin_execution_def)
  next
    case False
    then show ?thesis using ok by (auto simp: begin_execution_def split: option.splits bool.splits)
  qed
qed

lemma length_without:
  "distinct (map fst xs) \<Longrightarrow> (n, v) \<in> set xs \<Longrightarrow> length (filter (\<lambda>r. fst r \<noteq> n) xs) = length xs - 1"
proof (induction xs)
  case (Cons x xs)
  show ?case
  proof (cases "fst x = n")
    case True
    then have "filter (\<lambda>r. fst r \<noteq> n) xs = xs" using Cons.prems(1) by (auto simp: filter_id_conv image_iff)
    then show ?thesis using True by simp
  next
    case False
    then have "(n, v) \<in> set xs" using Cons.prems(2) by auto
    then show ?thesis using False Cons by (cases xs) auto
  qed
qed simp

lemma end_ok: "worker_ok pw \<Longrightarrow> worker_ok (end_execution n pw)"
proof -
  assume ok: "worker_ok pw"
  show ?thesis
  proof (cases "\<exists>c. map_of (pw_running pw) n = Some (c, True)")
    case True
    then obtain c where c: "map_of (pw_running pw) n = Some (c, True)" by blast
    let ?run = "filter (\<lambda>r. fst r \<noteq> n) (pw_running pw)" and ?id = "t_id (ct_Task c)"
    have dist: "distinct (map fst (pw_running pw))" using ok by (simp add: worker_ok_def)
    have len: "length ?run = length (pw_running pw) - 1" by (rule length_without [OF dist map_of_SomeD [OF c]])
    have pos: "0 < length (pw_running pw)" using map_of_SomeD [OF c] by (auto simp: length_pos_if_in_set)
    have "pw_slots pw = int (length (pw_running pw))" using ok by (simp add: worker_ok_def)
    then have sl: "pw_slots pw - 1 = int (length ?run)" using len pos by arith
    have held: "\<exists>d. (m, d, True) \<in> set ?run \<and> t_id (ct_Task d) = tid" if "(tid, m) \<in> set (AList.delete ?id (pw_held pw))" for tid m
    proof -
      have "(tid, m) \<in> set (pw_held pw)" "tid \<noteq> ?id" using that by (auto simp: AList.delete_eq)
      then obtain d where d: "(m, d, True) \<in> set (pw_running pw)" "t_id (ct_Task d) = tid"
        using ok unfolding worker_ok_def by blast
      then have "m \<noteq> n" using c running_unique [OF ok, of m d True] \<open>tid \<noteq> ?id\<close> by auto
      with d show ?thesis by auto
    qed
    have "distinct (map fst (AList.delete ?id (pw_held pw)))"
      using ok by (simp add: worker_ok_def AList.distinct_delete)
    moreover have "distinct (map fst ?run)" using dist by (rule distinct_map_filter)
    ultimately have "worker_ok ((untrack ?id pw)\<lparr>pw_running := ?run, pw_slots := pw_slots pw - 1\<rparr>)"
      unfolding worker_ok_def untrack_def using ok held sl by (auto simp: worker_ok_def)
    then show ?thesis using c by (simp add: end_execution_def)
  next
    case False
    then show ?thesis using ok by (auto simp: end_execution_def split: option.splits bool.splits)
  qed
qed

lemma cancel_only: "\<exists>ns. fold cancelTask ids pw = pw\<lparr>pw_cancelled := ns\<rparr>"
proof (induction ids arbitrary: pw)
  case Nil
  show ?case by (rule exI [of _ "pw_cancelled pw"]) simp
next
  case (Cons i ids)
  from Cons.IH [of "cancelTask i pw"] show ?case
    by (auto simp: cancelTask_def split: option.splits)
qed

lemma worker_ok_fields: "worker_ok (pw\<lparr>pw_cancelled := ns\<rparr>) = worker_ok pw" "worker_ok (pw\<lparr>pw_beating := b\<rparr>) = worker_ok pw"
  by (simp_all add: worker_ok_def)

lemma renew_ok: "worker_ok pw \<Longrightarrow> worker_ok (fst (renew_round env now pw db))"
  using cancel_only worker_ok_fields(1)
  by (auto simp: renew_round_def Let_def split: sum.splits prod.splits) metis

lemma heartbeat_ok: "worker_ok pw \<Longrightarrow> worker_ok (fst (heartbeat_round now pw db))"
  by (auto simp: heartbeat_round_def worker_ok_fields split: sum.splits prod.splits)

lemma claim_round_ok: "tables_ok db \<Longrightarrow> worker_ok pw \<Longrightarrow> worker_ok (fst (claim_round env locked now pw db))"
proof -
  assume t: "tables_ok db" and ok: "worker_ok pw"
  let ?free = "pw_concurrency pw - pw_slots pw"
  obtain r db' where c: "claim env locked now (pw_id pw) None ?free db = (r, db')" by (metis prod.exhaust)
  show ?thesis
  proof (cases r)
    case (Inr cs)
    then have "length cs \<le> nat ?free" using claim_results [OF t c [unfolded Inr]] by blast
    then have "pw_slots pw + int (length cs) \<le> pw_concurrency pw \<or> ?free \<le> 0" by linarith
    then show ?thesis using c Inr ok fold_spawn_ok [OF ok] by (auto simp: claim_round_def ClaimTasks_def)
  qed (use c ok in \<open>auto simp: claim_round_def ClaimTasks_def\<close>)
qed

text \<open>What a worker reports as its load is what is in its slots.\<close>

lemma held_le_slots: "worker_ok pw \<Longrightarrow> heldCount pw \<le> pw_slots pw"
proof -
  assume ok: "worker_ok pw"
  have "inj_on snd (set (pw_held pw))"
  proof (rule inj_onI)
    fix p q
    assume p: "p \<in> set (pw_held pw)" and q: "q \<in> set (pw_held pw)" and eq: "snd p = snd q"
    from ok p obtain c where c: "(snd p, c, True) \<in> set (pw_running pw)" "t_id (ct_Task c) = fst p" unfolding worker_ok_def by fastforce
    from ok q obtain d where d: "(snd q, d, True) \<in> set (pw_running pw)" "t_id (ct_Task d) = fst q" unfolding worker_ok_def by fastforce
    from c d eq have "c = d" using running_unique [OF ok] by fastforce
    with c d eq show "p = q" by (simp add: prod_eq_iff)
  qed
  moreover have "distinct (pw_held pw)" using ok by (simp add: worker_ok_def distinct_map)
  ultimately have "length (pw_held pw) = card (snd ` set (pw_held pw))" by (simp add: card_image distinct_card)
  also have "\<dots> \<le> card (fst ` set (pw_running pw))"
  proof (intro card_mono subsetI)
    fix n
    assume "n \<in> snd ` set (pw_held pw)"
    then obtain tid where "(tid, n) \<in> set (pw_held pw)" by auto
    with ok obtain c where "(n, c, True) \<in> set (pw_running pw)" unfolding worker_ok_def by blast
    then show "n \<in> fst ` set (pw_running pw)" by force
  qed simp
  also have "\<dots> \<le> length (pw_running pw)" by (metis card_length length_map set_map)
  finally show ?thesis using ok by (simp add: heldCount_def worker_ok_def)
qed

text \<open>The bookkeeping holds through any interleaving of the worker's goroutines.\<close>

lemma worker_step_ok:
  assumes "worker_step env (pw, db) (pw', db')" and "reachable env db" and "worker_ok pw"
  shows "worker_ok pw' \<and> reachable env db'"
proof -
  have t: "tables_ok db" using assms(2) by (rule tables.holds)
  from assms(1) show ?thesis
  proof cases
    case (claims locked now)
    have "db' = db \<or> sys_step env db db'"
      using claims sys_step.claim [of env db locked now "pw_id pw" None "pw_concurrency pw - pw_slots pw"]
      by (auto simp: claim_round_def ClaimTasks_def split: if_splits sum.splits prod.splits)
    then show ?thesis using claims claim_round_ok [OF t assms(3)] assms(2) by (metis fst_conv reachable.step)
  next
    case (renews now)
    have "db' = db \<or> sys_step env db db'"
      using renews sys_step.renew [of env db "pw_id pw" "heldIDs pw" now]
      by (auto simp: renew_round_def Let_def split: if_splits sum.splits prod.splits)
    then show ?thesis using renews renew_ok [OF assms(3)] assms(2) by (metis fst_conv reachable.step)
  next
    case (beats now)
    have "db' = db \<or> sys_step env db db'"
      using beats sys_step.heartbeat [of env db "pw_id pw" "heldCount pw" now]
      by (auto simp: heartbeat_round_def split: if_splits sum.splits prod.splits)
    then show ?thesis using beats heartbeat_ok [OF assms(3)] assms(2) by (metis fst_conv reachable.step)
  qed (use assms begin_ok end_ok reachable.step in auto)
qed

lemma fold_spawn_concurrency: "pw_concurrency (fold spawn cs pw) = pw_concurrency pw"
  by (induction cs arbitrary: pw) (simp_all add: spawn_def)

lemma cancel_concurrency: "pw_concurrency (fold cancelTask ids pw) = pw_concurrency pw"
proof -
  obtain ns where "fold cancelTask ids pw = pw\<lparr>pw_cancelled := ns\<rparr>" using cancel_only by blast
  then show ?thesis by simp
qed

lemma worker_step_concurrency: "worker_step env (pw, db) (pw', db') \<Longrightarrow> pw_concurrency pw' = pw_concurrency pw"
proof (erule worker_step.cases; clarsimp)
  show "pw_concurrency pw' = pw_concurrency pw" if "(pw', db') = claim_round env locked now pw db" for locked now pw db
    using that by (auto simp: claim_round_def Let_def fold_spawn_concurrency split: if_splits sum.splits prod.splits)
  show "pw_concurrency (begin_execution n pw) = pw_concurrency pw" for n and pw :: pool_worker
    by (simp add: begin_execution_def track_def split: option.splits prod.splits bool.splits)
  show "pw_concurrency (end_execution n pw) = pw_concurrency pw" for n and pw :: pool_worker
    by (simp add: end_execution_def untrack_def split: option.splits prod.splits bool.splits)
  show "pw_concurrency pw' = pw_concurrency pw" if "(pw', db') = renew_round env now pw db" for now pw db
    using that by (auto simp: renew_round_def Let_def cancel_concurrency split: if_splits sum.splits prod.splits)
  show "pw_concurrency pw' = pw_concurrency pw" if "(pw', db') = heartbeat_round now pw db" for now pw db
    using that by (auto simp: heartbeat_round_def split: if_splits sum.splits prod.splits)
qed

lemma worker_steps_ok:
  assumes "(worker_step env)\<^sup>*\<^sup>* (pw, db) (pw', db')" and "reachable env db" and "worker_ok pw"
  shows "worker_ok pw' \<and> reachable env db' \<and> pw_concurrency pw' = pw_concurrency pw"
  using assms(1)
proof (induction "(pw', db')" arbitrary: pw' db' rule: rtranclp_induct)
  case base
  then show ?case using assms(2,3) by simp
next
  case (step y)
  obtain p1 d1 where y: "y = (p1, d1)" by (cases y)
  from step.hyps(3) [OF y] step.hyps(2) [unfolded y] show ?case
    using worker_step_ok worker_step_concurrency by metis
qed

lemma worker_capacity:
  assumes "reachable env db0" and "NewWorker concurrency wid hostname version now db0 = (Inr pw, db)"
    and "(worker_step env)\<^sup>*\<^sup>* (pw, db) (pw', db')"
  shows "int (length (pw_running pw')) \<le> pw_concurrency pw' \<and> heldCount pw' \<le> int (length (pw_running pw'))
    \<and> pw_concurrency pw' = (if concurrency \<le> 0 then 4 else concurrency)"
proof -
  have "reachable env db" and pw: "worker_ok pw" "pw_concurrency pw = (if concurrency \<le> 0 then 4 else concurrency)"
    using assms(2) reachable.step [OF assms(1) sys_step.register_worker [of env db0 wid hostname]]
    by (auto simp: NewWorker_def Let_def worker_ok_def split: sum.splits prod.splits if_splits) (metis snd_conv)+
  from worker_steps_ok [OF assms(3) this(1,2)] pw(2) show ?thesis
    using held_le_slots [of pw'] by (simp add: worker_ok_def)
qed

text \<open>
  The table of held tasks is keyed by the task alone.  When two executions of one task are
  in flight on the same worker, the end of either takes the other out of the table.
\<close>

lemma end_untracks:
  assumes "map_of (pw_running pw) m = Some (c, True)" and "map_of (pw_running pw) n = Some (d, True)"
    and "m \<noteq> n" and "t_id (ct_Task c) = t_id (ct_Task d)"
  shows "map_of (pw_running (end_execution m pw)) n = Some (d, True)
    \<and> t_id (ct_Task d) \<notin> set (heldIDs (end_execution m pw))"
proof -
  have "map_of (filter (\<lambda>r. fst r \<noteq> m) rs) n = map_of rs n" for rs :: "(nat \<times> claimed_task \<times> bool) list"
    using assms(3) by (induction rs) auto
  then show ?thesis using assms by (simp add: end_execution_def untrack_def heldIDs_def AList.delete_eq image_iff)
qed

end
