(* ===== verification/Relab_Command.thy ===== *)
theory Relab_Command
  imports Relab_Assert Relab_Server Relab_Worker
begin

text \<open>
  What the commands of \<^verbatim>\<open>internal/cli\<close> decide before and around the engine: the connection
  settings of \<^verbatim>\<open>openDB\<close> with the pool size at its 32 bits, how a workflow argument is read,
  the lists of the benchmark, the benchmark's failing handlers and the first line of a text.
  Reading a file, \<^verbatim>\<open>os.Stat\<close>, connecting and \<^verbatim>\<open>strconv.ParseFloat\<close> are arguments.
\<close>

section \<open>Connection settings\<close>

record store_config =
  cfg_DSN :: string
  cfg_MaxConns :: "32 word"
  cfg_MaxConnLifetime :: duration
  cfg_MaxConnIdleTime :: duration
  cfg_ConnectTimeout :: duration

definition DefaultConfig :: "string \<Rightarrow> store_config" where
  "DefaultConfig dsn =
     \<lparr>cfg_DSN = dsn, cfg_MaxConns = 10, cfg_MaxConnLifetime = 30 * 60 * second,
      cfg_MaxConnIdleTime = 5 * 60 * second, cfg_ConnectTimeout = 10 * second\<rparr>"

datatype open_error = OpenConfig config_error | EmptyDSN | OpenParse string | OpenPool string | OpenPing string

text \<open>
  The driver: \<open>pd_parse\<close> is the pool size the connection string asks for, or the error of
  parsing it; \<open>pd_create\<close> and \<open>pd_ping\<close> say whether making the pool and reaching the
  server fail; \<open>pd_url_password\<close> is the password of a connection string that is a URL.
\<close>

record pool_driver =
  pd_parse :: "string \<Rightarrow> string + 32 word"
  pd_create :: "string \<Rightarrow> 32 word \<Rightarrow> string option"
  pd_ping :: "string \<Rightarrow> string option"
  pd_url_password :: "string \<Rightarrow> string option"

text \<open>An opened pool is known by its number of connections.\<close>

definition Open :: "pool_driver \<Rightarrow> store_config \<Rightarrow> open_error + 32 word" where
  "Open drv cfg =
     (if cfg_DSN cfg = [] then Inl EmptyDSN
      else case pd_parse drv (cfg_DSN cfg) of
        Inl e \<Rightarrow> Inl (OpenParse (redact (pd_url_password drv) e (cfg_DSN cfg)))
      | Inr asked \<Rightarrow>
          let conns = (if sint (cfg_MaxConns cfg) > 0 then cfg_MaxConns cfg else asked) in
          (case pd_create drv (cfg_DSN cfg) conns of
             Some e \<Rightarrow> Inl (OpenPool (redact (pd_url_password drv) e (cfg_DSN cfg)))
           | None \<Rightarrow>
              (case pd_ping drv (cfg_DSN cfg) of
                 Some e \<Rightarrow> Inl (OpenPing (redact (pd_url_password drv) e (cfg_DSN cfg)))
               | None \<Rightarrow> Inr conns)))"

definition openDB :: "pool_driver \<Rightarrow> environ \<Rightarrow> string \<Rightarrow> open_error + 32 word" where
  "openDB drv getenv flagValue =
     (case DSN getenv flagValue of
        Inl e \<Rightarrow> Inl (OpenConfig e)
      | Inr dsn \<Rightarrow>
          let cfg = DefaultConfig dsn in
          (case Env_Int getenv ''RELAB_DB_MAX_CONNS'' (sint (cfg_MaxConns cfg)) of
             Inl e \<Rightarrow> Inl (OpenConfig e)
           | Inr maxConns \<Rightarrow>
               Open drv (if maxConns > 0 then cfg\<lparr>cfg_MaxConns := word_of_int maxConns\<rparr> else cfg)))"

section \<open>Workflow arguments\<close>

definition HasSuffix :: "string \<Rightarrow> string \<Rightarrow> bool" where
  "HasSuffix s suf \<longleftrightarrow> length suf \<le> length s \<and> drop (length s - length suf) s = suf"

definition looksLikePath :: "(string \<Rightarrow> bool) \<Rightarrow> string \<Rightarrow> bool" where
  "looksLikePath stat arg \<longleftrightarrow> HasSuffix arg ''.yaml'' \<or> HasSuffix arg ''.yml'' \<or> stat arg"

text \<open>
  \<^verbatim>\<open>fmt.Sscanf(s, "%d", &v)\<close>: blanks are skipped, a line break is not; a sign and the longest
  run of digits are taken, at least one, and must fit; what follows them is not looked at.
\<close>

definition scan_blank :: "char \<Rightarrow> bool" where
  "scan_blank c \<longleftrightarrow> is_space c \<and> (of_char c :: nat) \<noteq> 10"

definition is_digit :: "char \<Rightarrow> bool" where
  "is_digit c \<longleftrightarrow> digit_val c \<noteq> None"

definition Sscanf_d :: "string \<Rightarrow> int option" where
  "Sscanf_d s =
     (let t = dropWhile scan_blank s;
          (sign, u) = (case t of [] \<Rightarrow> ([], []) | c # cs \<Rightarrow> if c = CHR ''+'' \<or> c = CHR ''-'' then ([c], cs) else ([], t));
          ds = takeWhile is_digit u
      in if ds = [] then None else parse_int64 (sign @ ds))"

text \<open>\<open>Split2\<close> at \<^verbatim>\<open>@\<close> is \<^verbatim>\<open>strings.Cut\<close>.\<close>

definition splitNameVersion :: "string \<Rightarrow> string \<times> int" where
  "splitNameVersion arg =
     (case Split2 CHR ''@'' arg of
        None \<Rightarrow> (arg, 0)
      | Some (name, version) \<Rightarrow>
         (case Sscanf_d version of None \<Rightarrow> (arg, 0) | Some v \<Rightarrow> (name, v)))"

section \<open>Benchmark arguments\<close>

datatype list_error = NotAPositiveInteger string string | NotAFraction string string | NoValues string

text \<open>The loop over the parts: blank parts are skipped, the first bad one is the error.\<close>

fun list_loop :: "(string \<Rightarrow> 'a option) \<Rightarrow> string list \<Rightarrow> string + 'a list" where
  "list_loop ok [] = Inr []"
| "list_loop ok (part # parts) =
     (let p = TrimSpace part in
      if p = [] then list_loop ok parts
      else case ok p of
             None \<Rightarrow> Inl p
           | Some v \<Rightarrow> (case list_loop ok parts of Inl e \<Rightarrow> Inl e | Inr vs \<Rightarrow> Inr (v # vs)))"

definition positive_part :: "string \<Rightarrow> int option" where
  "positive_part p = (case parse_int64 p of None \<Rightarrow> None | Some v \<Rightarrow> if v < 1 then None else Some v)"

definition parseIntList :: "string \<Rightarrow> string \<Rightarrow> list_error + int list" where
  "parseIntList raw flg =
     (case list_loop positive_part (Split CHR '','' raw) of
        Inl p \<Rightarrow> Inl (NotAPositiveInteger flg p)
      | Inr out \<Rightarrow> if out = [] then Inl (NoValues flg) else Inr out)"

definition fraction_part :: "(string \<Rightarrow> float option) \<Rightarrow> string \<Rightarrow> float option" where
  "fraction_part parseFloat p =
     (case parseFloat p of
        None \<Rightarrow> None
      | Some v \<Rightarrow> if float_less v (Finite 0) \<or> float_less (Finite 1) v then None else Some v)"

definition parseFloatList :: "(string \<Rightarrow> float option) \<Rightarrow> string \<Rightarrow> string \<Rightarrow> list_error + float list" where
  "parseFloatList parseFloat raw flg =
     (case list_loop (fraction_part parseFloat) (Split CHR '','' raw) of
        Inl p \<Rightarrow> Inl (NotAFraction flg p)
      | Inr out \<Rightarrow> if out = [] then Inl (NoValues flg) else Inr out)"

text \<open>The pool size \<^verbatim>\<open>bench\<close> puts into the environment when none is set there.\<close>

definition bench_environ :: "int list \<Rightarrow> environ \<Rightarrow> environ" where
  "bench_environ counts getenv =
     (let maxWorkers = fold (\<lambda>w m. if w > m then w else m) counts 0 in
      if getenv ''RELAB_DB_MAX_CONNS'' = [] then getenv(''RELAB_DB_MAX_CONNS'' := show_int (wrap64 (maxWorkers + 4)))
      else getenv)"

section \<open>Handlers that fail at a rate\<close>

text \<open>
  The wrapped handler draws from a source derived from the attempt, the run, the task and the
  handler's name.  \<open>rate_text\<close> is the rate as the message prints it, and \<open>early\<close> gives what
  the contexts and the clock say of a call that fails before the inner handler.
\<close>

definition bench_draw :: "env \<Rightarrow> string \<Rightarrow> task_context \<Rightarrow> rat" where
  "bench_draw env stepName tc =
     Float64 (DerivedRand (tc_Attempt tc) [env_uuid_String env (tc_RunID tc), ''bench-fault'', tc_TaskName tc, stepName])"

definition failing :: "env \<Rightarrow> handler \<Rightarrow> string \<Rightarrow> float \<Rightarrow> string \<Rightarrow> handler \<Rightarrow> handler" where
  "failing env early rate_text faultRate stepName inner n tc =
     (if float_less (Finite (bench_draw env stepName tc)) faultRate
      then (early n tc)\<lparr>iv_program := Return (Inl (Plain (''injected benchmark failure at '' @ rate_text @ ''% fault rate'')))\<rparr>
      else inner n tc)"

fun wrap_loop :: "(string \<Rightarrow> handler \<Rightarrow> handler) \<Rightarrow> registry \<Rightarrow> string list \<Rightarrow> registry \<Rightarrow> registry_error + registry" where
  "wrap_loop wr base [] r = Inr r"
| "wrap_loop wr base (name # names) r =
     (case Registry_Lookup base name of
        None \<Rightarrow> wrap_loop wr base names r
      | Some h \<Rightarrow> (case Handle name (Some (wr name h)) r of Inl e \<Rightarrow> Inl e | Inr r' \<Rightarrow> wrap_loop wr base names r'))"

definition benchRegistry :: "env \<Rightarrow> handler \<Rightarrow> string \<Rightarrow> registry \<Rightarrow> float \<Rightarrow> registry_error + registry" where
  "benchRegistry env early rate_text base faultRate =
     (if \<not> float_less (Finite 0) faultRate \<and> faultRate \<noteq> NaN then Inr base
      else wrap_loop (failing env early rate_text faultRate) base (Registry_Names base) [])"

section \<open>Printing\<close>

definition firstLine :: "string \<Rightarrow> string" where
  "firstLine s = takeWhile (\<lambda>c. (of_char c :: nat) \<noteq> 10) s"

text \<open>\<open>s\<close> is the value as \<^verbatim>\<open>%v\<close> prints it.\<close>

definition compact :: "string \<Rightarrow> string" where
  "compact s = (let l = firstLine s in if length l > 60 then take 57 l @ ''...'' else l)"

section \<open>What the settings do\<close>

text \<open>A pool is opened with the size asked for, as long as it fits 32 bits.\<close>

lemma openDB_size:
  assumes dsn: "DSN getenv flg = Inr dsn" "dsn \<noteq> []" and driver: "pd_parse drv dsn = Inr asked" "pd_ping drv dsn = None"
    and n: "getenv ''RELAB_DB_MAX_CONNS'' = show_int n" "0 < n" "n < 2 ^ 31"
    and created: "pd_create drv dsn (word_of_int n) = None"
  shows "openDB drv getenv flg = Inr (word_of_int n) \<and> sint (word_of_int n :: 32 word) = n"
proof -
  have s: "sint (word_of_int n :: 32 word) = n"
    using n by (simp add: signed_of_int signed_take_bit_int_eq_self)
  have "Env_Int getenv ''RELAB_DB_MAX_CONNS'' k = Inr n" for k
    using n parse_show [of n] show_nat_nonempty [of "nat n"] by (simp add: Env_Int_def show_int_def)
  then show ?thesis using assms s by (simp add: openDB_def Open_def DefaultConfig_def)
qed

text \<open>A larger one is cut to its low 32 bits.\<close>

lemma openDB_size_cut:
  assumes "DSN getenv flg = Inr dsn" "dsn \<noteq> []" "pd_parse drv dsn = Inr asked" "pd_ping drv dsn = None"
    and "getenv ''RELAB_DB_MAX_CONNS'' = ''4294967297''" and "pd_create drv dsn 1 = None"
  shows "openDB drv getenv flg = Inr 1"
proof -
  have "parse_int64 ''4294967297'' = Some 4294967297" by code_simp
  then have "Env_Int getenv ''RELAB_DB_MAX_CONNS'' k = Inr 4294967297" for k
    using assms(5) by (simp add: Env_Int_def)
  moreover have cut: "(4294967297 :: 32 word) = 1" by simp
  ultimately show ?thesis using assms by (simp add: openDB_def Open_def DefaultConfig_def Let_def cut)
qed

section \<open>What the arguments mean\<close>

lemma is_digit_show: "c \<in> set (show_nat n) \<Longrightarrow> is_digit c"
  using show_nat_digits [of c n] by (auto simp: is_digit_def digit_val_digit)

lemma digit_not_blank: "is_digit c \<Longrightarrow> \<not> scan_blank c \<and> c \<noteq> CHR ''+'' \<and> c \<noteq> CHR ''-''"
  by (auto simp: is_digit_def digit_val_def scan_blank_def is_space_def Let_def split: if_splits)

lemma Sscanf_d_digits:
  assumes "ds \<noteq> []" and "\<And>c. c \<in> set ds \<Longrightarrow> is_digit c" and rest: "rest = [] \<or> \<not> is_digit (hd rest)"
  shows "Sscanf_d (ds @ rest) = parse_int64 ds"
proof -
  obtain c cs where ds: "ds = c # cs" using assms(1) by (cases ds) auto
  have c: "\<not> scan_blank c" "c \<noteq> CHR ''+''" "c \<noteq> CHR ''-''" using assms(2) [of c] digit_not_blank [of c] by (auto simp: ds)
  have "takeWhile is_digit (ds @ rest) = ds" using assms(2) rest by (cases rest) (auto simp: takeWhile_append2)
  then show ?thesis using c by (simp add: Sscanf_d_def ds)
qed

lemma splitNameVersion_show:
  assumes "CHR ''@'' \<notin> set name" and "v < 2 ^ 63" and "rest = [] \<or> \<not> is_digit (hd rest)"
  shows "splitNameVersion (name @ ''@'' @ show_nat v @ rest) = (name, int v)"
proof -
  have "Split2 CHR ''@'' (name @ ''@'' @ show_nat v @ rest) = Some (name, show_nat v @ rest)"
    using assms(1) by (induction name) (auto simp: Split2_def)
  moreover have "parse_int64 (show_nat v) = Some (int v)" using parse_show [of "int v"] assms(2) by (simp add: show_int_def)
  ultimately show ?thesis
    using Sscanf_d_digits [OF show_nat_nonempty is_digit_show assms(3), of v] by (simp add: splitNameVersion_def)
qed

text \<open>What follows the number goes unnoticed.\<close>

lemma splitNameVersion_ignores: "splitNameVersion ''data-pipeline@2beta'' = (''data-pipeline'', 2)"
  by code_simp

section \<open>What a list may hold\<close>

lemma list_loop_sound: "list_loop ok parts = Inr vs \<Longrightarrow> v \<in> set vs \<Longrightarrow> \<exists>p. ok p = Some v"
  by (induction parts arbitrary: vs) (auto simp: Let_def split: if_splits option.splits sum.splits)

lemma parseIntList_positive:
  assumes "parseIntList raw flg = Inr vs"
  shows "vs \<noteq> [] \<and> (\<forall>v\<in>set vs. 1 \<le> v \<and> v < 2 ^ 63)"
proof -
  have "1 \<le> v \<and> v < 2 ^ 63" if "positive_part p = Some v" for p v
    using that by (auto simp: positive_part_def parse_int64_def in_int64_def Let_def split: option.splits if_splits)
  then show ?thesis
    using assms list_loop_sound [of positive_part]
    by (auto simp: parseIntList_def split: sum.splits if_splits) blast+
qed

lemma parseFloatList_range:
  assumes "parseFloatList parseFloat raw flg = Inr vs" and "v \<in> set vs"
  shows "v = NaN \<or> (\<exists>x. v = Finite x \<and> 0 \<le> x \<and> x \<le> 1)"
proof -
  obtain p where "fraction_part parseFloat p = Some v"
    using assms list_loop_sound [of "fraction_part parseFloat"] by (auto simp: parseFloatList_def split: sum.splits if_splits)
  then show ?thesis by (cases v) (auto simp: fraction_part_def split: option.splits if_splits)
qed

text \<open>A rate that is no number passes as a fraction between 0 and 1.\<close>

lemma parseFloatList_nan:
  assumes "parseFloat ''nan'' = Some NaN"
  shows "parseFloatList parseFloat ''nan'' flg = Inr [NaN]"
proof -
  have "Split CHR '','' ''nan'' = [''nan'']" "TrimSpace ''nan'' = ''nan''" by code_simp+
  then show ?thesis using assms by (simp add: parseFloatList_def fraction_part_def)
qed

lemma bench_pool_fits:
  assumes "getenv ''RELAB_DB_MAX_CONNS'' = []" and "\<And>c. c \<in> set counts \<Longrightarrow> 1 \<le> c \<and> c < 2 ^ 62"
  shows "\<exists>n. Env_Int (bench_environ counts getenv) ''RELAB_DB_MAX_CONNS'' k = Inr n \<and> (\<forall>c\<in>set counts. c + 4 \<le> n)"
proof -
  let ?m = "fold (\<lambda>w m. if w > m then w else m) counts 0"
  have up: "(\<forall>c\<in>set cs. c \<le> fold (\<lambda>w m. if w > m then w else m) cs m) \<and> m \<le> fold (\<lambda>w m. if w > m then w else m) cs m" for cs and m :: int
    by (induction cs arbitrary: m) (auto, (meson dual_order.trans linorder_le_cases not_le)+)
  have mem: "fold (\<lambda>w m. if w > m then w else m) cs m \<in> insert m (set cs)" for cs and m :: int
    by (induction cs arbitrary: m) (auto split: if_splits)
  have m: "0 \<le> ?m" "?m < 2 ^ 62" using up [of counts 0] mem [of counts 0] assms(2) [of ?m] by auto
  have "wrap64 (?m + 4) = ?m + 4" using m by (intro wrap64_id) (simp add: in_int64_def)
  then have "Env_Int (bench_environ counts getenv) ''RELAB_DB_MAX_CONNS'' k = Inr (?m + 4)"
    using m assms(1) parse_show [of "?m + 4"] show_nat_nonempty [of "nat (?m + 4)"]
    by (simp add: bench_environ_def Env_Int_def Let_def) (simp add: show_int_def)
  then show ?thesis using up [of counts 0] by fastforce
qed

section \<open>What the failing handlers are\<close>

lemma Registry_Lookup_Cons: "Registry_Lookup ((m, h) # r) n = (if m = n then h else Registry_Lookup r n)"
  by (simp add: Registry_Lookup_def)

lemma wrap_loop_lookup:
  assumes "distinct names" and "[] \<notin> set names" and "\<And>n. n \<in> set names \<Longrightarrow> map_of r n = None"
  shows "\<exists>r'. wrap_loop wr base names r = Inr r'
    \<and> (\<forall>n. Registry_Lookup r' n = (if n \<in> set names then map_option (wr n) (Registry_Lookup base n) else Registry_Lookup r n))"
  using assms
proof (induction names arbitrary: r)
  case (Cons m names)
  show ?case
  proof (cases "Registry_Lookup base m")
    case None
    with Cons.IH [of r] Cons.prems show ?thesis by (auto simp: Registry_Lookup_def [of r])
  next
    case (Some h)
    let ?r = "(m, Some (wr m h)) # r"
    have "map_of ?r n = None" if "n \<in> set names" for n using Cons.prems that by auto
    with Cons.IH [of ?r] Cons.prems obtain r' where r': "wrap_loop wr base names ?r = Inr r'"
      "\<And>n. Registry_Lookup r' n = (if n \<in> set names then map_option (wr n) (Registry_Lookup base n) else Registry_Lookup ?r n)"
      by auto
    then show ?thesis using Some Cons.prems by (intro exI [of _ r']) (auto simp: Handle_def Registry_Lookup_Cons)
  qed
qed simp

text \<open>
  The wrapped registry knows the handlers of the base, each failing where its draw falls below
  the rate and otherwise the handler it was.
\<close>

lemma benchRegistry_handlers:
  assumes "[] \<notin> fst ` set base"
  shows "\<exists>r. benchRegistry env early rt base rate = Inr r
    \<and> (\<forall>n. Registry_Lookup r n = (if float_less (Finite 0) rate \<or> rate = NaN
          then map_option (failing env early rt rate n) (Registry_Lookup base n) else Registry_Lookup base n))"
proof (cases "float_less (Finite 0) rate \<or> rate = NaN")
  case True
  have "Registry_Lookup base n = None" if "n \<notin> fst ` set base" for n
    using that by (simp add: Registry_Lookup_def map_of_eq_None_iff [THEN iffD2])
  then show ?thesis
    using True wrap_loop_lookup [of "Registry_Names base" "[]" "failing env early rt rate" base] assms
    by (auto simp: benchRegistry_def Registry_Names_def Registry_Lookup_def [of "[]"])
qed (simp add: benchRegistry_def)

lemma failing_nan: "failing env early rt NaN n h = h"
  by (simp add: failing_def fun_eq_iff float_less.simps)

lemma compact_short: "length (compact s) \<le> 60"
  by (simp add: compact_def Let_def)

end
