(* ===== verification/Relab_Pool.thy ===== *)
theory Relab_Pool
  imports Relab_Command
begin

text \<open>
  The supervised pool of worker processes of \<^verbatim>\<open>internal/cli/testpool.go\<close>.  A slot has at most one
  supervising goroutine; what it is about is its \<open>job\<close>: it has launched a process and not yet
  taken the lock to enter it, it waits for the process to exit, or it pauses before
  replacing it.  \<open>wp_live\<close> is the machine's list of the pool's processes that run, and
  \<open>wp_stop\<close> what \<^verbatim>\<open>stop\<close> copied from the table when it set the flag.
\<close>

section \<open>The pool\<close>

datatype job = Registering nat | Supervising nat | Pausing

record worker_pool =
  wp_procs :: "nat \<Rightarrow> nat option"
  wp_stopping :: bool
  wp_restarts :: int
  wp_jobs :: "nat \<Rightarrow> job option"
  wp_live :: "nat list"
  wp_next :: nat
  wp_spawned :: nat
  wp_stop :: "nat list option"

definition new_pool :: worker_pool where
  "new_pool = \<lparr>wp_procs = Map.empty, wp_stopping = False, wp_restarts = 0, wp_jobs = Map.empty, wp_live = [], wp_next = 0,
     wp_spawned = 0, wp_stop = None\<rparr>"

text \<open>\<^verbatim>\<open>cmd.Start\<close>: a process with an identifier of its own.\<close>

definition launch :: "nat \<Rightarrow> worker_pool \<Rightarrow> worker_pool" where
  "launch slot p =
     p\<lparr>wp_live := wp_next p # wp_live p, wp_next := Suc (wp_next p),
       wp_jobs := (wp_jobs p)(slot \<mapsto> (Registering (wp_next p)))\<rparr>"

text \<open>The locked part of \<^verbatim>\<open>start\<close>: a pool being stopped kills what was just launched.\<close>

definition register :: "nat \<Rightarrow> nat \<Rightarrow> worker_pool \<Rightarrow> worker_pool" where
  "register slot pid p =
     (if wp_stopping p then p\<lparr>wp_live := removeAll pid (wp_live p), wp_jobs := (wp_jobs p)(slot := None)\<rparr>
      else p\<lparr>wp_procs := (wp_procs p)(slot \<mapsto> pid),
             wp_jobs := (wp_jobs p)(slot \<mapsto> (Supervising pid))\<rparr>)"

text \<open>After \<^verbatim>\<open>cmd.Wait\<close>; \<open>ended\<close> says whether the context had ended.\<close>

definition exited :: "nat \<Rightarrow> bool \<Rightarrow> worker_pool \<Rightarrow> worker_pool" where
  "exited slot ended p =
     (if wp_stopping p \<or> ended then p\<lparr>wp_jobs := (wp_jobs p)(slot := None)\<rparr>
      else p\<lparr>wp_restarts := wp_restarts p + 1, wp_jobs := (wp_jobs p)(slot \<mapsto> Pausing)\<rparr>)"

definition stop_begin :: "worker_pool \<Rightarrow> worker_pool" where
  "stop_begin p = p\<lparr>wp_stopping := True, wp_stop := Some (List.map_filter (wp_procs p) [0..<wp_spawned p])\<rparr>"

text \<open>The SIGKILL to every process copied, once the grace period is over.\<close>

definition stop_kill :: "worker_pool \<Rightarrow> worker_pool" where
  "stop_kill p = (case wp_stop p of None \<Rightarrow> p | Some ps \<Rightarrow> p\<lparr>wp_live := filter (\<lambda>pid. pid \<notin> set ps) (wp_live p)\<rparr>)"

text \<open>The count of the wait group, at which \<^verbatim>\<open>stop\<close> waits for nought.\<close>

definition wp_wg :: "worker_pool \<Rightarrow> nat" where
  "wp_wg p = length (filter (\<lambda>slot. wp_jobs p slot \<noteq> None) [0..<wp_spawned p])"

section \<open>Its steps\<close>

text \<open>
  \<^verbatim>\<open>spawnWorkers\<close> starts \<open>n\<close> slots in turn before \<^verbatim>\<open>stop\<close> can be called; a start that fails
  ends it early.  A goroutine that pauses gives up when its context ends or the new process
  does not start.  A process may exit at any moment, after a SIGTERM or without one.
\<close>

inductive job_step :: "worker_pool \<Rightarrow> worker_pool \<Rightarrow> bool" where
  registers: "wp_jobs p slot = Some (Registering pid) \<Longrightarrow> job_step p (register slot pid p)"
| notices: "wp_jobs p slot = Some (Supervising pid) \<Longrightarrow> pid \<notin> set (wp_live p) \<Longrightarrow> job_step p (exited slot ended p)"
| gives_up: "wp_jobs p slot = Some Pausing \<Longrightarrow> job_step p (p\<lparr>wp_jobs := (wp_jobs p)(slot := None)\<rparr>)"
| relaunches: "wp_jobs p slot = Some Pausing \<Longrightarrow> job_step p (launch slot p)"

inductive pool_step :: "nat \<Rightarrow> worker_pool \<Rightarrow> worker_pool \<Rightarrow> bool" for n where
  job: "job_step p p' \<Longrightarrow> pool_step n p p'"
| spawn: "\<not> wp_stopping p \<Longrightarrow> wp_spawned p < n \<Longrightarrow>
    pool_step n p (register (wp_spawned p) (wp_next p) ((launch (wp_spawned p) p)\<lparr>wp_spawned := Suc (wp_spawned p)\<rparr>))"
| dies: "pid \<in> set (wp_live p) \<Longrightarrow> pool_step n p (p\<lparr>wp_live := removeAll pid (wp_live p)\<rparr>)"
| stops: "wp_stop p = None \<Longrightarrow> pool_step n p (stop_begin p)"
| kills: "pool_step n p (stop_kill p)"

inductive_cases job_stepE: "job_step p p'"
inductive_cases pool_stepE: "pool_step n p p'"

section \<open>Every process has its goroutine\<close>

fun job_pid :: "job \<Rightarrow> nat option" where
  "job_pid (Registering pid) = Some pid"
| "job_pid (Supervising pid) = Some pid"
| "job_pid Pausing = None"

text \<open>The process a slot's goroutine answers for.\<close>

definition charge :: "worker_pool \<Rightarrow> nat \<Rightarrow> nat option" where
  "charge p slot = Option.bind (wp_jobs p slot) job_pid"

definition watched :: "worker_pool \<Rightarrow> bool" where
  "watched p \<longleftrightarrow> distinct (wp_live p) \<and> (\<forall>pid\<in>set (wp_live p). pid < wp_next p \<and> (\<exists>slot. charge p slot = Some pid))"

definition slots_ok :: "nat \<Rightarrow> worker_pool \<Rightarrow> bool" where
  "slots_ok n p \<longleftrightarrow> wp_spawned p \<le> n \<and> (\<forall>slot. wp_jobs p slot \<noteq> None \<longrightarrow> slot < wp_spawned p)"

text \<open>What the table says of a slot is what its goroutine waits for, and \<open>stop\<close> has copied it.\<close>

definition entered :: "worker_pool \<Rightarrow> bool" where
  "entered p \<longleftrightarrow> (wp_stopping p \<longleftrightarrow> wp_stop p \<noteq> None)
     \<and> (\<forall>slot pid. wp_jobs p slot = Some (Supervising pid) \<longrightarrow>
          wp_procs p slot = Some pid \<and> (\<forall>ps. wp_stop p = Some ps \<longrightarrow> pid \<in> set ps))"

text \<open>Every process number the pool remembers has been given out.\<close>

definition issued :: "worker_pool \<Rightarrow> bool" where
  "issued p \<longleftrightarrow> (\<forall>slot pid. wp_procs p slot = Some pid \<longrightarrow> pid < wp_next p)
     \<and> (\<forall>slot pid. charge p slot = Some pid \<longrightarrow> pid < wp_next p)
     \<and> (\<forall>ps. wp_stop p = Some ps \<longrightarrow> (\<forall>pid\<in>set ps. pid < wp_next p))"

definition pool_ok :: "nat \<Rightarrow> worker_pool \<Rightarrow> bool" where
  "pool_ok n p \<longleftrightarrow> watched p \<and> slots_ok n p \<and> entered p \<and> issued p"

lemma watched_kept:
  assumes "watched p" and "distinct (wp_live p')" "set (wp_live p') \<subseteq> set (wp_live p)" "wp_next p \<le> wp_next p'"
    and "\<And>slot pid. charge p slot = Some pid \<Longrightarrow> pid \<in> set (wp_live p') \<Longrightarrow> charge p' slot = Some pid"
  shows "watched p'"
  using assms unfolding watched_def by (meson less_le_trans subset_iff)

lemma watched_launch:
  assumes w: "watched p" and idle: "charge p slot = None"
  shows "watched (launch slot p)"
proof -
  have c: "charge (launch slot p) s = (if s = slot then Some (wp_next p) else charge p s)" for s
    by (simp add: charge_def launch_def)
  have "pid < Suc (wp_next p) \<and> (\<exists>s. charge (launch slot p) s = Some pid)" if pid: "pid \<in> set (wp_live p)" for pid
  proof -
    obtain s where "pid < wp_next p" "charge p s = Some pid" using w pid by (auto simp: watched_def)
    then show ?thesis using idle c [of s] by (intro conjI exI [of _ s]) auto
  qed
  then show ?thesis using w c [of slot] by (auto simp: watched_def launch_def [of slot p] simp del: fun_upd_apply)
qed

lemma watched_job_step:
  assumes "watched p" and "job_step p p'"
  shows "watched p'"
  using assms(2)
proof (rule job_stepE)
  fix slot assume "p' = launch slot p" "wp_jobs p slot = Some Pausing"
  then show ?thesis using watched_launch [OF assms(1), of slot] by (simp add: charge_def)
qed (rule watched_kept [OF assms(1)];
  use assms(1) in \<open>auto simp: watched_def register_def exited_def charge_def distinct_removeAll split: if_splits\<close>)+

lemma slots_job_step: "slots_ok n p \<Longrightarrow> job_step p p' \<Longrightarrow> slots_ok n p'"
  by (erule job_stepE) (auto simp: slots_ok_def register_def exited_def launch_def split: if_splits)

lemma entered_job_step: "entered p \<Longrightarrow> job_step p p' \<Longrightarrow> entered p'"
  by (erule job_stepE) (auto simp: entered_def register_def exited_def launch_def split: if_splits)

lemma charge_upd: "charge (p\<lparr>wp_jobs := (wp_jobs p)(slot := j)\<rparr>) = (charge p)(slot := Option.bind j job_pid)"
  by (simp add: charge_def fun_eq_iff)

lemma charge_only [simp]:
  "charge (p\<lparr>wp_live := l\<rparr>) = charge p" "charge (p\<lparr>wp_procs := m\<rparr>) = charge p" "charge (p\<lparr>wp_spawned := k\<rparr>) = charge p"
  "charge (p\<lparr>wp_restarts := r\<rparr>) = charge p" "charge (p\<lparr>wp_next := k\<rparr>) = charge p"
  by (simp_all add: charge_def fun_eq_iff)

lemma issued_jobs:
  assumes "issued p" and "\<And>pid. Option.bind j job_pid = Some pid \<Longrightarrow> pid < wp_next p"
  shows "issued (p\<lparr>wp_jobs := (wp_jobs p)(slot := j)\<rparr>)"
  using assms by (simp add: issued_def charge_upd)

lemma issued_launch: "issued p \<Longrightarrow> issued (launch slot p)"
proof -
  assume i: "issued p"
  let ?q = "p\<lparr>wp_live := wp_next p # wp_live p, wp_next := Suc (wp_next p)\<rparr>"
  have "issued ?q" using i by (auto simp: issued_def less_Suc_eq)
  from issued_jobs [OF this, of "Some (Registering (wp_next p))" slot] show ?thesis by (simp add: launch_def)
qed

lemma issued_job_step:
  assumes i: "issued p" and "job_step p p'"
  shows "issued p'"
  using assms(2)
proof (rule job_stepE)
  fix slot pid assume p': "p' = register slot pid p" and j: "wp_jobs p slot = Some (Registering pid)"
  then have pid: "pid < wp_next p" using i by (simp add: issued_def charge_def) (metis bind.bind_lunit job_pid.simps(1))
  let ?in = "p\<lparr>wp_procs := (wp_procs p)(slot \<mapsto> pid)\<rparr>" and ?out = "p\<lparr>wp_live := removeAll pid (wp_live p)\<rparr>"
  have "issued ?in" "issued ?out" using i pid by (simp_all add: issued_def)
  from issued_jobs [OF this(1), of "Some (Supervising pid)" slot] issued_jobs [OF this(2), of None slot] pid
  show ?thesis by (simp add: p' register_def)
next
  fix slot ended assume "p' = exited slot ended p"
  moreover have "issued (p\<lparr>wp_restarts := wp_restarts p + 1\<rparr>)" using i by (simp add: issued_def)
  from issued_jobs [OF this, of "Some Pausing" slot] issued_jobs [OF i, of None slot] calculation
  show ?thesis by (simp add: exited_def)
next
  fix slot assume "p' = p\<lparr>wp_jobs := (wp_jobs p)(slot := None)\<rparr>"
  then show ?thesis using issued_jobs [OF i, of None slot] by simp
qed (simp add: issued_launch [OF i])

lemma pool_ok_job: "pool_ok n p \<Longrightarrow> job_step p p' \<Longrightarrow> pool_ok n p'"
  by (auto simp: pool_ok_def intro: watched_job_step slots_job_step entered_job_step issued_job_step)

lemma pool_ok_spawn:
  assumes ok: "pool_ok n p" and "\<not> wp_stopping p" and room: "wp_spawned p < n"
  shows "pool_ok n (register (wp_spawned p) (wp_next p) ((launch (wp_spawned p) p)\<lparr>wp_spawned := Suc (wp_spawned p)\<rparr>))"
proof -
  let ?q = "(launch (wp_spawned p) p)\<lparr>wp_spawned := Suc (wp_spawned p)\<rparr>"
  have "wp_jobs p (wp_spawned p) = None" using ok by (auto simp: pool_ok_def slots_ok_def)
  then have "watched (launch (wp_spawned p) p)" using ok watched_launch by (simp add: pool_ok_def charge_def)
  then have "watched ?q" by (simp add: watched_def charge_def)
  moreover have "slots_ok n ?q" "entered ?q"
    using ok room by (auto simp: pool_ok_def slots_ok_def entered_def launch_def less_Suc_eq)
  moreover have "issued ?q" using ok issued_launch [of p "wp_spawned p"] by (simp add: pool_ok_def issued_def)
  moreover have "job_step ?q (register (wp_spawned p) (wp_next p) ?q)" by (rule job_step.registers) (simp add: launch_def)
  ultimately show ?thesis using pool_ok_job [of n ?q] by (simp add: pool_ok_def)
qed

lemma pool_ok_stop: "pool_ok n p \<Longrightarrow> wp_stop p = None \<Longrightarrow> pool_ok n (stop_begin p)"
proof -
  assume ok: "pool_ok n p" and "wp_stop p = None"
  have same: "charge (stop_begin p) = charge p" by (simp add: charge_def fun_eq_iff stop_begin_def)
  have "pid \<in> set (List.map_filter (wp_procs p) [0..<wp_spawned p])" if "wp_jobs p slot = Some (Supervising pid)" for slot pid
  proof -
    have "slot < wp_spawned p" "wp_procs p slot = Some pid" using ok that by (simp_all add: pool_ok_def slots_ok_def entered_def)
    then show ?thesis by (force simp: map_filter_def)
  qed
  moreover have "pid < wp_next p" if copied: "pid \<in> set (List.map_filter (wp_procs p) [0..<wp_spawned p])" for pid
  proof -
    obtain slot where "wp_procs p slot = Some pid" using copied by (auto simp: map_filter_def)
    then show ?thesis using ok by (simp add: pool_ok_def issued_def)
  qed
  ultimately have "entered (stop_begin p)" "issued (stop_begin p)"
    using ok by (simp_all add: pool_ok_def entered_def issued_def same) (simp_all add: stop_begin_def)
  moreover have "watched (stop_begin p)" "slots_ok n (stop_begin p)"
    using ok by (simp_all add: pool_ok_def watched_def slots_ok_def same) (simp_all add: stop_begin_def)
  ultimately show ?thesis by (simp add: pool_ok_def)
qed

lemma pool_ok_live:
  assumes "pool_ok n p"
  shows "pool_ok n (p\<lparr>wp_live := filter c (wp_live p)\<rparr>)"
  using assms by (simp add: pool_ok_def watched_def slots_ok_def entered_def issued_def charge_def)

lemma pool_ok_step: "pool_ok n p \<Longrightarrow> pool_step n p p' \<Longrightarrow> pool_ok n p'"
  by (erule pool_stepE)
    (auto simp: stop_kill_def removeAll_filter_not_eq pool_ok_live pool_ok_stop pool_ok_spawn split: option.splits
       intro: pool_ok_job)

lemma pool_ok_reached: "(pool_step n)\<^sup>*\<^sup>* new_pool p \<Longrightarrow> pool_ok n p"
proof (induction rule: rtranclp_induct)
  case base
  show ?case by (simp add: pool_ok_def watched_def slots_ok_def entered_def issued_def charge_def new_pool_def)
qed (rule pool_ok_step)

section \<open>No more processes than slots, and none left behind\<close>

lemma live_bounded:
  assumes "pool_ok n p"
  shows "length (wp_live p) \<le> wp_wg p" and "wp_wg p \<le> n"
proof -
  let ?slots = "{slot. slot < wp_spawned p \<and> wp_jobs p slot \<noteq> None}"
  have "\<forall>pid\<in>set (wp_live p). \<exists>slot. charge p slot = Some pid" using assms by (simp add: pool_ok_def watched_def)
  then obtain place where place: "\<And>pid. pid \<in> set (wp_live p) \<Longrightarrow> charge p (place pid) = Some pid" by metis
  have "place pid \<in> ?slots" if "pid \<in> set (wp_live p)" for pid
  proof -
    have "wp_jobs p (place pid) \<noteq> None" using place [OF that] by (cases "wp_jobs p (place pid)") (auto simp: charge_def)
    then show ?thesis using assms by (simp add: pool_ok_def slots_ok_def)
  qed
  moreover have "inj_on place (set (wp_live p))" using place by (metis inj_onI option.inject)
  ultimately have "card (set (wp_live p)) \<le> card ?slots" by (intro card_inj_on_le [of place]) auto
  moreover have "card ?slots = wp_wg p"
  proof -
    have "?slots = set (filter (\<lambda>slot. wp_jobs p slot \<noteq> None) [0..<wp_spawned p])" by auto
    then show ?thesis by (simp only: wp_wg_def distinct_card [OF distinct_filter [OF distinct_upt]])
  qed
  ultimately show "length (wp_live p) \<le> wp_wg p" using assms by (simp add: pool_ok_def watched_def distinct_card)
  have "wp_wg p \<le> wp_spawned p" unfolding wp_wg_def by (rule order_trans [OF length_filter_le]) simp
  then show "wp_wg p \<le> n" using assms by (simp add: pool_ok_def slots_ok_def)
qed

text \<open>
  Once the flag is set every step of a goroutine brings the pool nearer to the end of its
  wait, and as long as it waits after the kill there is such a step.
\<close>

fun job_left :: "job option \<Rightarrow> nat" where
  "job_left None = 0"
| "job_left (Some (Supervising _)) = 1"
| "job_left (Some (Registering _)) = 1"
| "job_left (Some Pausing) = 2"

definition left_over :: "worker_pool \<Rightarrow> nat" where
  "left_over p = sum_list (map (\<lambda>slot. job_left (wp_jobs p slot)) [0..<wp_spawned p])"

lemma left_over_less:
  assumes "wp_spawned p' = wp_spawned p" "slot < wp_spawned p" "wp_jobs p' = (wp_jobs p)(slot := j)"
    and "job_left j < job_left (wp_jobs p slot)"
  shows "left_over p' < left_over p"
proof -
  have "(\<Sum>s\<in>{0..<wp_spawned p}. job_left (wp_jobs p' s)) < (\<Sum>s\<in>{0..<wp_spawned p}. job_left (wp_jobs p s))"
    using assms by (intro sum_strict_mono_ex1) auto
  then show ?thesis using assms(1) by (simp add: left_over_def interv_sum_list_conv_sum_set_nat)
qed

lemma stopping_job_step:
  assumes "pool_ok n p" and "wp_stopping p" and "job_step p p'"
  shows "left_over p' < left_over p \<and> wp_stopping p'"
proof -
  have slot: "slot < wp_spawned p" if "wp_jobs p slot = Some j" for slot j
    using assms(1) that by (auto simp: pool_ok_def slots_ok_def)
  show ?thesis using assms(3)
  proof (rule job_stepE)
    fix s pid assume p': "p' = register s pid p" and j: "wp_jobs p s = Some (Registering pid)"
    then show ?thesis using assms(2) slot [OF j] left_over_less [of p' p s None] by (simp add: register_def)
  next
    fix s pid e assume p': "p' = exited s e p" and j: "wp_jobs p s = Some (Supervising pid)"
    then show ?thesis using assms(2) slot [OF j] left_over_less [of p' p s None] by (simp add: exited_def)
  next
    fix s assume p': "p' = p\<lparr>wp_jobs := (wp_jobs p)(s := None)\<rparr>" and j: "wp_jobs p s = Some Pausing"
    then show ?thesis using assms(2) slot [OF j] left_over_less [of p' p s None] by simp
  next
    fix s assume p': "p' = launch s p" and j: "wp_jobs p s = Some Pausing"
    then show ?thesis
      using assms(2) slot [OF j] left_over_less [of p' p s "Some (Registering (wp_next p))"] by (simp add: launch_def)
  qed
qed

lemma killed_progress:
  assumes ok: "pool_ok n p" and stop: "wp_stop p = Some ps" and dead: "\<forall>pid\<in>set ps. pid \<notin> set (wp_live p)" and "wp_wg p \<noteq> 0"
  shows "\<exists>p'. job_step p p'"
proof -
  obtain slot j where j: "wp_jobs p slot = Some j" using assms(4) by (auto simp: wp_wg_def filter_empty_conv)
  show ?thesis
  proof (cases j)
    case (Supervising pid)
    then have "pid \<in> set ps" using ok j stop by (auto simp: pool_ok_def entered_def)
    then show ?thesis using dead job_step.notices [of p slot pid] j Supervising by blast
  qed (use j job_step.registers job_step.gives_up in blast)+
qed

definition spent :: "worker_pool \<Rightarrow> bool" where
  "spent p \<longleftrightarrow> wp_stopping p \<and> (\<exists>ps. wp_stop p = Some ps \<and> (\<forall>pid\<in>set ps. pid \<notin> set (wp_live p)))"

lemma spent_job_step: "pool_ok n p \<Longrightarrow> spent p \<Longrightarrow> job_step p p' \<Longrightarrow> spent p'"
  by (erule job_stepE) (fastforce simp: spent_def pool_ok_def issued_def register_def exited_def launch_def)+

lemma spent_kill: "pool_ok n p \<Longrightarrow> wp_stop p = Some ps \<Longrightarrow> spent (stop_kill p)"
  by (simp add: spent_def stop_kill_def pool_ok_def entered_def)

lemma stop_winds_down:
  assumes "pool_ok n p" and "spent p" and "(job_step ^^ k) p p'"
  shows "pool_ok n p' \<and> spent p' \<and> k + left_over p' \<le> left_over p"
  using assms(3)
proof (induction k arbitrary: p')
  case (Suc k)
  then obtain q where q: "(job_step ^^ k) p q" "job_step q p'" by auto
  from Suc.IH [OF q(1)] have "pool_ok n q" "spent q" "k + left_over q \<le> left_over p" by auto
  then show ?case
    using pool_ok_job [OF _ q(2)] spent_job_step [OF _ _ q(2)] stopping_job_step [OF _ _ q(2)] by (fastforce simp: spent_def)
qed (use assms in simp)


definition demo_pool_up :: worker_pool where
  "demo_pool_up = register 1 1 ((launch 1 (register 0 0 ((launch 0 new_pool)\<lparr>wp_spawned := 1\<rparr>)))\<lparr>wp_spawned := 2\<rparr>)"

definition demo_pool_down :: worker_pool where
  "demo_pool_down = stop_begin (demo_pool_up\<lparr>wp_live := removeAll 0 (wp_live demo_pool_up)\<rparr>)"

lemma demo_pool_reached: "(pool_step 2)\<^sup>*\<^sup>* new_pool demo_pool_down"
proof -
  let ?one = "register 0 0 ((launch 0 new_pool)\<lparr>wp_spawned := 1\<rparr>)"
  have "pool_step 2 new_pool ?one" using pool_step.spawn [of new_pool 2] by (simp add: new_pool_def)
  moreover have "pool_step 2 ?one demo_pool_up"
    using pool_step.spawn [of ?one 2] by (simp add: new_pool_def launch_def register_def demo_pool_up_def numeral_2_eq_2)
  moreover have "pool_step 2 demo_pool_up (demo_pool_up\<lparr>wp_live := removeAll 0 (wp_live demo_pool_up)\<rparr>)"
    by (rule pool_step.dies) (simp add: demo_pool_up_def new_pool_def launch_def register_def)
  moreover have "pool_step 2 (demo_pool_up\<lparr>wp_live := removeAll 0 (wp_live demo_pool_up)\<rparr>) demo_pool_down"
    unfolding demo_pool_down_def
    by (rule pool_step.stops) (simp add: demo_pool_up_def new_pool_def launch_def register_def)
  ultimately show ?thesis by (meson converse_rtranclp_into_rtranclp rtranclp.rtrancl_refl)
qed


end
