(* ===== verification/Relab_Diff.thy ===== *)
theory Relab_Diff
  imports Relab_Replay
begin

text \<open>
  The comparison of two reconstructed runs (\<^verbatim>\<open>internal/replay/diff.go\<close>) and of a journal
  with the artifacts table (\<^verbatim>\<open>StoredArtifacts\<close>, \<^verbatim>\<open>VerifyArtifacts\<close> of \<^verbatim>\<open>load.go\<close>).  A report is
  the list of divergences in the order the code adds them.  The facts characterise an
  empty report: it means agreement on everything the comparison promises to look at.
\<close>

section \<open>Reports\<close>

datatype category =
    CategoryTerminalState | CategoryMissingEvent | CategoryExtraEvent | CategoryOrdering
  | CategoryArtifactHash | CategoryAttemptCount | CategoryState

record divergence =
  d_Category :: category
  d_Subject :: string
  d_Expected :: string
  d_Actual :: string
  d_Detail :: string

type_synonym report = "divergence list"

definition Match :: "report \<Rightarrow> bool" where
  "Match r \<longleftrightarrow> length r = 0"

definition diverge :: "category \<Rightarrow> string \<Rightarrow> string \<Rightarrow> string \<Rightarrow> string \<Rightarrow> divergence" where
  "diverge c subj e a det =
     \<lparr>d_Category = c, d_Subject = subj, d_Expected = e, d_Actual = a, d_Detail = det\<rparr>"

definition short :: "string \<Rightarrow> string" where
  "short hash = (if length hash > 12 then take 12 hash else if hash = [] then ''(none)'' else hash)"

section \<open>Comparison\<close>

text \<open>A Go map filled by assignment in a loop: the last artifact of a name stays.\<close>

definition artifactsByName :: "artifact list \<Rightarrow> (string \<times> artifact) list" where
  "artifactsByName arts = fold (\<lambda>a m. AList.update (art_Name a) a m) arts []"

definition compareArtifact :: "string \<Rightarrow> string \<Rightarrow> artifact option \<Rightarrow> artifact option \<Rightarrow> report" where
  "compareArtifact task name w g =
     (case (w, g) of
        (Some w, None) \<Rightarrow> [diverge CategoryArtifactHash (task @ ''/'' @ name) (short (art_SHA256 w)) ''absent'' []]
      | (None, Some g) \<Rightarrow> [diverge CategoryArtifactHash (task @ ''/'' @ name) ''absent'' (short (art_SHA256 g)) []]
      | (Some w, Some g) \<Rightarrow>
          if art_SHA256 w \<noteq> art_SHA256 g
          then [diverge CategoryArtifactHash (task @ ''/'' @ name) (short (art_SHA256 w)) (short (art_SHA256 g))
                 ''same inputs produced different bytes: the handler is not deterministic, or it depends on something outside the recorded inputs'']
          else []
      | (None, None) \<Rightarrow> [])"

definition compareArtifacts :: "string \<Rightarrow> artifact list \<Rightarrow> artifact list \<Rightarrow> report" where
  "compareArtifacts task want got =
     (let wantByName = artifactsByName want;
          gotByName = artifactsByName got;
          names = sort (map fst wantByName
                        @ filter (\<lambda>n. map_of wantByName n = None) (map fst gotByName))
      in concat (map (\<lambda>n. compareArtifact task n (map_of wantByName n) (map_of gotByName n)) names))"

definition compareTask :: "run_state \<Rightarrow> run_state \<Rightarrow> string \<Rightarrow> report" where
  "compareTask expected actual name =
     (case map_of (rs_Tasks expected) name of None \<Rightarrow> []
      | Some want \<Rightarrow>
         (case map_of (rs_Tasks actual) name of
            None \<Rightarrow> [diverge CategoryMissingEvent name (ts_Status want) ''absent''
                      ''the replayed journal never mentions this task'']
          | Some got \<Rightarrow>
              (if ts_Status want \<noteq> ts_Status got
               then [diverge CategoryState name (ts_Status want) (ts_Status got) []] else [])
              @ (if ts_Attempts want \<noteq> ts_Attempts got
                 then [diverge CategoryAttemptCount name (show_int (ts_Attempts want)) (show_int (ts_Attempts got))
                        ''the two runs met different failures''] else [])
              @ compareArtifacts name (ts_Artifacts want) (ts_Artifacts got)))"

definition compareTasks :: "run_state \<Rightarrow> run_state \<Rightarrow> report" where
  "compareTasks expected actual =
     concat (map (compareTask expected actual) (TaskNames expected))
     @ concat (map (\<lambda>name.
         if map_of (rs_Tasks expected) name = None
         then [diverge CategoryExtraEvent name ''absent''
                (case map_of (rs_Tasks actual) name of Some t \<Rightarrow> ts_Status t | None \<Rightarrow> [])
                ''the replayed journal mentions a task the original never had'']
         else []) (TaskNames actual))"

definition show_fault :: "fault_state \<Rightarrow> string" where
  "show_fault f = fs_Type f @ '' at '' @ fs_Point f @ '' on '' @ fs_Task f"

fun compareFaultsFrom :: "nat \<Rightarrow> fault_state list \<Rightarrow> fault_state list \<Rightarrow> report" where
  "compareFaultsFrom i (w # ws) (g # gs) =
     (if w = g then [] else [diverge CategoryOrdering (''fault['' @ show_nat i @ '']'') (show_fault w) (show_fault g) []])
     @ compareFaultsFrom (Suc i) ws gs"
| "compareFaultsFrom i _ _ = []"

definition compareFaults :: "run_state \<Rightarrow> run_state \<Rightarrow> report" where
  "compareFaults expected actual =
     (if length (rs_Faults expected) \<noteq> length (rs_Faults actual)
      then [diverge CategoryState ''faults'' (show_nat (length (rs_Faults expected)))
             (show_nat (length (rs_Faults actual))) ''the same scenario and seed must inject the same faults'']
      else compareFaultsFrom 0 (rs_Faults expected) (rs_Faults actual))"

definition Compare :: "run_state \<Rightarrow> run_state \<Rightarrow> report" where
  "Compare expected actual =
     (if rs_Status expected \<noteq> rs_Status actual
      then [diverge CategoryTerminalState ''run'' (rs_Status expected) (rs_Status actual)
             ''the two runs ended differently; one recovered and the other did not''] else [])
     @ (if rs_DefinitionHash expected \<noteq> rs_DefinitionHash actual
        then [diverge CategoryState ''definition'' (short (rs_DefinitionHash expected)) (short (rs_DefinitionHash actual))
               ''the runs used different workflow definitions, so nothing below is comparable''] else [])
     @ (if rs_Seed expected \<noteq> rs_Seed actual
        then [diverge CategoryState ''seed'' (show_int (rs_Seed expected)) (show_int (rs_Seed actual))
               ''different seeds drive different fault decisions''] else [])
     @ compareTasks expected actual
     @ compareFaults expected actual
     @ (if length (rs_SkippedEffects expected) \<noteq> length (rs_SkippedEffects actual)
        then [diverge CategoryState ''skipped-effects'' (show_nat (length (rs_SkippedEffects expected)))
               (show_nat (length (rs_SkippedEffects actual)))
               ''the idempotency ledger suppressed a different number of repeats''] else [])"

section \<open>The artifacts table\<close>

text \<open>
  \<open>StoredArtifacts\<close> groups the rows of a run by task; the query orders them by task and
  name, so within a task they come in name order.
\<close>

definition artifact_of_row :: "artifact_row \<Rightarrow> artifact" where
  "artifact_of_row a = \<lparr>art_Name = a_name a, art_SHA256 = a_sha256 a, art_Size = a_size a,
                        art_ContentType = a_content_type a\<rparr>"

definition StoredArtifacts :: "uuid \<Rightarrow> db \<Rightarrow> string \<Rightarrow> artifact list" where
  "StoredArtifacts rid db task =
     map artifact_of_row (sort_key a_name (filter (\<lambda>a. a_run_id a = rid \<and> a_task_name a = task) (artifacts db)))"

definition VerifyArtifacts :: "run_state \<Rightarrow> (string \<Rightarrow> artifact list) \<Rightarrow> report" where
  "VerifyArtifacts state table =
     concat (map (\<lambda>name.
       map (\<lambda>d. d\<lparr>d_Detail := ''the event journal and the artifacts table disagree; they are written in one transaction, so a row has been changed outside ReLab''\<rparr>)
         (compareArtifacts name (ts_Artifacts (task_of state name)) (table name)))
       (TaskNames state))"

section \<open>What an empty report means\<close>

definition artifact_hash :: "artifact list \<Rightarrow> string \<Rightarrow> string option" where
  "artifact_hash arts n = map_option art_SHA256 (map_of (artifactsByName arts) n)"

definition same_artifacts :: "artifact list \<Rightarrow> artifact list \<Rightarrow> bool" where
  "same_artifacts w g \<longleftrightarrow> artifact_hash w = artifact_hash g"

definition same_task :: "task_state \<Rightarrow> task_state \<Rightarrow> bool" where
  "same_task w g \<longleftrightarrow> ts_Status w = ts_Status g \<and> ts_Attempts w = ts_Attempts g
                   \<and> same_artifacts (ts_Artifacts w) (ts_Artifacts g)"

definition same_outcome :: "run_state \<Rightarrow> run_state \<Rightarrow> bool" where
  "same_outcome e a \<longleftrightarrow>
     rs_Status e = rs_Status a \<and> rs_DefinitionHash e = rs_DefinitionHash a \<and> rs_Seed e = rs_Seed a
     \<and> (\<forall>n. rel_option same_task (map_of (rs_Tasks e) n) (map_of (rs_Tasks a) n))
     \<and> rs_Faults e = rs_Faults a
     \<and> length (rs_SkippedEffects e) = length (rs_SkippedEffects a)"

lemma compareArtifact_Nil:
  "compareArtifact task n w g = [] \<longleftrightarrow> map_option art_SHA256 w = map_option art_SHA256 g"
  by (auto simp: compareArtifact_def split: option.splits)

lemma map_of_None_keys: "map_of m n = None \<longleftrightarrow> n \<notin> set (map fst m)"
  by (simp add: map_of_eq_None_iff)

lemma compareArtifacts_Nil: "compareArtifacts task w g = [] \<longleftrightarrow> same_artifacts w g"
proof -
  let ?W = "artifactsByName w" and ?G = "artifactsByName g"
  have "compareArtifacts task w g = [] \<longleftrightarrow>
      (\<forall>n \<in> set (map fst ?W) \<union> set (map fst ?G). artifact_hash w n = artifact_hash g n)"
    by (auto simp: compareArtifacts_def Let_def compareArtifact_Nil artifact_hash_def map_of_eq_None_iff)
  also have "\<dots> \<longleftrightarrow> (\<forall>n. artifact_hash w n = artifact_hash g n)"
  proof -
    have "artifact_hash w n = artifact_hash g n" if "n \<notin> set (map fst ?W) \<union> set (map fst ?G)" for n
    proof -
      from that have "map_of ?W n = None" "map_of ?G n = None" by (simp_all add: map_of_None_keys)
      then show ?thesis by (simp add: artifact_hash_def)
    qed
    then show ?thesis by blast
  qed
  finally show ?thesis by (auto simp: same_artifacts_def)
qed

lemma compareTask_Nil:
  "compareTask e a n = [] \<longleftrightarrow>
     (map_of (rs_Tasks e) n = None \<or> rel_option same_task (map_of (rs_Tasks e) n) (map_of (rs_Tasks a) n))"
  by (auto simp: compareTask_def same_task_def compareArtifacts_Nil split: option.splits)

lemma concat_guard: "concat (map (\<lambda>n. if c n then [f n] else []) xs) = [] \<longleftrightarrow> (\<forall>n\<in>set xs. \<not> c n)"
  by (induction xs) auto

lemma concat_map_Nil: "concat (map f xs) = [] \<longleftrightarrow> (\<forall>n\<in>set xs. f n = [])"
  by (induction xs) auto

lemma set_TaskNames: "n \<in> set (TaskNames s) \<longleftrightarrow> map_of (rs_Tasks s) n \<noteq> None"
  by (simp add: TaskNames_def map_of_eq_None_iff)

lemma compareTasks_Nil:
  "compareTasks e a = [] \<longleftrightarrow> (\<forall>n. rel_option same_task (map_of (rs_Tasks e) n) (map_of (rs_Tasks a) n))"
proof -
  have each: "(map_of (rs_Tasks e) n \<noteq> None \<longrightarrow> compareTask e a n = [])
      \<and> (map_of (rs_Tasks a) n \<noteq> None \<longrightarrow> map_of (rs_Tasks e) n \<noteq> None)
    \<longleftrightarrow> rel_option same_task (map_of (rs_Tasks e) n) (map_of (rs_Tasks a) n)" for n
    by (cases "map_of (rs_Tasks e) n"; cases "map_of (rs_Tasks a) n") (simp_all add: compareTask_Nil)
  have "compareTasks e a = [] \<longleftrightarrow>
      (\<forall>n. (map_of (rs_Tasks e) n \<noteq> None \<longrightarrow> compareTask e a n = [])
         \<and> (map_of (rs_Tasks a) n \<noteq> None \<longrightarrow> map_of (rs_Tasks e) n \<noteq> None))"
    unfolding compareTasks_def append_is_Nil_conv concat_guard concat_map_Nil Ball_def set_TaskNames by blast
  then show ?thesis unfolding each .
qed

lemma compareFaultsFrom_Nil: "length ws = length gs \<Longrightarrow> compareFaultsFrom i ws gs = [] \<longleftrightarrow> ws = gs"
  by (induction i ws gs rule: compareFaultsFrom.induct) auto

lemma Compare_Match: "Match (Compare e a) \<longleftrightarrow> same_outcome e a"
  by (auto simp: Match_def Compare_def same_outcome_def compareTasks_Nil compareFaults_def compareFaultsFrom_Nil)

lemma VerifyArtifacts_Nil:
  "VerifyArtifacts s table = [] \<longleftrightarrow>
     (\<forall>n \<in> fst ` set (rs_Tasks s). same_artifacts (ts_Artifacts (task_of s n)) (table n))"
  by (auto simp: VerifyArtifacts_def TaskNames_def compareArtifacts_Nil)

lemma same_outcome_equiv: "equivp same_outcome"
proof (rule equivpI)
  have t: "reflp same_task" "symp same_task" "transp same_task"
    by (auto simp: reflp_def symp_def transp_def same_task_def same_artifacts_def)
  then have r: "reflp (rel_option same_task)" "symp (rel_option same_task)" "transp (rel_option same_task)"
    by (simp_all add: option.rel_reflp option.rel_symp option.rel_transp)
  show "reflp same_outcome" using r(1) by (simp add: reflp_def same_outcome_def)
  show "symp same_outcome" using r(2) by (auto simp: symp_def same_outcome_def)
  show "transp same_outcome" using r(3) unfolding transp_def same_outcome_def by metis
qed

section \<open>Properties\<close>

text \<open>
  (C18) A comparison reports a match exactly when the two runs agree on status, definition,
  seed, the set of tasks, each task's status, attempt count and artifact hashes by name,
  the injected faults in order, and the number of suppressed effects.
\<close>

theorem compare_match: "Match (Compare expected actual) \<longleftrightarrow> same_outcome expected actual"
  by (rule Compare_Match)

end
