(* ===== verification/Relab_Cli.thy ===== *)
theory Relab_Cli
  imports Relab_Pool Relab_Diff
begin

text \<open>
  The commands of \<^verbatim>\<open>internal/cli\<close> and the exit status of \<^verbatim>\<open>cmd/relab/main.go\<close>: what each calls, in
  which order, where it stops, and whether it ends in an error.  A command is a function on
  the world of the executor: between two of its queries other processes run.  What it prints
  is kept as the values it prints; flags arrive parsed.
\<close>

section \<open>Errors and the exit status\<close>

datatype cli_error =
    AlreadyReported
  | CliOpen open_error | CliConfig config_error | CliMigrate mig_error | CliStore error | CliLoad load_error
  | CliScenario scenario_error | CliFile string string | CliParse string parse_error
  | NotARunID string | CliLocal local_error | CliList list_error | CliRegistry registry_error
  | ScenarioRequired | RandomScenario string | KillsThisProcess string | Unfinished uuid | SpawnFailed string | RunsBelowOne
  | NoSchemaVersion

text \<open>The status of the process, and whether \<^verbatim>\<open>main\<close> prints the error.\<close>

definition main :: "cli_error option \<Rightarrow> nat \<times> bool" where
  "main err = (case err of None \<Rightarrow> (0, False) | Some e \<Rightarrow> (1, e \<noteq> AlreadyReported))"

section \<open>The surroundings of a command\<close>

record 's host_env =
  he_getenv :: environ
  he_driver :: pool_driver
  he_dsn :: string
  he_parseDuration :: "string \<Rightarrow> duration option"
  he_uuid :: "string \<Rightarrow> uuid option"
  he_readFile :: "string \<Rightarrow> string + string"
  he_stat :: "string \<Rightarrow> bool"
  he_scenario_decode :: "string \<Rightarrow> string + scenario"
  he_scenario_marshal :: "scenario \<Rightarrow> string + string"
  he_migrations :: "'s mig_env"
  he_executor :: executor
  he_self :: "string option"
  he_spawn :: "nat \<Rightarrow> string option"

text \<open>Identifiers and random bits drawn for one run.\<close>

record fresh =
  fr_bits :: "64 word"
  fr_run :: uuid
  fr_task :: "nat \<Rightarrow> uuid"
  fr_worker :: uuid

text \<open>The state a command works on: the tables with the processes around them, and the schema.\<close>

type_synonym 's place = "world \<times> 's schema_db"

definition open_db :: "'s host_env \<Rightarrow> cli_error option" where
  "open_db h = (case openDB (he_driver h) (he_getenv h) (he_dsn h) of Inl e \<Rightarrow> Some (CliOpen e) | Inr _ \<Rightarrow> None)"

text \<open>\<^verbatim>\<open>engine.New\<close> with timing from the environment, or with none.\<close>

definition engine_with :: "'s host_env \<Rightarrow> timing \<Rightarrow> cli_error + executor" where
  "engine_with h t =
     (case New t of
        Inl e \<Rightarrow> Inl (CliConfig e)
      | Inr t' \<Rightarrow> Inr ((he_executor h)\<lparr>ex_env := (ex_env (he_executor h))\<lparr>env_timing := t'\<rparr>\<rparr>))"

definition engine_from_env :: "'s host_env \<Rightarrow> cli_error + executor" where
  "engine_from_env h =
     (case TimingFromEnv (he_parseDuration h) (he_getenv h) of
        Inl e \<Rightarrow> Inl (CliConfig e)
      | Inr t \<Rightarrow> engine_with h t)"

definition load_scenario :: "'s host_env \<Rightarrow> string \<Rightarrow> cli_error + scenario" where
  "load_scenario h path =
     (case LoadScenario (he_readFile h) (he_scenario_decode h) (he_scenario_marshal h) (env_sha256 (ex_env (he_executor h))) path of
        Inl e \<Rightarrow> Inl (CliScenario e)
      | Inr sc \<Rightarrow> Inr sc)"

text \<open>What \<^verbatim>\<open>server\<close>, \<^verbatim>\<open>worker\<close> and \<^verbatim>\<open>test\<close> begin with: connect, migrate, build the engine.\<close>

definition startup :: "'s host_env \<Rightarrow> 's schema_db \<Rightarrow> (cli_error + executor) \<times> 's schema_db" where
  "startup h sd =
     (case open_db h of
        Some e \<Rightarrow> (Inl e, sd)
      | None \<Rightarrow>
         (case Migrate (he_migrations h) sd of
            ((_, Some e), sd1) \<Rightarrow> (Inl (CliMigrate e), sd1)
          | ((_, None), sd1) \<Rightarrow> (engine_from_env h, sd1)))"

section \<open>migrate\<close>

text \<open>\<open>SchemaVersion\<close> is nothing when its query fails.\<close>

definition migrateCmd :: "'s host_env \<Rightarrow> 's schema_db \<Rightarrow> (cli_error + int list \<times> int) \<times> 's schema_db" where
  "migrateCmd h sd =
     (case open_db h of
        Some e \<Rightarrow> (Inl e, sd)
      | None \<Rightarrow>
         (case Migrate (he_migrations h) sd of
            ((_, Some e), sd') \<Rightarrow> (Inl (CliMigrate e), sd')
          | ((applied, None), sd') \<Rightarrow>
             (case SchemaVersion sd' of
                None \<Rightarrow> (Inl NoSchemaVersion, sd')
              | Some v \<Rightarrow> (Inr (applied, v), sd'))))"

section \<open>Workflows\<close>

definition parseFile :: "'s host_env \<Rightarrow> string \<Rightarrow> bool \<Rightarrow> cli_error + wf_definition" where
  "parseFile h path checkHandlers =
     (case he_readFile h path of
        Inl e \<Rightarrow> Inl (CliFile path e)
      | Inr data \<Rightarrow>
          let x = he_executor h;
              handlers = (if checkHandlers then Some (Registry_Names (ex_registry x)) else None)
          in case Parse (env_yaml_decode (ex_env x)) (env_yaml_marshal (ex_env x)) (env_sha256 (ex_env x)) data handlers of
               Inl e \<Rightarrow> Inl (CliParse path e)
             | Inr def \<Rightarrow> Inr def)"

definition resolveWorkflow ::
  "'s host_env \<Rightarrow> executor \<Rightarrow> uuid \<Rightarrow> string \<Rightarrow> world \<Rightarrow> (cli_error + workflow_row \<times> wf_definition) \<times> world" where
  "resolveWorkflow h x wid arg w =
     (if looksLikePath (he_stat h) arg then
        (case parseFile h arg True of
           Inl e \<Rightarrow> (Inl e, w)
         | Inr def \<Rightarrow>
            (case on_db (\<lambda>now. RegisterWorkflow (ex_env x) wid now def) w of
               (Inl e, w1) \<Rightarrow> (Inl (CliStore e), w1)
             | (Inr wfl, w1) \<Rightarrow> (Inr (wfl, def), w1)))
      else
        (case splitNameVersion arg of (name, version) \<Rightarrow>
           (case read_db (WorkflowByName name version) w of
              (Inl e, w1) \<Rightarrow> (Inl (CliStore e), w1)
            | (Inr wfl, w1) \<Rightarrow>
               (case read_db (Definition (ex_env x) (w_id wfl)) w1 of
                  (Inl e, w2) \<Rightarrow> (Inl (CliStore e), w2)
                | (Inr def, w2) \<Rightarrow> (Inr (wfl, def), w2)))))"

definition workflowValidateCmd :: "'s host_env \<Rightarrow> string \<Rightarrow> bool \<Rightarrow> cli_error + wf_definition" where
  "workflowValidateCmd h path checkHandlers = parseFile h path checkHandlers"

text \<open>\<^verbatim>\<open>wf.Hash[:12]\<close> panics for a shorter hash; printing is left out, so it does not show here.\<close>

definition workflowRegisterCmd :: "'s host_env \<Rightarrow> uuid \<Rightarrow> string \<Rightarrow> world \<Rightarrow> (cli_error + workflow_row) \<times> world" where
  "workflowRegisterCmd h wid path w =
     (case parseFile h path True of
        Inl e \<Rightarrow> (Inl e, w)
      | Inr def \<Rightarrow>
         (case open_db h of
            Some e \<Rightarrow> (Inl e, w)
          | None \<Rightarrow>
             (case engine_with h zero_timing of
                Inl e \<Rightarrow> (Inl e, w)
              | Inr x \<Rightarrow>
                 (case on_db (\<lambda>now. RegisterWorkflow (ex_env x) wid now def) w of
                    (Inl e, w1) \<Rightarrow> (Inl (CliStore e), w1)
                  | (Inr wfl, w1) \<Rightarrow> (Inr wfl, w1)))))"

definition with_engine :: "'s host_env \<Rightarrow> (executor \<Rightarrow> world \<Rightarrow> (cli_error + 'a) \<times> world) \<Rightarrow> world \<Rightarrow> (cli_error + 'a) \<times> world" where
  "with_engine h k w =
     (case open_db h of
        Some e \<Rightarrow> (Inl e, w)
      | None \<Rightarrow> (case engine_with h zero_timing of Inl e \<Rightarrow> (Inl e, w) | Inr x \<Rightarrow> k x w))"

definition workflowListCmd :: "'s host_env \<Rightarrow> world \<Rightarrow> (cli_error + workflow_row list) \<times> world" where
  "workflowListCmd h = with_engine h (\<lambda>_ w. case read_db (ListWorkflows 100) w of (ws, w1) \<Rightarrow> (Inr ws, w1))"

definition workersCmd :: "'s host_env \<Rightarrow> world \<Rightarrow> (cli_error + worker_row list) \<times> world" where
  "workersCmd h = with_engine h (\<lambda>_ w. case read_db ListWorkers w of (ws, w1) \<Rightarrow> (Inr ws, w1))"

definition ToUpper :: "string \<Rightarrow> string" where
  "ToUpper s = map (\<lambda>c. let n = (of_char c :: nat) in if 97 \<le> n \<and> n \<le> 122 then char_of (n - 32) else c) s"

definition runsListCmd :: "'s host_env \<Rightarrow> string \<Rightarrow> string \<Rightarrow> int \<Rightarrow> world \<Rightarrow> (cli_error + run list) \<times> world" where
  "runsListCmd h status workflowName limit =
     with_engine h (\<lambda>_ w. case read_db (ListRuns (ToUpper status) workflowName limit) w of (rs, w1) \<Rightarrow> (Inr rs, w1))"

section \<open>run inspect, run cancel\<close>

definition runInspectCmd :: "'s host_env \<Rightarrow> string \<Rightarrow> world \<Rightarrow> (cli_error + run \<times> event list) \<times> world" where
  "runInspectCmd h arg w =
     (case he_uuid h arg of
        None \<Rightarrow> (Inl (NotARunID arg), w)
      | Some rid \<Rightarrow>
          with_engine h (\<lambda>_ w.
            case read_db (RunByID rid) w of
              (Inl e, w1) \<Rightarrow> (Inl (CliStore e), w1)
            | (Inr run, w1) \<Rightarrow>
               (case read_db (Read rid) w1 of
                  (Inl e, w2) \<Rightarrow> (Inl (CliStore e), w2)
                | (Inr evs, w2) \<Rightarrow> (Inr (run, evs), w2))) w)"

definition runCancelCmd :: "'s host_env \<Rightarrow> string \<Rightarrow> string \<Rightarrow> world \<Rightarrow> (cli_error + uuid) \<times> world" where
  "runCancelCmd h arg reason w =
     (case he_uuid h arg of
        None \<Rightarrow> (Inl (NotARunID arg), w)
      | Some rid \<Rightarrow>
          with_engine h (\<lambda>_ w.
            case on_db (\<lambda>now. CancelRun rid reason now) w of
              (Inl e, w1) \<Rightarrow> (Inl (CliStore e), w1)
            | (Inr _, w1) \<Rightarrow> (Inr rid, w1)) w)"

section \<open>replay\<close>

datatype replay_output = Reconstructed run_state | Compared run_state Relab_Diff.report

text \<open>
  What is printed, if anything, and the error the command ends in.  The state, the stored
  artifacts and the state again are three reads.
\<close>

definition renderReport :: "run_state \<Rightarrow> Relab_Diff.report \<Rightarrow> replay_output option \<times> cli_error option" where
  "renderReport state rep = (Some (Compared state rep), if Match rep then None else Some AlreadyReported)"

definition replayCmd :: "'s host_env \<Rightarrow> bool \<Rightarrow> string \<Rightarrow> world \<Rightarrow> (replay_output option \<times> cli_error option) \<times> world" where
  "replayCmd h diff arg w =
     (case he_uuid h arg of
        None \<Rightarrow> ((None, Some (NotARunID arg)), w)
      | Some rid \<Rightarrow>
         (case open_db h of
            Some e \<Rightarrow> ((None, Some e), w)
          | None \<Rightarrow>
             (case read_db (Load rid) w of
                (Inl e, w1) \<Rightarrow> ((None, Some (CliLoad e)), w1)
              | (Inr state, w1) \<Rightarrow>
                  if \<not> diff then ((Some (Reconstructed state), None), w1)
                  else (case read_db (StoredArtifacts rid) w1 of
                    (table, w2) \<Rightarrow>
                      (case read_db (Load rid) w2 of
                         (Inl e, w3) \<Rightarrow> ((None, Some (CliLoad e)), w3)
                       | (Inr again, w3) \<Rightarrow> (renderReport state (VerifyArtifacts state table @ Compare state again), w3))))))"

section \<open>export\<close>

record snapshot_run =
  sr_Run :: run
  sr_Tasks :: "task list"
  sr_Events :: "event list"

record snapshot =
  sn_RecordedAt :: time
  sn_Version :: string
  sn_Note :: string
  sn_Runs :: "snapshot_run list"
  sn_Workers :: "worker_row list"
  sn_Stats :: stats

fun parse_ids :: "(string \<Rightarrow> uuid option) \<Rightarrow> string list \<Rightarrow> cli_error + uuid list" where
  "parse_ids parse_uuid [] = Inr []"
| "parse_ids parse_uuid (raw # args) =
     (case parse_uuid raw of
        None \<Rightarrow> Inl (NotARunID raw)
      | Some i \<Rightarrow> (case parse_ids parse_uuid args of Inl e \<Rightarrow> Inl e | Inr ids \<Rightarrow> Inr (i # ids)))"

definition exportIDs :: "(string \<Rightarrow> uuid option) \<Rightarrow> string list \<Rightarrow> int \<Rightarrow> world \<Rightarrow> (cli_error + uuid list) \<times> world" where
  "exportIDs parse_uuid args limit w =
     (if args \<noteq> [] then (parse_ids parse_uuid args, w)
      else case read_db (ListRuns [] [] limit) w of (rs, w1) \<Rightarrow> (Inr (map run_ID rs), w1))"

fun export_loop :: "uuid list \<Rightarrow> world \<Rightarrow> (cli_error + snapshot_run list) \<times> world" where
  "export_loop [] w = (Inr [], w)"
| "export_loop (i # ids) w =
     (case read_db (RunByID i) w of
        (Inl e, w1) \<Rightarrow> (Inl (CliStore e), w1)
      | (Inr run, w1) \<Rightarrow>
         (case read_db (tasksOf i) w1 of (ts, w2) \<Rightarrow>
            (case read_db (Read i) w2 of
               (Inl e, w3) \<Rightarrow> (Inl (CliStore e), w3)
             | (Inr evs, w3) \<Rightarrow>
                (case export_loop ids w3 of
                   (Inl e, w4) \<Rightarrow> (Inl e, w4)
                 | (Inr rs, w4) \<Rightarrow> (Inr (\<lparr>sr_Run = run, sr_Tasks = ts, sr_Events = evs\<rparr> # rs), w4)))))"

text \<open>\<open>now\<close> is the clock of the exporting process.\<close>

definition exportCmd :: "'s host_env \<Rightarrow> string \<Rightarrow> time \<Rightarrow> string list \<Rightarrow> int \<Rightarrow> string \<Rightarrow> world \<Rightarrow> (cli_error + snapshot) \<times> world" where
  "exportCmd h version now args limit note w =
     (case open_db h of
        Some e \<Rightarrow> (Inl e, w)
      | None \<Rightarrow>
         (case engine_from_env h of
            Inl e \<Rightarrow> (Inl e, w)
          | Inr x \<Rightarrow>
             (case exportIDs (he_uuid h) args limit w of
                (Inl e, w1) \<Rightarrow> (Inl e, w1)
              | (Inr ids, w1) \<Rightarrow>
                 (case export_loop ids w1 of
                    (Inl e, w2) \<Rightarrow> (Inl e, w2)
                  | (Inr rs, w2) \<Rightarrow>
                     (case read_db ListWorkers w2 of (wks, w3) \<Rightarrow>
                     (case read_db Stats w3 of (st, w4) \<Rightarrow>
                        (Inr \<lparr>sn_RecordedAt = now, sn_Version = version, sn_Note = note, sn_Runs = rs, sn_Workers = wks, sn_Stats = st\<rparr>,
                         w4)))))))"

section \<open>test\<close>

text \<open>The join of the attempts with their tasks.\<close>

definition effectAttempts :: "uuid \<Rightarrow> db \<Rightarrow> int" where
  "effectAttempts rid db =
     int (length (filter (\<lambda>(a, t). t_id t = ta_task_id a \<and> t_run_id t = rid
         \<and> t_name t \<in> set (map se_task_name (filter (\<lambda>s. se_run_id s = rid) (side_effects db))))
       (List.product (task_attempts db) (tasks db))))"

definition countDuplicateEffects :: "uuid \<Rightarrow> event list \<Rightarrow> world \<Rightarrow> int \<times> world" where
  "countDuplicateEffects rid evs w =
     (case read_db (CountForRun rid) w of (recorded, w1) \<Rightarrow>
        let suppressed = int (length (filter (\<lambda>e. ev_Type e = ESideEffectSkipped) evs)) in
        (case read_db (effectAttempts rid) w1 of (attempts, w2) \<Rightarrow>
           let duplicates = attempts - recorded - suppressed in
           (if duplicates < 0 then 0 else duplicates, w2)))"

definition evaluateRun :: "scenario \<Rightarrow> uuid \<Rightarrow> world \<Rightarrow> (cli_error + Relab_Assert.report) \<times> world" where
  "evaluateRun sc rid w =
     (case read_db (Read rid) w of
        (Inl e, w1) \<Rightarrow> (Inl (CliStore e), w1)
      | (Inr evs, w1) \<Rightarrow>
         (case Reduce rid evs of
            Inl e \<Rightarrow> (Inl (CliLoad (LoadReplay e)), w1)
          | Inr state \<Rightarrow>
             (case countDuplicateEffects rid evs w1 of
                (duplicates, w2) \<Rightarrow> (Inr (Evaluate sc state evs duplicates), w2))))"

definition scenario_options :: "scenario \<Rightarrow> int \<Rightarrow> create_run_options" where
  "scenario_options sc seedOverride =
     \<lparr>co_ScenarioName = sc_Name sc, co_ScenarioHash = sc_Hash sc,
      co_Seed = (if seedOverride \<noteq> 0 then seedOverride else sc_Seed sc), co_CorrelationID = [], co_Now = zero_time\<rparr>"

definition create_run :: "executor \<Rightarrow> fresh \<Rightarrow> workflow_row \<Rightarrow> wf_definition \<Rightarrow> create_run_options \<Rightarrow> world \<Rightarrow> (error + run) \<times> world" where
  "create_run x f wfl def opts = on_db (\<lambda>now. CreateRun (ex_env x) (fr_bits f) (fr_run f) (fr_task f) now wfl def opts)"

definition runScenario ::
  "nat \<Rightarrow> executor \<Rightarrow> fresh \<Rightarrow> workflow_row \<Rightarrow> wf_definition \<Rightarrow> scenario \<Rightarrow> int \<Rightarrow> world
   \<Rightarrow> (cli_error + Relab_Assert.report) option \<times> world" where
  "runScenario fuel x f wfl def sc seedOverride w =
     (case create_run x f wfl def (scenario_options sc seedOverride) w of
        (Inl e, w1) \<Rightarrow> (Some (Inl (CliStore e)), w1)
      | (Inr run, w1) \<Rightarrow>
         (case DriveWithFaults fuel x (fr_worker f) (run_ID run) (Some (StaticLookup (Some sc))) w1 of
            (None, w2) \<Rightarrow> (None, w2)
          | (Some (Inl e), w2) \<Rightarrow> (Some (Inl (CliLocal e)), w2)
          | (Some (Inr _), w2) \<Rightarrow>
             (case evaluateRun sc (run_ID run) w2 of (r, w3) \<Rightarrow> (Some r, w3))))"

text \<open>
  The loop of \<^verbatim>\<open>waitForRun\<close>.  A query made after the context has ended reports it, and the caller
  gets the run it has, which is none on the first round.
\<close>

fun waitForRun :: "nat \<Rightarrow> uuid \<Rightarrow> world \<Rightarrow> (error + run option) option \<times> world" where
  "waitForRun 0 rid w = (None, w)"
| "waitForRun (Suc n) rid w =
     (if tn_ctx (w_turn w (w_at w)) \<noteq> None then (Some (Inr None), w)
      else case read_db (RunByID rid) w of
        (Inl e, w1) \<Rightarrow> (Some (Inl e), w1)
      | (Inr run, w1) \<Rightarrow>
          if RunStatus_Terminal (run_Status run) \<or> tn_ctx (w_turn w1 (w_at w1)) \<noteq> None then (Some (Inr (Some run)), w1)
          else waitForRun n rid w1)"

text \<open>
  The spawned workers and the coordinator that runs beside the wait are among the other
  processes of the world.
\<close>

definition runScenarioWithPool ::
  "nat \<Rightarrow> 's host_env \<Rightarrow> executor \<Rightarrow> fresh \<Rightarrow> workflow_row \<Rightarrow> wf_definition \<Rightarrow> scenario \<Rightarrow> int \<Rightarrow> nat \<Rightarrow> world
   \<Rightarrow> (cli_error + uuid) option \<times> world" where
  "runScenarioWithPool fuel h x f wfl def sc seedOverride poolSize w =
     (case create_run x f wfl def (scenario_options sc seedOverride) w of
        (Inl e, w1) \<Rightarrow> (Some (Inl (CliStore e)), w1)
      | (Inr run, w1) \<Rightarrow>
         (case he_self h of
            None \<Rightarrow> (Some (Inl (SpawnFailed ''locate'')), w1)
          | Some _ \<Rightarrow>
             (case find (\<lambda>i. he_spawn h i \<noteq> None) [0..<poolSize] of
                Some i \<Rightarrow> (Some (Inl (SpawnFailed (the (he_spawn h i)))), w1)
              | None \<Rightarrow>
                 (case waitForRun fuel (run_ID run) w1 of
                    (None, w2) \<Rightarrow> (None, w2)
                  | (Some (Inl e), w2) \<Rightarrow> (Some (Inl (CliStore e)), w2)
                  | (Some (Inr None), w2) \<Rightarrow> (Some (Inl (Unfinished (run_ID run))), w2)
                  | (Some (Inr (Some final)), w2) \<Rightarrow>
                      (Some (if RunStatus_Terminal (run_Status final) then Inr (run_ID run) else Inl (Unfinished (run_ID run))), w2)))))"

definition runScenarioPooled ::
  "nat \<Rightarrow> 's host_env \<Rightarrow> executor \<Rightarrow> fresh \<Rightarrow> workflow_row \<Rightarrow> wf_definition \<Rightarrow> scenario \<Rightarrow> int \<Rightarrow> nat \<Rightarrow> world
   \<Rightarrow> (cli_error + Relab_Assert.report) option \<times> world" where
  "runScenarioPooled fuel h x f wfl def sc seedOverride poolSize w =
     (case runScenarioWithPool fuel h x f wfl def sc seedOverride poolSize w of
        (None, w1) \<Rightarrow> (None, w1)
      | (Some (Inl e), w1) \<Rightarrow> (Some (Inl e), w1)
      | (Some (Inr rid), w1) \<Rightarrow> (case evaluateRun sc rid w1 of (r, w2) \<Rightarrow> (Some r, w2)))"

text \<open>
  The \<open>k\<close> runs of \<^verbatim>\<open>--repeat\<close>: the reports printed, and the error of the run that had none.
\<close>

fun test_loop ::
  "nat \<Rightarrow> 's host_env \<Rightarrow> executor \<Rightarrow> (nat \<Rightarrow> fresh) \<Rightarrow> workflow_row \<Rightarrow> wf_definition \<Rightarrow> scenario \<Rightarrow> int \<Rightarrow> bool \<Rightarrow> nat
   \<Rightarrow> nat \<Rightarrow> nat \<Rightarrow> world \<Rightarrow> (Relab_Assert.report list \<times> cli_error option) option \<times> world" where
  "test_loop fuel h x f wfl def sc seed pooled poolSize i 0 w = (Some ([], None), w)"
| "test_loop fuel h x f wfl def sc seed pooled poolSize i (Suc k) w =
     (case (if pooled then runScenarioPooled fuel h x (f i) wfl def sc seed poolSize w
            else runScenario fuel x (f i) wfl def sc seed w) of
        (None, w1) \<Rightarrow> (None, w1)
      | (Some (Inl e), w1) \<Rightarrow> (Some ([], Some e), w1)
      | (Some (Inr rep), w1) \<Rightarrow>
         (case test_loop fuel h x f wfl def sc seed pooled poolSize (Suc i) k w1 of
            (None, w2) \<Rightarrow> (None, w2)
          | (Some (reps, err), w2) \<Rightarrow> (Some (rep # reps, err), w2)))"

record test_flags =
  tf_scenario :: string
  tf_seed :: int
  tf_repeat :: int
  tf_allowRandom :: bool
  tf_workers :: int

definition test_scenario :: "'s host_env \<Rightarrow> test_flags \<Rightarrow> cli_error + scenario" where
  "test_scenario h flg =
     (if tf_scenario flg = [] then Inl ScenarioRequired
      else case load_scenario h (tf_scenario flg) of
        Inl e \<Rightarrow> Inl e
      | Inr sc \<Rightarrow> if \<not> Deterministic sc \<and> \<not> tf_allowRandom flg then Inl (RandomScenario (sc_Name sc)) else Inr sc)"

definition test_runs ::
  "nat \<Rightarrow> 's host_env \<Rightarrow> executor \<Rightarrow> test_flags \<Rightarrow> (nat \<Rightarrow> fresh) \<Rightarrow> workflow_row \<Rightarrow> wf_definition \<Rightarrow> scenario \<Rightarrow> world
   \<Rightarrow> (Relab_Assert.report list \<times> cli_error option) option \<times> world" where
  "test_runs fuel h x flg f wfl def sc w =
     (let k = (if tf_repeat flg < 1 then 1 else tf_repeat flg);
          pooled = (tf_workers flg > 0 \<or> NeedsSeparateWorkers sc);
          poolSize = (if pooled \<and> tf_workers flg \<le> 0 then 2 else tf_workers flg)
      in case test_loop fuel h x f wfl def sc (tf_seed flg) pooled (nat poolSize) 0 (nat k) w of
           (None, w1) \<Rightarrow> (None, w1)
         | (Some (reps, Some e), w1) \<Rightarrow> (Some (reps, Some e), w1)
         | (Some (reps, None), w1) \<Rightarrow>
             (Some (reps, if list_ex (\<lambda>rep. \<not> rep_Passed rep) reps then Some AlreadyReported else None), w1))"

text \<open>The reports printed and the error; nothing when the fuel was spent.\<close>

definition testCmd ::
  "nat \<Rightarrow> 's host_env \<Rightarrow> test_flags \<Rightarrow> uuid \<Rightarrow> (nat \<Rightarrow> fresh) \<Rightarrow> string \<Rightarrow> 's place
   \<Rightarrow> (Relab_Assert.report list \<times> cli_error option) option \<times> 's place" where
  "testCmd fuel h flg wid f arg pl =
     (case test_scenario h flg of
        Inl e \<Rightarrow> (Some ([], Some e), pl)
      | Inr sc \<Rightarrow>
         (case startup h (snd pl) of
            (Inl e, sd) \<Rightarrow> (Some ([], Some e), fst pl, sd)
          | (Inr x, sd) \<Rightarrow>
             (case resolveWorkflow h x wid arg (fst pl) of
                (Inl e, w) \<Rightarrow> (Some ([], Some e), w, sd)
              | (Inr (wfl, def), w) \<Rightarrow>
                  (case test_runs fuel h x flg f wfl def sc w of (r, w1) \<Rightarrow> (r, w1, sd)))))"

section \<open>run\<close>

record run_flags =
  rf_scenario :: string
  rf_seed :: int
  rf_correlation :: string
  rf_detach :: bool
  rf_json :: bool

datatype run_output = Detached run | Finished run "task list"

text \<open>The listing of a finished run; as JSON it is written before the status is looked at.\<close>

definition reportRun :: "bool \<Rightarrow> run \<Rightarrow> world \<Rightarrow> (run_output option \<times> cli_error option) \<times> world" where
  "reportRun json final w =
     (case read_db (tasksOf (run_ID final)) w of
        (ts, w1) \<Rightarrow> ((Some (Finished final ts),
          if json then None else if run_Status final \<noteq> RunSucceeded then Some AlreadyReported else None), w1))"

definition run_options :: "run_flags \<Rightarrow> scenario option \<Rightarrow> create_run_options" where
  "run_options flg sc =
     (case sc of
        None \<Rightarrow> \<lparr>co_ScenarioName = [], co_ScenarioHash = [], co_Seed = rf_seed flg, co_CorrelationID = rf_correlation flg, co_Now = zero_time\<rparr>
      | Some s \<Rightarrow> \<lparr>co_ScenarioName = sc_Name s, co_ScenarioHash = sc_Hash s, co_Seed = (if rf_seed flg = 0 then sc_Seed s else rf_seed flg),
                   co_CorrelationID = rf_correlation flg, co_Now = zero_time\<rparr>)"

definition scenario_for_run :: "'s host_env \<Rightarrow> run_flags \<Rightarrow> cli_error + scenario option" where
  "scenario_for_run h flg =
     (if rf_scenario flg = [] then Inr None
      else case load_scenario h (rf_scenario flg) of
             Inl e \<Rightarrow> Inl e
           | Inr s \<Rightarrow> if NeedsSeparateWorkers s then Inl (KillsThisProcess (sc_Name s)) else Inr (Some s))"

text \<open>
  Without a scenario the runner stays open until the command returns; with one it has been
  closed by \<open>DriveWithFaults\<close>.  The second component is the runner that is still open.
\<close>

definition drive_run ::
  "nat \<Rightarrow> executor \<Rightarrow> uuid \<Rightarrow> uuid \<Rightarrow> scenario option \<Rightarrow> world \<Rightarrow> (local_error + run) option \<times> executor option \<times> world" where
  "drive_run fuel x wid rid sc w =
     (case sc of
        Some s \<Rightarrow> (case DriveWithFaults fuel x wid rid (Some (StaticLookup (Some s))) w of (r, w1) \<Rightarrow> (r, None, w1))
      | None \<Rightarrow>
         (case NewLocalRunner x wid w of
            (Inl e, w1) \<Rightarrow> (Some (Inl (LocalStore e)), None, w1)
          | (Inr y, w1) \<Rightarrow>
             (case LocalRunner_Run fuel (y\<lparr>ex_faults := None\<rparr>) rid w1 of (r, w2) \<Rightarrow> (r, Some y, w2))))"

definition close_runner :: "executor option \<Rightarrow> world \<Rightarrow> world" where
  "close_runner runner w = (case runner of None \<Rightarrow> w | Some y \<Rightarrow> LocalRunner_Close y w)"

definition runCmd ::
  "nat \<Rightarrow> 's host_env \<Rightarrow> run_flags \<Rightarrow> uuid \<Rightarrow> fresh \<Rightarrow> string \<Rightarrow> world \<Rightarrow> (run_output option \<times> cli_error option) option \<times> world" where
  "runCmd fuel h flg wid f arg w =
     (case open_db h of
        Some e \<Rightarrow> (Some (None, Some e), w)
      | None \<Rightarrow>
     (case engine_with h zero_timing of
        Inl e \<Rightarrow> (Some (None, Some e), w)
      | Inr x \<Rightarrow>
     (case resolveWorkflow h x wid arg w of
        (Inl e, w1) \<Rightarrow> (Some (None, Some e), w1)
      | (Inr (wfl, def), w1) \<Rightarrow>
     (case scenario_for_run h flg of
        Inl e \<Rightarrow> (Some (None, Some e), w1)
      | Inr sc \<Rightarrow>
     (case create_run x f wfl def (run_options flg sc) w1 of
        (Inl e, w2) \<Rightarrow> (Some (None, Some (CliStore e)), w2)
      | (Inr run, w2) \<Rightarrow>
          if rf_detach flg then (Some (Some (Detached run), None), w2)
          else (case drive_run fuel x (fr_worker f) (run_ID run) sc w2 of
            (None, _, w3) \<Rightarrow> (None, w3)
          | (Some (Inl e), y, w3) \<Rightarrow> (Some (None, Some (CliLocal e)), if e = ProcessKilled then w3 else close_runner y w3)
          | (Some (Inr _), y, w3) \<Rightarrow>
             (case read_db (RunByID (run_ID run)) w3 of
                (Inl e, w4) \<Rightarrow> (Some (None, Some (CliStore e)), close_runner y w4)
              | (Inr final, w4) \<Rightarrow>
                 (case reportRun (rf_json flg) final w4 of
                    (r, w5) \<Rightarrow> (Some r, close_runner y w5)))))))))"

section \<open>server, worker\<close>

text \<open>
  \<^verbatim>\<open>serveAPI\<close> up to the moment it listens, with \<^verbatim>\<open>net.SplitHostPort\<close> and the test for a loopback
  address as arguments.
\<close>

definition serveAPI ::
  "arith \<Rightarrow> (string \<Rightarrow> string) \<Rightarrow> (string \<Rightarrow> string option) \<Rightarrow> (string \<Rightarrow> bool) \<Rightarrow> environ \<Rightarrow> string \<Rightarrow> string \<Rightarrow> time
   \<Rightarrow> config_error + server" where
  "serveAPI ar dg splitHostPort loopbackIP getenv addr version now =
     (case APIConfigFromEnv getenv of
        Inl e \<Rightarrow> Inl e
      | Inr cfg \<Rightarrow>
         (case ValidateBind splitHostPort loopbackIP cfg addr of
            Some e \<Rightarrow> Inl e
          | None \<Rightarrow> Inr (NewServer ar dg version cfg now)))"

text \<open>The \<^verbatim>\<open>--concurrency\<close> a worker has when the flag is not given, and the error a bad setting leaves for later.\<close>

definition defaultConcurrency :: "environ \<Rightarrow> config_error option \<times> int" where
  "defaultConcurrency getenv =
     (case Env_Int getenv ''RELAB_WORKER_CONCURRENCY'' 4 of Inl e \<Rightarrow> (Some e, 4) | Inr n \<Rightarrow> (None, n))"

definition workerCmd ::
  "'s host_env \<Rightarrow> string \<Rightarrow> string \<Rightarrow> uuid \<Rightarrow> int option \<Rightarrow> string \<Rightarrow> 's place \<Rightarrow> (cli_error + executor \<times> pool_worker) \<times> 's place" where
  "workerCmd h hostname version wid concurrency scenarioPath pl =
     (case (pl, defaultConcurrency (he_getenv h)) of
        ((w, sd), (Some e, _)) \<Rightarrow> (Inl (CliConfig e), w, sd)
      | ((w, sd), (None, dflt)) \<Rightarrow>
     (case startup h sd of
        (Inl e, sd1) \<Rightarrow> (Inl e, w, sd1)
      | (Inr x, sd1) \<Rightarrow>
     (case (if scenarioPath = [] then Inr None else map_sum id Some (load_scenario h scenarioPath)) of
        Inl e \<Rightarrow> (Inl e, w, sd1)
      | Inr sc \<Rightarrow>
         (case on_db (\<lambda>now. NewWorker (case concurrency of None \<Rightarrow> dflt | Some c \<Rightarrow> c) wid hostname version now) w of
            (Inl e, w1) \<Rightarrow> (Inl (CliStore e), w1, sd1)
          | (Inr pw, w1) \<Rightarrow>
              (Inr (x\<lparr>ex_worker := pw_id pw, ex_faults := (case sc of None \<Rightarrow> None | Some s \<Rightarrow> Some (Some (StaticLookup (Some s))))\<rparr>, pw),
               w1, sd1)))))"

section \<open>demo\<close>

definition demoTiming :: "(string \<times> string) list" where
  "demoTiming =
     [(''RELAB_LOG_LEVEL'', ''warn''), (''RELAB_LEASE_DURATION'', ''2s''), (''RELAB_LEASE_RENEW_INTERVAL'', ''700ms''),
      (''RELAB_HEARTBEAT_INTERVAL'', ''400ms''), (''RELAB_REAPER_INTERVAL'', ''200ms'')]"

text \<open>\<open>is_set\<close> is the second result of \<^verbatim>\<open>os.LookupEnv\<close>.\<close>

definition demo_environ :: "(string \<Rightarrow> bool) \<Rightarrow> environ \<Rightarrow> environ" where
  "demo_environ is_set getenv = fold (\<lambda>(name, value) g. if is_set name then g else g(name := value)) demoTiming getenv"

fun meaning :: "etype \<Rightarrow> string option" where
  "meaning EFaultInjected = Some ''the worker holding `charge` was killed, after charging and before acknowledging''"
| "meaning EWorkerLost = Some ''its heartbeats stopped, so it was declared gone and its leases released''"
| "meaning ETaskLeaseExpired = Some ''nobody renewed the hold on the task''"
| "meaning ETaskRequeued = Some ''the task became claimable again''"
| "meaning ESideEffectSkipped = Some ''the retry asked to charge again; the ledger already had that key, so it did not''"
| "meaning ERunSucceeded = Some ''every task finished''"
| "meaning _ = None"

fun narrate :: "bool \<Rightarrow> event list \<Rightarrow> (int \<times> etype \<times> string \<times> string) list" where
  "narrate broken [] = []"
| "narrate broken (e # es) =
     (let broken' = (broken \<or> ev_Type e = EFaultInjected);
          text = (if ev_Type e = ETaskLeased
                  then Some (if broken' then ''another worker claimed it'' else ''a worker claimed it'')
                  else meaning (ev_Type e))
      in (case text of None \<Rightarrow> [] | Some t \<Rightarrow> [(ev_Seq e, ev_Type e, ev_TaskName e, t)]) @ narrate broken' es)"

end
