(* ===== verification/Relab_Agree.thy ===== *)
theory Relab_Agree
  imports Relab_History
begin

text \<open>
  The journal tells the truth: the status a replay arrives at is the status on the run's
  row, and a run's journal has a terminal event only as its last and only when the run is
  closed.
\<close>

section \<open>The status a journal tells\<close>

fun status_after :: "string \<Rightarrow> etype \<Rightarrow> string" where
  "status_after s ERunCreated = ''CREATED''"
| "status_after s ERunQueued = ''QUEUED''"
| "status_after s ERunStarted = ''RUNNING''"
| "status_after s ERunSucceeded = ''SUCCEEDED''"
| "status_after s ERunFailed = ''FAILED''"
| "status_after s ERunCancelled = ''CANCELLED''"
| "status_after s _ = s"

definition told :: "event_row list \<Rightarrow> string" where
  "told es = foldl (\<lambda>s e. status_after s (Type_of_text (e_type e))) ''CREATED'' es"

lemma told_snoc [simp]: "told (es @ [e]) = status_after (told es) (Type_of_text (e_type e))"
  by (simp add: told_def)

lemma apply_status: "apply_event s evt = Inr s' \<Longrightarrow> rs_Status s' = status_after (rs_Status s) (ev_Type evt)"
  by (cases "ev_Type evt")
    (auto simp: apply_event_def decoded_def on_task_def split: sum.splits option.splits)

text \<open>The reducer's status and counter are those of the rows it was given.\<close>

lemma Reduce_status:
  "Reduce rid (map scan_event es) = Inr s \<Longrightarrow> rs_Status s = told es \<and> rs_EventCount s = int (length es)"
proof (induction es arbitrary: s rule: rev_induct)
  case Nil
  then show ?case by (auto simp: Reduce_def new_state_def told_def)
next
  case (snoc e es)
  then obtain s1 where s1: "Reduce rid (map scan_event es) = Inr s1"
    using reduce_loop_prefix [of 1 False "new_state rid" "map scan_event es" "[scan_event e]" s] by (auto simp: Reduce_def)
  from snoc.prems obtain s2 where "apply_event s1 (scan_event e) = Inr s2" "s = count_event (scan_event e) s2"
    by (auto simp: Reduce_snoc [OF s1] reduce_step_def map_sum_def split: if_splits sum.splits)
  moreover have "rs_EventCount s2 = rs_EventCount s1" if "apply_event s1 (scan_event e) = Inr s2" for s2
    using that by (cases "ev_Type (scan_event e)")
      (auto simp: apply_event_def decoded_def on_task_def split: sum.splits option.splits)
  ultimately show ?case using snoc.IH [OF s1] apply_status [of s1 "scan_event e" s2]
    by (auto simp: count_event_def scan_event_def)
qed

section \<open>The story of a run\<close>

definition ends_run :: "event_row \<Rightarrow> bool" where
  "ends_run e \<longleftrightarrow> Terminal (Type_of_text (e_type e))"

definition tale :: "run_row \<Rightarrow> event_row list \<Rightarrow> bool" where
  "tale r es \<longleftrightarrow> es \<noteq> [] \<and> told es = RunStatus_String (r_status r)
     \<and> (\<forall>e\<in>set (butlast es). \<not> ends_run e) \<and> (r_completed_at r = None \<longrightarrow> (\<forall>e\<in>set es. \<not> ends_run e))"

fun tale_of :: "run_row option \<Rightarrow> event_row list \<Rightarrow> bool" where
  "tale_of None es = (es = [])"
| "tale_of (Some r) es = tale r es"

definition story :: "db \<Rightarrow> bool" where
  "story db \<longleftrightarrow> tables_ok db \<and> (\<forall>rid. tale_of (run_by_id rid db) (run_events rid db))"

lemma storyD: "story db \<Longrightarrow> run_by_id rid db = Some r \<Longrightarrow> tale r (run_events rid db)"
  "story db \<Longrightarrow> run_by_id rid db = None \<Longrightarrow> run_events rid db = []"
  by (metis story_def tale_of.simps)+

lemma story_tables: "story db \<Longrightarrow> tables_ok db"
  by (simp add: story_def)

lemma story_frame:
  assumes "story db" and "tables_ok db'" and "runs db' = runs db" and "events db' = events db"
  shows "story db'"
  using assms by (simp add: story_def run_by_id_def run_events_def)

lemma story_run_free: "run_free m \<Longrightarrow> tx_keeps tables_ok m \<Longrightarrow> tx_keeps story m"
proof (rule tx_keepsI)
  fix db x db'
  assume f: "run_free m" and t: "tx_keeps tables_ok m" and s: "story db" and m: "m db = Inr (x, db')"
  have "tables_ok db'" using tx_keepsD [OF t story_tables [OF s] m] .
  with s show "story db'" by (rule story_frame) (use f m in \<open>auto simp: run_free_def\<close>)
qed

text \<open>A change of one open run by one event and of its row to a status the event tells.\<close>

lemma story_change:
  assumes s: "story db" and t: "tables_ok db'" and r: "run_by_id rid db = Some r" "r_completed_at r = None"
    and row: "run_by_id rid db' = Some r'" and others: "\<And>q. q \<noteq> rid \<Longrightarrow> run_by_id q db' = run_by_id q db"
    and ev: "events db' = events db @ [e]" "e_run_id e = rid"
    and tells: "status_after (RunStatus_String (r_status r)) (Type_of_text (e_type e)) = RunStatus_String (r_status r')"
    and ends: "ends_run e \<Longrightarrow> r_completed_at r' \<noteq> None"
  shows "story db'"
proof -
  have evs: "run_events q db' = (if q = rid then run_events rid db @ [e] else run_events q db)" for q
    using ev by (auto simp: run_events_def)
  have old: "tale r (run_events rid db)" using s r(1) by (rule storyD)
  then have "tale r' (run_events rid db @ [e])" using r(2) tells ends by (auto simp: tale_def)
  then have "tale_of (run_by_id q db') (run_events q db')" for q
    using s row others [of q] by (cases "q = rid") (auto simp: evs story_def)
  then show ?thesis using t by (simp add: story_def)
qed

lemma run_by_id_stored:
  "run_by_id q ((bump_seq rid db)\<lparr>events := es\<rparr>) =
     map_option (\<lambda>r. if r_id r = rid \<and> r_completed_at r = None then r\<lparr>r_event_seq := r_event_seq r + 1\<rparr> else r) (run_by_id q db)"
  using run_by_id_bump [of q rid db] by (simp add: run_by_id_def)

lemma run_by_id_update:
  assumes "run_keys_kept g"
  shows "run_by_id q (db\<lparr>runs := sql_update c g (runs db)\<rparr>) = map_option (\<lambda>r. if c r then g r else r) (run_by_id q db)"
  using assms by (simp add: run_by_id_def find_sql_update run_keys_kept_def)

lemma stored_type [simp]: "Type_of_text (e_type (stored now rid p m n)) = Payload_Type p"
  and stored_run [simp]: "e_run_id (stored now rid p m n) = rid"
  by (simp_all add: stored_def Type_of_text_known)

text \<open>An event that says nothing of the run's status.\<close>

definition neutral :: "payload \<Rightarrow> bool" where
  "neutral p \<longleftrightarrow> (\<forall>s. status_after s (Payload_Type p) = s) \<and> \<not> Terminal (Payload_Type p)"

lemma neutral_payloads [simp]:
  "neutral (TaskScheduledPayload a b c)" "neutral (TaskLeasedPayload a d)" "neutral (TaskStartedPayload a h)"
  "neutral (TaskSucceededPayload a i j k)" "neutral (TaskFailedPayload a i h l)" "neutral (TaskRetryScheduledPayload a i n d)"
  "neutral (TaskLeaseExpiredPayload a d)" "neutral (TaskRequeuedPayload a i h)" "neutral (TaskDeadLetteredPayload a h)"
  "neutral (WorkerLostPayload a i)" "neutral (FaultInjectedPayload h h' h'' a i j)" "neutral (SideEffectSkippedPayload h a i)"
  by (simp_all add: neutral_def)

named_theorems story_keeps \<open>statements and operations that keep \<open>story\<close>\<close>

lemma append_change:
  assumes t: "tables_ok db" and a: "append now rid p m db = Inr (x, db')"
  obtains r where "run_by_id rid db = Some r" "r_completed_at r = None"
    "run_by_id rid db' = Some (r\<lparr>r_event_seq := r_event_seq r + 1\<rparr>)" "\<And>q. q \<noteq> rid \<Longrightarrow> run_by_id q db' = run_by_id q db"
    "events db' = events db @ [stored now rid p m (r_event_seq r + 1)]" "tables_ok db'"
proof -
  obtain r where r: "run_by_id rid db = Some r" "r_completed_at r = None"
    and db': "db' = (bump_seq rid db)\<lparr>events := events db @ [stored now rid p m (r_event_seq r + 1)]\<rparr>"
    using append_Inr [OF _ a] t by (auto simp: tables_ok_def)
  have "tables_ok db'" using tx_keepsD [OF tables_append t a] .
  moreover have "run_by_id rid db' = Some (r\<lparr>r_event_seq := r_event_seq r + 1\<rparr>)"
    using r run_by_idD [OF r(1)] by (simp add: db' run_by_id_stored)
  moreover have "run_by_id q db' = run_by_id q db" if "q \<noteq> rid" for q
    using that run_by_idD [of q db] by (cases "run_by_id q db") (auto simp: db' run_by_id_stored)
  ultimately show ?thesis using that r db' by simp
qed

lemma story_append [story_keeps]:
  assumes "neutral p"
  shows "tx_keeps story (append now rid p m)"
proof (rule tx_keepsI)
  fix db x db'
  assume s: "story db" and a: "append now rid p m db = Inr (x, db')"
  from append_change [OF story_tables [OF s] a] obtain r where r: "run_by_id rid db = Some r" "r_completed_at r = None"
    "run_by_id rid db' = Some (r\<lparr>r_event_seq := r_event_seq r + 1\<rparr>)" "\<And>q. q \<noteq> rid \<Longrightarrow> run_by_id q db' = run_by_id q db"
    "events db' = events db @ [stored now rid p m (r_event_seq r + 1)]" "tables_ok db'" by metis
  show "story db'"
    by (rule story_change [OF s r(6,1,2,3,4,5)])
      (use assms in \<open>auto simp: neutral_def ends_run_def\<close>)
qed

lemma story_statements [story_keeps]:
  "keys_kept f \<Longrightarrow> tx_keeps story (update_tasks c f)" "keys_kept f \<Longrightarrow> tx_keeps story (update_tasks_returning c f)"
  "tx_keeps story (insert_task t)" "tx_keeps story (insert_workflow w)" "tx_keeps story (insert_worker k)"
  "tx_keeps story (record_attempt a)" "tx_keeps story (insert_dead_letter l)" "tx_keeps story (upsert_artifact u)"
  "tx_keeps story (record_effect key rid name raw)"
  "(\<And>x. wk_id (h x) = wk_id x) \<Longrightarrow> tx_keeps story (update_workers e h)"
  by (simp_all add: story_run_free run_free_statements tables_keeps tables_record_effect keeps_update_returning)

text \<open>A run that starts, and a run that closes: the row and the journal change together.\<close>

lemma story_turn:
  assumes s: "story db" and q: "run_by_id rid db = Some q" and hit: "\<And>r. c r \<longleftrightarrow> r_id r = rid \<and> r_status r = r_status q"
    and u: "update_runs c f db = Inr (n, db1)" and a: "append now rid p m db1 = Inr (x, db')"
    and f: "run_keys_kept f" "r_completed_at (f q) = r_completed_at q"
    and tells: "status_after (RunStatus_String (r_status q)) (Payload_Type p) = RunStatus_String (r_status (f q))"
      "\<not> Terminal (Payload_Type p)"
  shows "story db'"
proof -
  have db1: "db1 = db\<lparr>runs := sql_update c f (runs db)\<rparr>" using u by (simp add: update_runs_Inr)
  have t1: "tables_ok db1" using tx_keepsD [OF tables_update_runs [OF f(1)] story_tables [OF s] u] .
  have row1: "run_by_id k db1 = map_option (\<lambda>r. if c r then f r else r) (run_by_id k db)" for k
    unfolding db1 by (rule run_by_id_update [OF f(1)])
  obtain r1 where r1: "run_by_id rid db1 = Some r1" "r_completed_at r1 = None"
    "run_by_id rid db' = Some (r1\<lparr>r_event_seq := r_event_seq r1 + 1\<rparr>)" "\<And>q. q \<noteq> rid \<Longrightarrow> run_by_id q db' = run_by_id q db1"
    "events db' = events db1 @ [stored now rid p m (r_event_seq r1 + 1)]" "tables_ok db'"
    by (rule append_change [OF t1 a]) (rule that)
  have r1_eq: "r1 = f q" using r1(1) q run_by_idD [OF q] by (auto simp: row1 hit)
  have others: "run_by_id k db' = run_by_id k db" if "k \<noteq> rid" for k
    using r1(4) [OF that] that run_by_idD [of k db] by (cases "run_by_id k db") (auto simp: row1 hit)
  have ev: "events db' = events db @ [stored now rid p m (r_event_seq r1 + 1)]" using r1(5) by (simp add: db1)
  have open_row: "r_completed_at q = None" using r1(2) f(2) by (simp add: r1_eq)
  show ?thesis
    by (rule story_change [OF s r1(6) q open_row r1(3) others ev]) (auto simp: r1_eq tells ends_run_def)
qed

lemma story_markRunStarted [story_keeps]: "tx_keeps story (markRunStarted rid now)"
proof (rule tx_keepsI)
  let ?c = "\<lambda>r. r_id r = rid \<and> r_status r = RunQueued"
  let ?f = "\<lambda>r. r\<lparr>r_status := RunRunning, r_started_at := Some now\<rparr> :: run_row"
  fix db x db'
  assume s: "story db" and m: "markRunStarted rid now db = Inr (x, db')"
  then obtain n db1 where u: "update_runs ?c ?f db = Inr (n, db1)"
    and rest: "(if n = 0 then tx_return () else append now rid RunStartedPayload (at_run now)) db1 = Inr (x, db')"
    by (auto simp: markRunStarted_def tx_bind_Inr)
  have n: "n = sql_count ?c (runs db)" using u by (simp add: update_runs_Inr)
  show "story db'"
  proof (cases "n = 0")
    case True
    then have "db1 = db" using u n by (simp add: update_runs_Inr sql_update_none)
    then show ?thesis using rest True s by simp
  next
    case False
    then obtain q where q: "q \<in> set (runs db)" "r_id q = rid" "r_status q = RunQueued" unfolding n by auto
    have r: "run_by_id rid db = Some q"
      using story_tables [OF s] find_key_in [of r_id "runs db" q] q by (auto simp: tables_ok_def run_by_id_def)
    from False rest have a: "append now rid RunStartedPayload (at_run now) db1 = Inr (x, db')" by simp
    show ?thesis by (rule story_turn [OF s r _ u a run_keys_kept_updates(2)]) (simp_all add: q(3))
  qed
qed

lemma story_close:
  assumes s: "story db" and a: "append now rid p m db = Inr (x, db1)"
    and u: "update_runs (\<lambda>q. r_id q = rid) (\<lambda>q. q\<lparr>r_status := st, r_completed_at := Some now, r_failure_reason := why\<rparr>) db1 = Inr (n, db')"
    and tells: "\<And>s. status_after s (Payload_Type p) = RunStatus_String st"
  shows "story db'"
proof -
  let ?f = "\<lambda>q. q\<lparr>r_status := st, r_completed_at := Some now, r_failure_reason := why\<rparr> :: run_row"
  obtain r where r: "run_by_id rid db = Some r" "r_completed_at r = None"
    "run_by_id rid db1 = Some (r\<lparr>r_event_seq := r_event_seq r + 1\<rparr>)" "\<And>q. q \<noteq> rid \<Longrightarrow> run_by_id q db1 = run_by_id q db"
    "events db1 = events db @ [stored now rid p m (r_event_seq r + 1)]" "tables_ok db1"
    by (rule append_change [OF story_tables [OF s] a]) (rule that)
  have db': "db' = db1\<lparr>runs := sql_update (\<lambda>q. r_id q = rid) ?f (runs db1)\<rparr>" using u by (simp add: update_runs_Inr)
  have t': "tables_ok db'" using tx_keepsD [OF tables_update_runs [OF run_keys_kept_updates(3)] r(6) u] .
  have row: "run_by_id q db' = map_option (\<lambda>r. if r_id r = rid then ?f r else r) (run_by_id q db1)" for q
    unfolding db' by (rule run_by_id_update [OF run_keys_kept_updates(3)])
  have row': "run_by_id rid db' = Some (?f (r\<lparr>r_event_seq := r_event_seq r + 1\<rparr>))"
    using run_by_idD [OF r(1)] by (simp add: row r(3))
  have others: "run_by_id q db' = run_by_id q db" if "q \<noteq> rid" for q
    using r(4) [OF that] that run_by_idD [of q db] by (cases "run_by_id q db") (auto simp: row)
  have ev: "events db' = events db @ [stored now rid p m (r_event_seq r + 1)]" by (simp add: db' r(5))
  show ?thesis
    by (rule story_change [OF s t' r(1,2) row' others ev]) (auto simp: tells)
qed

lemma story_settling [story_keeps]:
  "status = RunFailed \<and> (\<exists>a b. p = RunFailedPayload a b) \<or> status = RunSucceeded \<and> (\<exists>n. p = RunSucceededPayload n) \<Longrightarrow>
     tx_keeps story (close_run rid now status p reason)"
  by (rule tx_keepsI) (auto simp: close_run_def tx_bind_Inr split: if_splits intro: story_close)

lemma story_settleRun [story_keeps]: "tx_keeps story (settleRun rid now)"
  unfolding settleRun_def by (intro keeps_rules story_keeps; simp)

lemma story_cancel: "tx_keeps story (cancel_tx rid reason now)"
proof (rule tx_keepsI)
  fix db x db'
  assume s: "story db" and m: "cancel_tx rid reason now db = Inr (x, db')"
  then obtain n1 db1 n2 db2 n3 db3 n4 where
      u1: "update_tasks (\<lambda>t. t_run_id t = rid \<and> (t_status t = TaskPending \<or> t_status t = TaskReady \<or> t_status t = TaskRetrying))
             (cancel_task now) db = Inr (n1, db1)"
    and u2: "update_tasks (\<lambda>t. t_run_id t = rid \<and> Holds (t_status t))
             (\<lambda>t. t\<lparr>t_lease_expires_at := Some now, t_updated_at := now\<rparr>) db1 = Inr (n2, db2)"
    and a: "append now rid (RunCancelledPayload reason) (at_run now) db2 = Inr (n3, db3)"
    and u3: "update_runs (\<lambda>q. r_id q = rid)
             (\<lambda>q. q\<lparr>r_status := RunCancelled, r_completed_at := Some now, r_failure_reason := nullString reason\<rparr>) db3 = Inr (n4, db')"
    by (auto simp: cancel_tx_def tx_bind_Inr split: if_splits)
  have "story db2"
    by (rule tx_keepsD [OF story_statements(1) tx_keepsD [OF story_statements(1) s u1] u2]) (rule keys_kept_updates)+
  then show "story db'" using a u3 by (rule story_close) simp
qed

section \<open>A run begins\<close>

definition staged :: "uuid \<Rightarrow> db \<Rightarrow> bool" where
  "staged rid db \<longleftrightarrow> story db \<and> (\<exists>r. run_by_id rid db = Some r \<and> r_status r = RunCreated)"

lemma staged_created:
  assumes s: "story db" and i: "insert_run (new_run_row rid w opts seed now) db = Inr (x, db1)"
    and a: "append now rid (RunCreatedPayload n v h sc sh sd c) m db1 = Inr (y, db2)"
  shows "staged rid db2"
proof -
  have db1: "db1 = db\<lparr>runs := runs db @ [new_run_row rid w opts seed now]\<rparr>" and new: "rid \<notin> r_id ` set (runs db)"
    using i by (auto simp: insert_run_def new_run_row_def split: if_splits)
  have none: "run_by_id rid db = None" using new by (simp add: run_by_id_def find_key_None)
  have t1: "tables_ok db1" using tx_keepsD [OF tables_insert_run story_tables [OF s] i] .
  obtain r where r: "run_by_id rid db1 = Some r" "r_completed_at r = None"
    "run_by_id rid db2 = Some (r\<lparr>r_event_seq := r_event_seq r + 1\<rparr>)" "\<And>q. q \<noteq> rid \<Longrightarrow> run_by_id q db2 = run_by_id q db1"
    "events db2 = events db1 @ [stored now rid (RunCreatedPayload n v h sc sh sd c) m (r_event_seq r + 1)]" "tables_ok db2"
    by (rule append_change [OF t1 a]) (rule that)
  have row1: "run_by_id q db1 = (if q = rid then Some (new_run_row rid w opts seed now) else run_by_id q db)" for q
    using none by (auto simp: db1 run_by_id_def find_snoc new_run_row_def split: option.splits)
  have r_eq: "r_status r = RunCreated" using r(1) by (auto simp: row1 new_run_row_def)
  have evs: "run_events q db2 = run_events q db @ (if q = rid then [stored now rid (RunCreatedPayload n v h sc sh sd c) m (r_event_seq r + 1)] else [])" for q
    by (auto simp: run_events_def r(5) db1)
  have "tale (r\<lparr>r_event_seq := r_event_seq r + 1\<rparr>) (run_events rid db2)"
    using storyD(2) [OF s none] by (simp add: evs tale_def told_def r_eq ends_run_def)
  then have "tale_of (run_by_id q db2) (run_events q db2)" for q
    using s r(3,4) by (cases "q = rid") (auto simp: row1 evs story_def)
  then show ?thesis using r(3,6) r_eq by (auto simp: staged_def story_def)
qed

lemma staged_task: "tx_keeps (staged rid) (create_task env def rid' now tid st)"
proof (rule tx_keepsI)
  fix db x db'
  assume s: "staged rid db" and m: "create_task env def rid' now tid st db = Inr (x, db')"
  have k: "tx_keeps story (create_task env def rid' now tid st)"
    unfolding create_task_def by (intro keeps_rules story_keeps; simp)
  obtain db1 where i: "insert_task (new_task_row env def rid' now tid st) db = Inr ((), db1)"
    and rest: "db' = db1 \<or> append now rid' (TaskScheduledPayload 0 now (st_DependsOn st)) (at_task (st_Name st) None now) db1 = Inr (x, db')"
    using m by (auto simp: create_task_def tx_bind_Inr split: if_splits)
  have same: "run_by_id rid db1 = run_by_id rid db" using i by (auto simp: insert_task_def run_by_id_def split: if_splits)
  have t1: "tables_ok db1" using tx_keepsD [OF tables_insert_task _ i] s by (simp add: staged_def story_def)
  from rest have "map_option r_status (run_by_id rid db') = map_option r_status (run_by_id rid db1)"
  proof
    assume "append now rid' (TaskScheduledPayload 0 now (st_DependsOn st)) (at_task (st_Name st) None now) db1 = Inr (x, db')"
    then show ?thesis by (rule append_change [OF t1]) (cases "rid' = rid"; force)
  qed simp
  then show "staged rid db'" using s tx_keepsD [OF k _ m] by (auto simp: staged_def same)
qed

lemma story_create: "tx_keeps story (create_run_tx env rid new_id wfl def opts seed now)"
proof (rule tx_keepsI)
  let ?new = "new_run_row rid (w_id wfl) opts seed now"
  let ?p = "RunCreatedPayload (w_name wfl) (w_version wfl) (w_definition_hash wfl) (co_ScenarioName opts) (co_ScenarioHash opts) seed (co_CorrelationID opts)"
  fix db x db'
  assume s: "story db" and m: "create_run_tx env rid new_id wfl def opts seed now db = Inr (x, db')"
  then obtain x1 db1 x2 db2 x3 db3 n db4 where i: "insert_run ?new db = Inr (x1, db1)"
    and a1: "append now rid ?p (at_run now) db1 = Inr (x2, db2)"
    and l: "tx_for (enumerate 0 (d_Steps def)) (\<lambda>(i, st). create_task env def rid now (new_id i) st) db2 = Inr (x3, db3)"
    and u: "update_runs (\<lambda>r. r_id r = rid \<and> r_status r = RunCreated) (\<lambda>r. r\<lparr>r_status := RunQueued\<rparr>) db3 = Inr (n, db4)"
    and a2: "append now rid (RunQueuedPayload (int (length (d_Steps def)))) (at_run now) db4 = Inr (x, db')"
    by (auto simp: create_run_tx_def tx_bind_Inr)
  have k: "tx_keeps (staged rid) (tx_for (enumerate 0 (d_Steps def)) (\<lambda>(i, st). create_task env def rid now (new_id i) st))"
    by (intro keeps_rules staged_task)
  have "staged rid db3" using tx_keepsD [OF k staged_created [OF s i a1] l] .
  then obtain q where q: "story db3" "run_by_id rid db3 = Some q" "r_status q = RunCreated" by (auto simp: staged_def)
  show "story db'" by (rule story_turn [OF q(1,2) _ u a2 run_keys_kept_updates(1)]) (simp_all add: q(3))
qed

section \<open>The whole system\<close>

lemma story_operations:
  "tx_keeps story (claim_tx env locked now w ro limit)"
  "tx_keeps story (start_tx w task handler now)"
  "tx_keeps story (complete_tx env w task out now)"
  "tx_keeps story (skipped_tx task key now)"
  "tx_keeps story (expire_tx env locked now)"
  "tx_keeps story (sweep_tx env now)"
  "tx_keeps story (retire_tx env wid now)"
  "tx_keeps story (renew_tx env w ids now)"
  "tx_keeps story (promote_tx locked now limit)"
  "tx_keeps story (heartbeat_tx wid active now)"
  unfolding outcome_defs claim_tx_def claim_one_def hydrate_def start_tx_def reaper_defs definitionForRun_def
  by (intro keeps_rules story_keeps keys_kept_updates; simp)+

lemma engine_tx_story: "engine_tx env db m \<Longrightarrow> tx_keeps story m"
  by (rule engine_tx_keeps [where I = story]; (assumption | rule story_operations story_create story_cancel story_keeps)?; simp?)

interpretation story: engine_invariant env story for env
proof unfold_locales
  show "story empty_db" using tables.initial by (simp add: story_def empty_db_def run_by_id_def run_events_def)
qed (blast dest: engine_tx_story tx_keepsD)

text \<open>Reading a run's journal back and folding it gives the status on the run's row.\<close>

lemma replayed_status:
  assumes r: "reachable env db" and row: "run_by_id rid db = Some run"
    and readable: "list_all payload_readable (map scan_event (run_events rid db))"
  obtains s where "Load rid db = Inr s" "rs_Status s = RunStatus_String (r_status run)" "rs_EventCount s = r_event_seq run"
proof -
  let ?evts = "map scan_event (run_events rid db)"
  note j = journal.holds [OF r]
  have tale: "tale run (run_events rid db)" using story.holds [OF r] row by (rule storyD)
  have mem: "run \<in> set (runs db)" "r_id run = rid" using run_by_idD [OF row] by auto
  then have num: "numbered (run_events rid db)" "r_event_seq run = int (length (run_events rid db))"
    using j by (auto simp: journal_ok_def)
  have "well_formed_journal ?evts"
    using num tale j by (auto simp: well_formed_journal_def numbered_def scan_event_def comp_def tale_def ends_run_def
        journal_ok_def run_events_def map_butlast [symmetric])
  then obtain s where s: "Reduce rid ?evts = Inr s"
    using Reduce_accepts [of rid ?evts] readable by (cases "Reduce rid ?evts") auto
  have "Load rid db = Inr s" using Read_journal [OF j row] s tale by (simp add: Load_def tale_def)
  then show ?thesis using that Reduce_status [OF s] tale num(2) by (simp add: tale_def)
qed

end
