(* ===== verification/Relab_Delivered.thy ===== *)
theory Relab_Delivered
  imports Relab_Agree Relab_Attempts Relab_Diff
begin

text \<open>
  What a task delivered is on record twice, in the artifacts table and in its
  TASK_SUCCEEDED event.  The two are written in one transaction and nothing else writes
  either, so a comparison of a run's journal with the table never reports a divergence.
\<close>

section \<open>The artifacts a journal tells\<close>

definition success_event :: "event_row \<Rightarrow> bool" where
  "success_event e \<longleftrightarrow> Type_of_text (e_type e) = ETaskSucceeded"

definition success_of :: "string \<Rightarrow> event_row \<Rightarrow> bool" where
  "success_of n e \<longleftrightarrow> success_event e \<and> ev_TaskName (scan_event e) = n"

definition told_artifacts :: "string \<Rightarrow> event_row list \<Rightarrow> artifact list" where
  "told_artifacts n es =
     foldl (\<lambda>acc e. if success_of n e
                    then (case Decode (e_payload e) ETaskSucceeded of Inr p \<Rightarrow> artifactsOf (Artifacts p) | Inl _ \<Rightarrow> acc)
                    else acc) [] es"

lemma task_of_on_task: "task_of (on_task m f s) n = (if m = n then f (task_of s n) else task_of s n)"
  by (auto simp: task_of_def on_task_def update_conv' split: option.splits)

lemma task_of_fields [simp]:
  "task_of (s\<lparr>rs_Status := a\<rparr>) n = task_of s n" "task_of (s\<lparr>rs_FailureReason := a\<rparr>) n = task_of s n"
  "task_of (s\<lparr>rs_Workflow := a\<rparr>) n = task_of s n" "task_of (s\<lparr>rs_Version := v\<rparr>) n = task_of s n"
  "task_of (s\<lparr>rs_DefinitionHash := a\<rparr>) n = task_of s n" "task_of (s\<lparr>rs_Scenario := a\<rparr>) n = task_of s n"
  "task_of (s\<lparr>rs_Seed := v\<rparr>) n = task_of s n" "task_of (s\<lparr>rs_Faults := f\<rparr>) n = task_of s n"
  "task_of (s\<lparr>rs_SkippedEffects := g\<rparr>) n = task_of s n" "task_of (s\<lparr>rs_WorkersLost := v\<rparr>) n = task_of s n"
  by (simp_all add: task_of_def)

lemma apply_artifacts:
  assumes "apply_event s evt = Inr s'"
  shows "ts_Artifacts (task_of s' n) =
    (if ev_Type evt = ETaskSucceeded \<and> ev_TaskName evt = n
     then (case Decode (ev_Payload evt) ETaskSucceeded of Inr p \<Rightarrow> artifactsOf (Artifacts p) | Inl _ \<Rightarrow> ts_Artifacts (task_of s n))
     else ts_Artifacts (task_of s n))"
  using assms
  by (cases "ev_Type evt") (auto simp: apply_event_def decoded_def task_of_on_task split: sum.splits option.splits)

lemma Reduce_artifacts:
  "Reduce rid (map scan_event es) = Inr s \<Longrightarrow> ts_Artifacts (task_of s n) = told_artifacts n es"
proof (induction es arbitrary: s rule: rev_induct)
  case Nil
  then show ?case by (auto simp: Reduce_def new_state_def told_artifacts_def task_of_def new_task_def)
next
  case (snoc e es)
  then obtain s1 where s1: "Reduce rid (map scan_event es) = Inr s1"
    using reduce_loop_prefix [of 1 False "new_state rid" "map scan_event es" "[scan_event e]" s] by (auto simp: Reduce_def)
  from snoc.prems obtain s2 where s2: "apply_event s1 (scan_event e) = Inr s2" "s = count_event (scan_event e) s2"
    by (auto simp: Reduce_snoc [OF s1] reduce_step_def map_sum_def split: if_splits sum.splits)
  have "task_of s n = task_of s2 n" by (simp add: s2(2) task_of_def count_event_def)
  moreover have "ev_Type (scan_event e) = Type_of_text (e_type e)" "ev_Payload (scan_event e) = e_payload e"
    by (simp_all add: scan_event_def)
  ultimately show ?case using apply_artifacts [OF s2(1), of n] snoc.IH [OF s1]
    by (auto simp: told_artifacts_def success_of_def success_event_def split: sum.splits)
qed

lemma told_artifacts_filter: "told_artifacts n es = told_artifacts n (filter (success_of n) es)"
  by (induction es rule: rev_induct) (auto simp: told_artifacts_def)

lemma unmarshal_marshal_artifact_eq: "unmarshal_artifact (marshal_artifact a) = Some b \<Longrightarrow> b = a"
  by (cases a) (auto simp: unmarshal_artifact_def marshal_artifact_def lower_char_def split: option.splits if_splits)

lemma dec_list_same:
  assumes "\<And>x y. g (f x) = Some y \<Longrightarrow> y = x" and "dec_list g (map f xs) = Some ys"
  shows "ys = xs"
  using assms(2)
proof (induction xs arbitrary: ys)
  case (Cons x xs)
  then obtain y zs where g: "g (f x) = Some y" and zs: "dec_list g (map f xs) = Some zs" and ys: "ys = y # zs"
    by (auto split: option.splits)
  show ?case unfolding ys using assms(1) [OF g] Cons.IH [OF zs] by (rule arg_cong2 [where f = Cons])
qed simp

lemma decoded_artifacts:
  assumes "Decode (Encode (TaskSucceededPayload a d out refs)) ETaskSucceeded = Inr p"
  shows "Artifacts p = refs"
proof -
  let ?q = "TaskSucceededPayload a d out refs"
  have "unmarshal_payload ETaskSucceeded (sort_key fst (stamped ?q)) = Some p"
    using assms by (simp add: Decode_def Encode_stamped split: option.splits if_splits)
  then have "dec_slice unmarshal_artifact (field (sort_key fst (stamped ?q)) ''artifacts'') = Some (Artifacts p)"
    by (auto split: option.splits prod.splits)
  then have "dec_slice unmarshal_artifact (field (marshal_payload ?q) ''artifacts'') = Some (Artifacts p)"
    by (simp only: field_Encode field_stamped) simp
  then have "dec_list unmarshal_artifact (map marshal_artifact refs) = Some (Artifacts p) \<or> refs = [] \<and> Artifacts p = []"
    by (auto simp: omit_defs lower_char_def split: if_splits option.splits)
  then show ?thesis using dec_list_same [of unmarshal_artifact marshal_artifact, OF unmarshal_marshal_artifact_eq] by blast
qed

section \<open>Who writes them\<close>

definition quiet :: "artifact_row list \<Rightarrow> event_row list \<Rightarrow> db \<Rightarrow> bool" where
  "quiet A E db \<longleftrightarrow> tables_ok db \<and> artifacts db = A \<and> filter success_event (events db) = E"

named_theorems quiet_keeps \<open>statements that write neither\<close>

lemma quiet_append [quiet_keeps]:
  assumes "Payload_Type p \<noteq> ETaskSucceeded"
  shows "tx_keeps (quiet A E) (append now rid p m)"
proof (rule tx_keepsI)
  fix db x db'
  assume q: "quiet A E db" and a: "append now rid p m db = Inr (x, db')"
  then have t: "tables_ok db" by (simp add: quiet_def)
  from a show "quiet A E db'"
    by (rule append_change [OF t]) (use q assms append_frame [OF a] in \<open>auto simp: quiet_def success_event_def\<close>)
qed

lemma quiet_frame:
  assumes "tx_keeps tables_ok m" and "\<And>db x db'. m db = Inr (x, db') \<Longrightarrow> artifacts db' = artifacts db \<and> events db' = events db"
  shows "tx_keeps (quiet A E) m"
  by (rule tx_keepsI) (use assms tx_keepsD [OF assms(1)] in \<open>auto simp: quiet_def\<close>)

lemma untouched:
  "update_tasks c f db = Inr (n, db') \<Longrightarrow> artifacts db' = artifacts db \<and> events db' = events db"
  "update_runs d g db = Inr (n, db') \<Longrightarrow> artifacts db' = artifacts db \<and> events db' = events db"
  "insert_task t db = Inr (u, db') \<Longrightarrow> artifacts db' = artifacts db \<and> events db' = events db"
  "insert_workflow w db = Inr (u, db') \<Longrightarrow> artifacts db' = artifacts db \<and> events db' = events db"
  "insert_worker k db = Inr (u, db') \<Longrightarrow> artifacts db' = artifacts db \<and> events db' = events db"
  "insert_run r db = Inr (u, db') \<Longrightarrow> artifacts db' = artifacts db \<and> events db' = events db"
  "record_attempt a db = Inr (u, db') \<Longrightarrow> artifacts db' = artifacts db \<and> events db' = events db"
  "insert_dead_letter l db = Inr (u, db') \<Longrightarrow> artifacts db' = artifacts db \<and> events db' = events db"
  "record_effect key rid name raw db = Inr (b, db') \<Longrightarrow> artifacts db' = artifacts db \<and> events db' = events db"
  "update_workers e h db = Inr (n, db') \<Longrightarrow> artifacts db' = artifacts db \<and> events db' = events db"
  by (auto simp: update_tasks_Inr update_runs_Inr insert_task_def insert_workflow_def insert_worker_def insert_run_def
      record_attempt_def insert_attempt_def insert_dead_letter_def record_effect_def update_workers_def Let_def split: if_splits)

lemma quiet_statements [quiet_keeps]:
  "keys_kept f \<Longrightarrow> tx_keeps (quiet A E) (update_tasks c f)" "run_keys_kept g \<Longrightarrow> tx_keeps (quiet A E) (update_runs d g)"
  "tx_keeps (quiet A E) (insert_task t)" "tx_keeps (quiet A E) (insert_workflow w)" "tx_keeps (quiet A E) (insert_worker k)"
  "tx_keeps (quiet A E) (insert_run r)" "tx_keeps (quiet A E) (record_attempt a)" "tx_keeps (quiet A E) (insert_dead_letter l)"
  "tx_keeps (quiet A E) (record_effect key rid name raw)"
  "(\<And>x. wk_id (h x) = wk_id x) \<Longrightarrow> tx_keeps (quiet A E) (update_workers e h)"
  by (rule quiet_frame, simp add: tables_keeps tables_record_effect, erule untouched)+

lemma quiet_returning [quiet_keeps]: "keys_kept f \<Longrightarrow> tx_keeps (quiet A E) (update_tasks_returning c f)"
  by (intro keeps_update_returning quiet_keeps)

lemma quiet_operations:
  "tx_keeps (quiet A E) (create_run_tx env rid new_id wfl def opts seed now)"
  "tx_keeps (quiet A E) (claim_tx env locked now w ro limit)"
  "tx_keeps (quiet A E) (start_tx w task handler now)"
  "tx_keeps (quiet A E) (skipped_tx task key now)"
  "tx_keeps (quiet A E) (expire_tx env locked now)"
  "tx_keeps (quiet A E) (sweep_tx env now)"
  "tx_keeps (quiet A E) (retire_tx env wid now)"
  "tx_keeps (quiet A E) (renew_tx env w ids now)"
  "tx_keeps (quiet A E) (promote_tx locked now limit)"
  "tx_keeps (quiet A E) (cancel_tx rid reason now)"
  "tx_keeps (quiet A E) (heartbeat_tx wid load now)"
  "tx_keeps (quiet A E) (recordFailure env w task out err def now)"
  "tx_keeps (quiet A E) (unlockDependents def rid name now)"
  "tx_keeps (quiet A E) (settleRun rid now)"
  unfolding engine_tx_defs closing_defs
  by (intro keeps_rules quiet_keeps keys_kept_updates run_keys_kept_updates; simp)+

section \<open>What a success writes\<close>

abbreviation rows_of :: "uuid \<Rightarrow> string \<Rightarrow> artifact_row list \<Rightarrow> artifact_row list" where
  "rows_of rid n \<equiv> filter (\<lambda>a. a_run_id a = rid \<and> a_task_name a = n)"

definition row_hash :: "artifact_row list \<Rightarrow> string \<Rightarrow> string option" where
  "row_hash rows m = map_option a_sha256 (find (\<lambda>a. a_name a = m) rows)"

definition learn :: "(string \<Rightarrow> string option) \<Rightarrow> artifact_ref \<Rightarrow> string \<Rightarrow> string option" where
  "learn h r = h(ar_Name r \<mapsto> ar_SHA256 r)"

definition ref_hash :: "artifact_ref list \<Rightarrow> string \<Rightarrow> string option" where
  "ref_hash refs = foldl learn Map.empty refs"

lemma filter_sql_update: "(\<And>x. P (f x) \<longleftrightarrow> P x) \<Longrightarrow> filter P (sql_update c f rs) = sql_update c f (filter P rs)"
  by (induction rs) auto

lemma row_hash_snoc: "row_hash (rows @ [a]) m = (case row_hash rows m of Some h \<Rightarrow> Some h | None \<Rightarrow> if a_name a = m then Some (a_sha256 a) else None)"
  by (simp add: row_hash_def find_snoc split: option.splits)

lemma row_hash_update:
  assumes "\<exists>q\<in>set rows. c q" and "\<And>q. q \<in> set rows \<Longrightarrow> c q \<longleftrightarrow> a_name q = m" and "\<And>q. a_name (f q) = a_name q" "\<And>q. a_sha256 (f q) = h"
  shows "row_hash (sql_update c f rows) = (row_hash rows)(m \<mapsto> h)"
proof
  fix k
  have eq: "row_hash (sql_update c f rows) k = map_option a_sha256 (map_option (\<lambda>q. if c q then f q else q) (find (\<lambda>q. a_name q = k) rows))"
    using assms(3) by (simp add: row_hash_def find_sql_update)
  show "row_hash (sql_update c f rows) k = ((row_hash rows)(m \<mapsto> h)) k"
  proof (cases "find (\<lambda>q. a_name q = k) rows")
    case None
    then have "k \<noteq> m" using assms(1,2) by (auto simp: find_None_iff)
    then show ?thesis using None eq by (simp add: row_hash_def)
  next
    case (Some q)
    then have "q \<in> set rows" "a_name q = k" by (auto dest: find_key_Some)
    then show ?thesis using Some assms(2,4) unfolding eq by (auto simp: row_hash_def)
  qed
qed

text \<open>One upsert writes its name in the rows of its task and leaves those of every other.\<close>

lemma upsert_rows:
  assumes u: "upsert_artifact a db = Inr (x, db')" and d: "distinct (map a_name (rows_of (a_run_id a) (a_task_name a) (artifacts db)))"
  shows "row_hash (rows_of (a_run_id a) (a_task_name a) (artifacts db')) =
      (row_hash (rows_of (a_run_id a) (a_task_name a) (artifacts db)))(a_name a \<mapsto> a_sha256 a)" (is ?hash)
    and "distinct (map a_name (rows_of (a_run_id a) (a_task_name a) (artifacts db')))" (is ?dist)
    and "(rid, n) \<noteq> (a_run_id a, a_task_name a) \<Longrightarrow> rows_of rid n (artifacts db') = rows_of rid n (artifacts db)"
    and "tasks db' = tasks db" "events db' = events db"
proof -
  let ?same = "\<lambda>q. a_run_id q = a_run_id a \<and> a_task_name q = a_task_name a \<and> a_name q = a_name a"
  let ?f = "\<lambda>q. q\<lparr>a_sha256 := a_sha256 a, a_size := a_size a, a_content_type := a_content_type a\<rparr> :: artifact_row"
  let ?rows = "rows_of (a_run_id a) (a_task_name a) (artifacts db)"
  show "tasks db' = tasks db" "events db' = events db" using u by (auto simp: upsert_artifact_def Let_def split: if_splits)
  have both: "?hash \<and> ?dist \<and> ((rid, n) \<noteq> (a_run_id a, a_task_name a) \<longrightarrow> rows_of rid n (artifacts db') = rows_of rid n (artifacts db))"
  proof (cases "\<exists>q\<in>set (artifacts db). ?same q")
    case True
    with u have db': "artifacts db' = sql_update ?same ?f (artifacts db)"
      by (auto simp: upsert_artifact_def Let_def split: if_splits)
    have own: "rows_of (a_run_id a) (a_task_name a) (artifacts db') = sql_update ?same ?f ?rows"
      unfolding db' by (rule filter_sql_update) simp
    have "rows_of rid n (artifacts db') = sql_update ?same ?f (rows_of rid n (artifacts db))"
      unfolding db' by (rule filter_sql_update) simp
    then have "rows_of rid n (artifacts db') = rows_of rid n (artifacts db)" if "(rid, n) \<noteq> (a_run_id a, a_task_name a)"
      using that by (auto intro!: sql_update_none)
    moreover have ?hash unfolding own by (rule row_hash_update) (use True in auto)
    moreover have ?dist unfolding own using d by (simp add: map_sql_update)
    ultimately show ?thesis by blast
  next
    case False
    with u have db': "artifacts db' = artifacts db @ [a]" by (auto simp: upsert_artifact_def Let_def split: if_splits)
    have new: "a_name a \<notin> set (map a_name ?rows)" using False by auto
    then have "row_hash ?rows (a_name a) = None" unfolding row_hash_def set_map find_key_None [symmetric] by simp
    then have ?hash by (auto simp: db' row_hash_snoc fun_eq_iff split: option.splits)
    moreover have ?dist using d new by (simp add: db')
    moreover have "(rid, n) \<noteq> (a_run_id a, a_task_name a) \<longrightarrow> rows_of rid n (artifacts db') = rows_of rid n (artifacts db)"
      by (auto simp: db')
    ultimately show ?thesis by blast
  qed
  then show ?hash ?dist by blast+
  show "(rid, n) \<noteq> (a_run_id a, a_task_name a) \<Longrightarrow> rows_of rid n (artifacts db') = rows_of rid n (artifacts db)" using both by blast
qed

lemma recordArtifacts_rows:
  "recordArtifacts task as db = Inr (refs, db') \<Longrightarrow> distinct (map a_name (rows_of (t_run_id task) (t_name task) (artifacts db))) \<Longrightarrow>
     row_hash (rows_of (t_run_id task) (t_name task) (artifacts db')) =
       foldl learn (row_hash (rows_of (t_run_id task) (t_name task) (artifacts db))) refs
     \<and> distinct (map a_name (rows_of (t_run_id task) (t_name task) (artifacts db')))
     \<and> (\<forall>rid n. (rid, n) \<noteq> (t_run_id task, t_name task) \<longrightarrow> rows_of rid n (artifacts db') = rows_of rid n (artifacts db))
     \<and> tasks db' = tasks db \<and> events db' = events db"
proof (induction as arbitrary: db refs)
  case Nil
  then show ?case by (simp add: recordArtifacts_def)
next
  case (Cons a as)
  let ?row = "\<lparr>a_run_id = t_run_id task, a_task_name = t_name task, a_name = arec_Name a, a_sha256 = arec_SHA256 a,
    a_size = arec_Size a, a_content_type = arec_ContentType a\<rparr> :: artifact_row"
  from Cons.prems(1) obtain x db1 rs where u: "upsert_artifact ?row db = Inr (x, db1)"
    and rest: "recordArtifacts task as db1 = Inr (rs, db')"
    and refs: "refs = \<lparr>ar_Name = arec_Name a, ar_SHA256 = arec_SHA256 a, ar_Size = arec_Size a, ar_ContentType = arec_ContentType a\<rparr> # rs"
    by (auto simp: recordArtifacts_def record_artifact_def tx_bind_Inr)
  note up = upsert_rows [OF u, simplified, OF Cons.prems(2)]
  have "distinct (map a_name (rows_of (t_run_id task) (t_name task) (artifacts db1)))" using up(2) by simp
  note ih = Cons.IH [OF rest this]
  have "row_hash (rows_of (t_run_id task) (t_name task) (artifacts db1)) =
      learn (row_hash (rows_of (t_run_id task) (t_name task) (artifacts db))) (hd refs)"
    unfolding learn_def refs using up(1) by (simp only: list.sel artifact_ref.select_convs)
  then show ?case using ih up(3-5) refs by simp
qed

section \<open>The two records agree\<close>

abbreviation successes :: "uuid \<Rightarrow> string \<Rightarrow> event_row list \<Rightarrow> event_row list" where
  "successes rid n \<equiv> filter (\<lambda>e. e_run_id e = rid \<and> success_of n e)"

definition delivered_at :: "uuid \<Rightarrow> string \<Rightarrow> db \<Rightarrow> bool" where
  "delivered_at rid n db \<longleftrightarrow> distinct (map a_name (rows_of rid n (artifacts db)))
     \<and> (successes rid n (events db) = [] \<and> rows_of rid n (artifacts db) = []
        \<or> (\<exists>e a d out refs. successes rid n (events db) = [e] \<and> e_payload e = Encode (TaskSucceededPayload a d out refs)
             \<and> row_hash (rows_of rid n (artifacts db)) = ref_hash refs)
          \<and> (\<exists>t\<in>set (tasks db). t_run_id t = rid \<and> t_name t = n \<and> t_status t = TaskSucceeded))"

definition delivered :: "db \<Rightarrow> bool" where
  "delivered db \<longleftrightarrow> (\<forall>rid n. delivered_at rid n db)"

lemma successes_only: "successes rid n es = successes rid n (filter success_event es)"
  by (auto simp: success_of_def intro: filter_cong)

text \<open>A step that writes neither record and forgets no ended task.\<close>

lemma delivered_step:
  assumes d: "delivered_at rid n db" and t: "tables_ok db"
    and same: "rows_of rid n (artifacts db') = rows_of rid n (artifacts db)" "successes rid n (events db') = successes rid n (events db)"
    and ended: "\<And>t. ended_row t db \<Longrightarrow> ended_row t db'"
  shows "delivered_at rid n db'"
proof -
  have "\<exists>t\<in>set (tasks db'). t_run_id t = rid \<and> t_name t = n \<and> t_status t = TaskSucceeded"
    if q: "q \<in> set (tasks db)" "t_run_id q = rid" "t_name q = n" "t_status q = TaskSucceeded" for q
  proof -
    have "ended_row q db" using q t by (simp add: ended_row_def terminal_cases)
    then have "q \<in> set (tasks db')" using ended by (simp add: ended_row_def)
    then show ?thesis using q by blast
  qed
  then show ?thesis using d unfolding delivered_at_def same by blast
qed

lemma delivered_quiet:
  assumes "delivered db" and "tables_ok db" and "\<And>A E. tx_keeps (quiet A E) m" and "\<And>t. tx_keeps (ended_row t) m"
    and m: "m db = Inr (x, db')"
  shows "delivered db'"
proof -
  have "quiet (artifacts db) (filter success_event (events db)) db'"
    using tx_keepsD [OF assms(3) _ m] assms(2) by (simp add: quiet_def)
  then have same: "artifacts db' = artifacts db" "successes rid n (events db') = successes rid n (events db)" for rid n
    using successes_only [of rid n "events db"] successes_only [of rid n "events db'"] by (simp_all add: quiet_def)
  have "delivered_at rid n db'" for rid n
  proof (rule delivered_step)
    show "delivered_at rid n db" using assms(1) by (simp add: delivered_def)
    show "ended_row t db \<Longrightarrow> ended_row t db'" for t using tx_keepsD [OF assms(4) _ m] .
  qed (simp_all add: same assms(2))
  then show ?thesis by (simp add: delivered_def)
qed

lemma keeps_recordArtifacts: "tx_keeps tables_ok (recordArtifacts task as)" "tx_keeps (ended_row t) (recordArtifacts task as)"
  unfolding recordArtifacts_def record_artifact_def by (intro keeps_rules tables_keeps ended_keeps)+

lemma ended_after_success: "tx_keeps (ended_row t) (unlockDependents def rid n now)" "tx_keeps (ended_row t) (settleRun rid now)"
  unfolding unlockDependents_def unlock_one_def closing_defs
  by (intro keeps_rules ended_keeps ended_update keys_kept_updates run_keys_kept_updates; auto simp: terminal_cases)+

lemma recorded_name: "ev_TaskName (scan_event (stored now rid p (at_task n w now') v)) = n"
  by (simp add: nullString_def scan_event_def stored_def at_task_def)

lemma ended_recordSuccess: "tx_keeps (ended_row t) (recordSuccess w task out def now)"
  unfolding recordSuccess_def
  by (intro keeps_rules ended_keeps ended_update keys_kept_updates ended_after_success keeps_recordArtifacts; auto simp: terminal_cases)

text \<open>What a success leaves behind, seen from the task it is about and from every other.\<close>

lemma success_written:
  assumes t: "tables_ok db" and q: "q \<in> set (tasks db)" "held_by w task q" "t_status q = TaskRunning"
    and none: "rows_of (t_run_id task) (t_name task) (artifacts db) = []"
    and m: "recordSuccess w task out def now db = Inr (x, db')"
  obtains refs v where
    "filter success_event (events db') = filter success_event (events db)
       @ [stored now (t_run_id task) (TaskSucceededPayload (t_attempt task) (Milliseconds (o_Duration out)) (o_Output out) refs)
            (at_task (t_name task) (Some w) now) v]"
    "row_hash (rows_of (t_run_id task) (t_name task) (artifacts db')) = ref_hash refs"
    "distinct (map a_name (rows_of (t_run_id task) (t_name task) (artifacts db')))"
    "\<And>rid n. (rid, n) \<noteq> (t_run_id task, t_name task) \<Longrightarrow> rows_of rid n (artifacts db') = rows_of rid n (artifacts db)"
    "succeed (o_Output out) now q \<in> set (tasks db')"
proof -
  let ?rid = "t_run_id task" and ?n = "t_name task"
  let ?c = "\<lambda>t. held_by w task t \<and> t_status t = TaskRunning" and ?f = "succeed (o_Output out) now"
  let ?p = "\<lambda>refs. TaskSucceededPayload (t_attempt task) (Milliseconds (o_Duration out)) (o_Output out) refs"
  let ?m = "at_task ?n (Some w) now"
  from m obtain k db1 refs db2 y db3 z db4 where u: "update_tasks ?c ?f db = Inr (k, db1)"
    and r: "recordArtifacts task (o_Artifacts out) db1 = Inr (refs, db2)"
    and a: "append now ?rid (?p refs) ?m db2 = Inr (y, db3)"
    and l: "unlockDependents def ?rid ?n now db3 = Inr (z, db4)" and s: "settleRun ?rid now db4 = Inr (x, db')"
    by (auto simp: recordSuccess_def tx_bind_Inr split: if_splits)
  have t1: "tables_ok db1" by (rule tx_keepsD [OF tables_update_tasks t u]) (rule keys_kept_updates)
  have e1: "ended_row (?f q) db1"
    using q t1 u by (auto simp: ended_row_def update_tasks_Inr in_sql_update succeed_def terminal_cases)
  have db1: "artifacts db1 = artifacts db" "events db1 = events db" using u by (simp_all add: update_tasks_Inr)
  have start: "row_hash (rows_of ?rid ?n (artifacts db)) = Map.empty" "distinct (map a_name (rows_of ?rid ?n (artifacts db1)))"
    by (simp_all add: db1 none row_hash_def fun_eq_iff)
  note rows = recordArtifacts_rows [OF r start(2), unfolded db1 start(1)]
  have t2: "tables_ok db2" by (rule tx_keepsD [OF keeps_recordArtifacts(1) t1 r])
  obtain v where ev: "events db3 = events db2 @ [stored now ?rid (?p refs) ?m v]" and t3: "tables_ok db3"
    using a by (rule append_change [OF t2]) (rule that)
  let ?E = "filter success_event (events db) @ [stored now ?rid (?p refs) ?m v]"
  have "quiet (artifacts db2) ?E db3"
    using ev t3 rows append_frame(6) [OF a] by (simp add: quiet_def success_event_def)
  then have "quiet (artifacts db2) ?E db'"
    using tx_keepsD [OF quiet_operations(14) tx_keepsD [OF quiet_operations(13) _ l] s] by blast
  moreover have "ended_row (?f q) db'"
    by (rule tx_keepsD [OF ended_after_success(2) tx_keepsD [OF ended_after_success(1)
          tx_keepsD [OF ended_statements(1) tx_keepsD [OF keeps_recordArtifacts(2) e1 r] a] l] s])
  ultimately show ?thesis
    using that [of refs v] rows by (simp add: quiet_def ref_hash_def ended_row_def)
qed

lemma delivered_success:
  assumes ok: "delivered db" "tables_ok db" and copy: "copy_of_task task db" and m: "recordSuccess w task out def now db = Inr (x, db')"
  shows "delivered db'"
proof -
  let ?rid = "t_run_id task" and ?n = "t_name task"
  let ?p = "\<lambda>refs. TaskSucceededPayload (t_attempt task) (Milliseconds (o_Duration out)) (o_Output out) refs"
  obtain q where q: "q \<in> set (tasks db)" "held_by w task q" "t_status q = TaskRunning"
    using m by (auto simp: recordSuccess_def tx_bind_Inr update_tasks_Inr split: if_splits)
  obtain t where t: "t \<in> set (tasks db)" "t_id t = t_id task" "t_run_id t = ?rid" "t_name t = ?n"
    using copy by (auto simp: copy_of_task_def)
  have names: "t_run_id q = ?rid" "t_name q = ?n"
    using task_id_unique [OF ok(2) t(1) q(1)] t q(2) by (auto simp: held_by_def)
  have "\<not> (\<exists>t\<in>set (tasks db). t_run_id t = ?rid \<and> t_name t = ?n \<and> t_status t = TaskSucceeded)"
    using task_find [OF ok(2)] task_find [OF ok(2) q(1)] names q(3) by fastforce
  then have none: "successes ?rid ?n (events db) = []" "rows_of ?rid ?n (artifacts db) = []"
    using ok(1) unfolding delivered_def delivered_at_def by blast+
  obtain refs v where w: "filter success_event (events db') = filter success_event (events db) @ [stored now ?rid (?p refs) (at_task ?n (Some w) now) v]"
    "row_hash (rows_of ?rid ?n (artifacts db')) = ref_hash refs" "distinct (map a_name (rows_of ?rid ?n (artifacts db')))"
    "\<And>rid n. (rid, n) \<noteq> (?rid, ?n) \<Longrightarrow> rows_of rid n (artifacts db') = rows_of rid n (artifacts db)"
    "succeed (o_Output out) now q \<in> set (tasks db')"
    by (rule success_written [OF ok(2) q none(2) m]) (rule that)
  have ev: "successes rid n (events db') = successes rid n (events db)
      @ (if (rid, n) = (?rid, ?n) then [stored now ?rid (?p refs) (at_task ?n (Some w) now) v] else [])" for rid n
    unfolding successes_only [of rid n "events db'"] successes_only [of rid n "events db"] w(1)
    by (auto simp: success_of_def success_event_def recorded_name)
  have "delivered_at rid n db'" for rid n
  proof (cases "(rid, n) = (?rid, ?n)")
    case False
    show ?thesis
      by (rule delivered_step [where db = db])
        (use ok False ev [of rid n] w(4) tx_keepsD [OF ended_recordSuccess _ m] in \<open>auto simp: delivered_def\<close>)
  next
    case True
    have "t_run_id (succeed (o_Output out) now q) = ?rid \<and> t_name (succeed (o_Output out) now q) = ?n
        \<and> t_status (succeed (o_Output out) now q) = TaskSucceeded" using names by (simp add: succeed_def)
    then have "\<exists>t\<in>set (tasks db'). t_run_id t = ?rid \<and> t_name t = ?n \<and> t_status t = TaskSucceeded" using w(5) by blast
    moreover have "e_payload (stored now ?rid (?p refs) (at_task ?n (Some w) now) v) = Encode (?p refs)" by (simp add: stored_def)
    moreover have "successes ?rid ?n (events db') = [stored now ?rid (?p refs) (at_task ?n (Some w) now) v]" using ev [of ?rid ?n] none by simp
    ultimately show ?thesis using True w(2,3) unfolding delivered_at_def by blast
  qed
  then show ?thesis by (simp add: delivered_def)
qed

lemma engine_tx_delivered:
  assumes tx: "engine_tx env db m" and ok: "delivered db" "tables_ok db" and m: "m db = Inr ((), db')"
  shows "delivered db'"
proof (cases "\<exists>w task out now. m = complete_tx env w task out now \<and> copy_of_task task db")
  case True
  then obtain w task out now def db1 where copy: "copy_of_task task db" and d: "definitionForRun env (t_run_id task) db = Inr (def, db1)"
    and rest: "(case o_Err out of Some err \<Rightarrow> recordFailure env w task out err def now | None \<Rightarrow> recordSuccess w task out def now) db1 = Inr ((), db')"
    and eq: "m = complete_tx env w task out now"
    using m by (auto simp: complete_tx_def tx_bind_Inr)
  have db1: "db1 = db" using d by (auto simp: definitionForRun_def tx_bind_Inr tx_lift_Inr)
  show ?thesis
  proof (cases "o_Err out")
    case None
    then show ?thesis using delivered_success [OF ok copy] rest db1 by simp
  next
    case (Some err)
    then have m': "recordFailure env w task out err def now db = Inr ((), db')" using rest db1 by simp
    have "tx_keeps (ended_row t) (recordFailure env w task out err def now)" for t
      unfolding recordFailure_def scheduleRetry_def deadLetter_def abandonDependents_def abandon_one_def closing_defs
      by (intro keeps_rules ended_keeps ended_update keys_kept_updates run_keys_kept_updates; auto simp: terminal_cases buriable_def)
    then show ?thesis using delivered_quiet [OF ok quiet_operations(12) _ m'] by blast
  qed
next
  case False
  have "tx_keeps (quiet A E) m" for A E
    using tx False by cases (auto intro!: quiet_operations quiet_keeps keeps_rules)
  then show ?thesis using delivered_quiet [OF ok _ engine_tx_ended [OF tx] m] by blast
qed

interpretation delivered: engine_invariant env delivered for env
proof unfold_locales
  show "delivered empty_db" by (simp add: delivered_def delivered_at_def empty_db_def)
qed (use engine_tx_delivered tables.holds in blast)

section \<open>A comparison finds nothing\<close>

lemma artifact_hash_snoc: "artifact_hash (arts @ [x]) = (artifact_hash arts)(art_Name x \<mapsto> art_SHA256 x)"
  by (simp add: artifact_hash_def artifactsByName_def update_conv' fun_eq_iff)

lemma artifact_hash_refs: "artifact_hash (artifactsOf refs) = ref_hash refs"
proof (induction refs rule: rev_induct)
  case Nil
  then show ?case by (simp add: artifactsOf_def artifact_hash_def artifactsByName_def ref_hash_def fun_eq_iff)
next
  case (snoc r refs)
  have "artifactsOf (refs @ [r]) = artifactsOf refs @ artifactsOf [r]" by (simp add: artifactsOf_def)
  then show ?case using snoc by (simp add: artifactsOf_def artifact_hash_snoc ref_hash_def learn_def)
qed

lemma artifact_hash_rows: "distinct (map a_name rows) \<Longrightarrow> artifact_hash (map artifact_of_row rows) = row_hash rows"
proof (induction rows rule: rev_induct)
  case Nil
  then show ?case by (simp add: artifact_hash_def artifactsByName_def row_hash_def fun_eq_iff)
next
  case (snoc a rows)
  then have "find (\<lambda>q. a_name q = a_name a) rows = None" by (simp add: find_key_None)
  then have "row_hash rows (a_name a) = None" by (simp add: row_hash_def)
  then show ?case using snoc
    by (auto simp: artifact_hash_snoc row_hash_snoc artifact_of_row_def fun_eq_iff split: option.splits)
qed

lemma row_hash_iff: "distinct (map a_name rows) \<Longrightarrow> row_hash rows m = Some h \<longleftrightarrow> (\<exists>a\<in>set rows. a_name a = m \<and> a_sha256 a = h)"
  by (auto simp: row_hash_def find_key_in dest: find_key_Some)

lemma option_ext: "(\<And>h. x = Some h \<longleftrightarrow> y = Some h) \<Longrightarrow> x = y"
  by (cases x; cases y) auto

lemma stored_hash:
  assumes "distinct (map a_name (rows_of rid n (artifacts db)))"
  shows "artifact_hash (StoredArtifacts rid db n) = row_hash (rows_of rid n (artifacts db))"
proof -
  let ?rows = "rows_of rid n (artifacts db)"
  have d: "distinct (map a_name (sort_key a_name ?rows))" using assms by (simp add: distinct_map)
  have "row_hash (sort_key a_name ?rows) m = Some h \<longleftrightarrow> row_hash ?rows m = Some h" for m h
    unfolding row_hash_iff [OF d] row_hash_iff [OF assms] by simp
  then have "row_hash (sort_key a_name ?rows) m = row_hash ?rows m" for m by (rule option_ext)
  then show ?thesis using artifact_hash_rows [OF d] by (simp add: StoredArtifacts_def fun_eq_iff)
qed

lemma artifacts_verified:
  assumes r: "reachable env db" and readable: "list_all payload_readable (map scan_event (run_events rid db))"
    and s: "Reduce rid (map scan_event (run_events rid db)) = Inr s"
  shows "VerifyArtifacts s (StoredArtifacts rid db) = []"
proof -
  have "artifact_hash (ts_Artifacts (task_of s n)) = artifact_hash (StoredArtifacts rid db n)" for n
  proof -
    have d: "delivered_at rid n db" using delivered.holds [OF r] by (simp add: delivered_def)
    then have stored: "artifact_hash (StoredArtifacts rid db n) = row_hash (rows_of rid n (artifacts db))"
      by (intro stored_hash) (simp add: delivered_at_def)
    have evs: "filter (success_of n) (run_events rid db) = successes rid n (events db)"
      by (simp add: run_events_def filter_filter conj_commute)
    have told: "ts_Artifacts (task_of s n) = told_artifacts n (successes rid n (events db))"
      using Reduce_artifacts [OF s] told_artifacts_filter [of n "run_events rid db"] by (simp only: evs)
    from d consider "successes rid n (events db) = []" "rows_of rid n (artifacts db) = []"
      | e a d out refs where "successes rid n (events db) = [e]" "e_payload e = Encode (TaskSucceededPayload a d out refs)"
          "row_hash (rows_of rid n (artifacts db)) = ref_hash refs"
      unfolding delivered_at_def by blast
    then show ?thesis
    proof cases
      case 1
      then show ?thesis using told stored
        by (simp add: told_artifacts_def artifact_hash_def artifactsByName_def row_hash_def fun_eq_iff)
    next
      case (2 e a d out refs)
      have "e \<in> set (filter (success_of n) (run_events rid db))" unfolding evs 2(1) by simp
      then have e: "e \<in> set (run_events rid db)" "success_of n e" by simp_all
      then have "payload_readable (scan_event e)" using readable by (auto simp: list_all_iff)
      then obtain p where p: "Decode (e_payload e) ETaskSucceeded = Inr p"
        using e(2) by (cases "Decode (e_payload e) ETaskSucceeded")
          (auto simp: payload_readable_def scan_event_def success_of_def success_event_def)
      then have "Artifacts p = refs" using 2(2) decoded_artifacts by simp
      then show ?thesis using told stored 2 p e(2) by (simp add: told_artifacts_def artifact_hash_refs)
    qed
  qed
  then show ?thesis by (simp add: VerifyArtifacts_Nil same_artifacts_def)
qed

end
