(* ===== verification/Relab_Verdict.thy ===== *)
theory Relab_Verdict
  imports Relab_Cli Relab_Delivered
begin

text \<open>
  What the commands may be relied on for while the rest of the system runs beside them: the
  verdict of \<^verbatim>\<open>replay --diff\<close> on a closed run, the reports of \<^verbatim>\<open>test\<close>, the exit status of \<^verbatim>\<open>run\<close>
  and the journals of \<^verbatim>\<open>export\<close>.
\<close>

section \<open>A closed run while others run\<close>

lemma read_dbE:
  assumes "read_db f w = (x, w')"
  shows "w' = pass w" and "x = f (w_db w')"
  using assms by (auto simp: read_db_def)

definition closed_as :: "uuid \<Rightarrow> run_row \<Rightarrow> event_row list \<Rightarrow> db \<Rightarrow> bool" where
  "closed_as rid run es db \<longleftrightarrow> run_by_id rid db = Some run \<and> r_completed_at run \<noteq> None \<and> run_events rid db = es"

lemma closed_steps:
  assumes "(sys_step env)\<^sup>*\<^sup>* db db'" and "reachable env db" and "closed_as rid run es db"
  shows "closed_as rid run es db'"
  using assms
proof (induction rule: rtranclp_induct)
  case (step db1 db2)
  then have "closed_as rid run es db1" "reachable env db1" using reachable_steps by blast+
  then show ?case using closed_run_frozen [OF _ step.hyps(2)] by (auto simp: closed_as_def)
qed

text \<open>A stretch of the world that only takes steps keeps what is known of it.\<close>

definition sound_world :: "env \<Rightarrow> world \<Rightarrow> bool" where
  "sound_world env w \<longleftrightarrow> reachable env (w_db w) \<and> others_ok env (w_turn w)"

lemma ran_sound: "ran env w w' \<Longrightarrow> sound_world env w \<Longrightarrow> sound_world env w'"
  using on_db_tables by (auto simp: sound_world_def)

lemma ran_closed: "ran env w w' \<Longrightarrow> sound_world env w \<Longrightarrow> closed_as rid run es (w_db w) \<Longrightarrow> closed_as rid run es (w_db w')"
  using closed_steps by (auto simp: sound_world_def ran_def)

lemma Load_closed:
  assumes "reachable env db" and "closed_as rid run es db"
  shows "Read rid db = Inr (map scan_event es)" and "es \<noteq> []" and "told es = RunStatus_String (r_status run)"
    and "int (length es) = r_event_seq run"
proof -
  have row: "run_by_id rid db = Some run" and es: "run_events rid db = es" using assms(2) by (auto simp: closed_as_def)
  show "Read rid db = Inr (map scan_event es)" using Read_journal [OF journal.holds [OF assms(1)] row] es by simp
  have "tale run es" using storyD(1) [OF story.holds [OF assms(1)] row] es by simp
  then show "es \<noteq> []" "told es = RunStatus_String (r_status run)" by (simp_all add: tale_def)
  show "int (length es) = r_event_seq run"
    using journal.holds [OF assms(1)] run_by_idD [OF row] es by (auto simp: journal_ok_def)
qed

section \<open>replay\<close>

lemma compare_self: "Compare s s = []"
  using Compare_Match [of s s] equivp_reflp [OF same_outcome_equiv] by (simp add: Match_def)

lemma replay_closed:
  assumes w: "sound_world env w" and c: "closed_as rid run es (w_db w)" and readable: "list_all payload_readable (map scan_event es)"
    and arg: "he_uuid h arg = Some rid" "open_db h = None"
  shows "\<exists>s w'. replayCmd h True arg w = ((Some (Compared s []), None), w')
    \<and> rs_Status s = RunStatus_String (r_status run) \<and> rs_EventCount s = r_event_seq run"
proof -
  let ?w1 = "pass w" and ?w2 = "pass (pass w)" and ?w3 = "pass (pass (pass w))"
  have s: "sound_world env ?w1" "sound_world env ?w2" "sound_world env ?w3" using ran_sound ran_pass w by blast+
  have k: "closed_as rid run es (w_db ?w1)" "closed_as rid run es (w_db ?w2)" "closed_as rid run es (w_db ?w3)"
    using ran_closed ran_pass s w c by blast+
  have r: "reachable env (w_db ?w1)" "reachable env (w_db ?w2)" "reachable env (w_db ?w3)" using s by (auto simp: sound_world_def)
  obtain st where st: "Load rid (w_db ?w1) = Inr st" "rs_Status st = RunStatus_String (r_status run)" "rs_EventCount st = r_event_seq run"
    by (rule replayed_status [OF r(1), of rid run]) (use k(1) readable in \<open>auto simp: closed_as_def\<close>)
  then have red: "Reduce rid (map scan_event es) = Inr st"
    using Load_closed(1,2) [OF r(1) k(1)] by (auto simp: Load_def split: sum.splits)
  have "Load rid (w_db ?w3) = Inr st" using red Load_closed(1,2) [OF r(3) k(3)] by (simp add: Load_def)
  moreover have "VerifyArtifacts st (StoredArtifacts rid (w_db ?w2)) = []"
    using artifacts_verified [OF r(2), of rid st] k(2) readable red by (simp add: closed_as_def)
  ultimately show ?thesis
    using st arg by (simp add: replayCmd_def read_db_def renderReport_def compare_self Match_def)
qed

section \<open>Runs driven to their end\<close>

lemma RunByID_closed:
  assumes "reachable env db" and "RunByID rid db = Inr run" and "RunStatus_Terminal (run_Status run)"
  shows "\<exists>row. closed_as rid row (run_events rid db) db"
proof -
  from assms(2) obtain row where row: "run_by_id rid db = Some row" "run_Status run = r_status row"
    by (auto simp: RunByID_def scanRun_def split: option.splits)
  moreover have "run_check row" using tables.holds [OF assms(1)] run_by_idD [OF row(1)] by (auto simp: tables_ok_def list_all_iff)
  ultimately show ?thesis using assms(3) by (auto simp: closed_as_def run_check_def)
qed

lemma LocalRunner_row: "LocalRunner_Run n x rid w = (Some (Inr run), w') \<Longrightarrow> RunByID rid (w_db w') = Inr run"
proof (induction n arbitrary: w)
  case (Suc n)
  obtain r1 w1 where p: "local_pass x rid w = (r1, w1)" by (metis prod.exhaust)
  have "RunByID rid (w_db w1) = Inr run" if "r1 = Some (Inr run)"
    using p that
    by (auto simp: local_pass_def read_db_def split: if_splits sum.splits option.splits prod.splits)
  then show ?case using Suc p by (auto split: option.splits)
qed simp

lemma ran_NewLocalRunner: "NewLocalRunner x wid w = (r, w') \<Longrightarrow> ran env w w'"
  by (auto simp: NewLocalRunner_def intro!: sys_step.register_worker elim!: ran_on_db split: prod.splits sum.splits)

lemma ran_Close: "ran (ex_env x) w (LocalRunner_Close x w)"
proof -
  obtain r w1 where c: "on_db (\<lambda>now. RetireWorker (ex_env x) (ex_worker x) now) w = (r, w1)" by (metis prod.exhaust)
  then have "ran (ex_env x) w w1" by (rule ran_on_db) (simp add: sys_step.retire)
  then show ?thesis using c by (simp add: LocalRunner_Close_def)
qed

lemma DriveWithFaults_closed:
  assumes d: "DriveWithFaults fuel x wid rid faults w = (r, w')" and w: "sound_world (ex_env x) w"
  shows "ran (ex_env x) w w' \<and> (\<forall>run. r = Some (Inr run) \<longrightarrow> (\<exists>row es. closed_as rid row es (w_db w')))"
proof -
  obtain r1 w1 where n: "NewLocalRunner x wid w = (r1, w1)" by (metis prod.exhaust)
  have m1: "ran (ex_env x) w w1" by (rule ran_NewLocalRunner [OF n])
  show ?thesis
  proof (cases r1)
    case (Inl e)
    then show ?thesis using d n m1 by (auto simp: DriveWithFaults_def)
  next
    case (Inr y)
    then have y: "ex_env y = ex_env x" using n by (auto simp: NewLocalRunner_def split: prod.splits sum.splits)
    obtain r2 w2 where l: "LocalRunner_Run fuel (y\<lparr>ex_faults := Some faults\<rparr>) rid w1 = (r2, w2)" by (metis prod.exhaust)
    have w1: "sound_world (ex_env x) w1" by (rule ran_sound [OF m1 w])
    have run: "ran (ex_env x) w1 w2" "\<And>run. r2 = Some (Inr run) \<Longrightarrow> RunStatus_Terminal (run_Status run)"
      using LocalRunner_steps [OF l] w1 y by (auto simp: sound_world_def)
    have w2: "sound_world (ex_env x) w2" by (rule ran_sound [OF run(1) w1])
    have close: "ran (ex_env x) w2 (LocalRunner_Close y w2)" using ran_Close [of y w2] y by simp
    have out: "w' = (if r = Some (Inl ProcessKilled) then w2 else LocalRunner_Close y w2) \<and> r = r2"
      using d n Inr l by (auto simp: DriveWithFaults_def split: option.splits sum.splits local_error.splits)
    have "\<exists>row es. closed_as rid row es (w_db w')" if ended: "r = Some (Inr run)" for run
    proof -
      have "RunByID rid (w_db w2) = Inr run" using LocalRunner_row l out ended by auto
      moreover have "RunStatus_Terminal (run_Status run)" "reachable (ex_env x) (w_db w2)"
        using run(2) w2 out ended by (auto simp: sound_world_def)
      ultimately obtain row where "closed_as rid row (run_events rid (w_db w2)) (w_db w2)" using RunByID_closed by blast
      then have "closed_as rid row (run_events rid (w_db w2)) (w_db w')" using ran_closed [OF close w2] out ended by simp
      then show ?thesis by blast
    qed
    moreover have "ran (ex_env x) w w'" using out close run(1) m1 by (auto intro: ran_trans)
    ultimately show ?thesis by blast
  qed
qed

lemma waitForRun_closed:
  "waitForRun n rid w = (r, w') \<Longrightarrow> sound_world env w \<Longrightarrow> ran env w w'
    \<and> (\<forall>run. r = Some (Inr (Some run)) \<longrightarrow> RunStatus_Terminal (run_Status run) \<longrightarrow> (\<exists>row es. closed_as rid row es (w_db w')))"
proof (induction n arbitrary: w)
  case (Suc n)
  have p: "ran env w (pass w)" "sound_world env (pass w)" using ran_pass ran_sound Suc.prems(2) by blast+
  show ?case
  proof (cases "tn_ctx (w_turn w (w_at w)) = None")
    case True
    show ?thesis
    proof (cases "RunByID rid (w_db (pass w))")
      case (Inr run)
      have "\<exists>row es. closed_as rid row es (w_db (pass w))" if "RunStatus_Terminal (run_Status run)"
        using RunByID_closed [OF _ Inr that, of env] p(2) by (auto simp: sound_world_def)
      moreover have "ran env (pass w) w' \<Longrightarrow> ran env w w'" using p(1) ran_trans by blast
      ultimately show ?thesis using Suc.prems(1) Suc.IH [OF _ p(2)] True Inr p(1) by (auto simp: read_db_def split: if_splits)
    qed (use Suc.prems(1) True p in \<open>auto simp: read_db_def\<close>)
  qed (use Suc.prems(1) in auto)
qed simp

text \<open>A wait ends as soon as its context does.\<close>

lemma waitForRun_returns:
  assumes "tn_ctx (w_turn w (w_at w + n)) \<noteq> None"
  shows "fst (waitForRun (Suc n) rid w) \<noteq> None"
  using assms
proof (induction n arbitrary: w)
  case (Suc n)
  have "w_turn (pass w) = w_turn w" "w_at (pass w) = Suc (w_at w)" by (simp_all add: pass_def)
  then show ?case using Suc.IH [of "pass w"] Suc.prems by (auto simp: read_db_def split: sum.split)
qed simp

section \<open>test\<close>

lemma apply_run_id: "apply_event s evt = Inr s' \<Longrightarrow> rs_RunID s' = rs_RunID s"
  by (cases "ev_Type evt") (auto simp: apply_event_def decoded_def on_task_def split: sum.splits option.splits)

lemma reduce_run_id: "reduce_loop n b s evts = Inr s' \<Longrightarrow> rs_RunID s' = rs_RunID s"
  by (induction n b s evts rule: reduce_loop.induct)
    (auto simp: Let_def dest!: apply_run_id split: if_splits sum.splits)

lemma Reduce_run_id: "Reduce rid evts = Inr s \<Longrightarrow> rs_RunID s = rid"
  by (auto simp: Reduce_def new_state_def dest!: reduce_run_id)

text \<open>What a report says: whose run it is and how that ended.\<close>

definition report_true :: "db \<Rightarrow> Relab_Assert.report \<Rightarrow> bool" where
  "report_true db rep \<longleftrightarrow> (\<exists>run es. closed_as (rep_RunID rep) run es db \<and> rep_FinalState rep = RunStatus_String (r_status run))"

lemma report_stays: "ran env w w' \<Longrightarrow> sound_world env w \<Longrightarrow> report_true (w_db w) rep \<Longrightarrow> report_true (w_db w') rep"
  unfolding report_true_def using ran_closed by blast

lemma evaluateRun_closed:
  assumes e: "evaluateRun sc rid w = (r, w')" and w: "sound_world env w" and c: "closed_as rid run es (w_db w)"
  shows "ran env w w' \<and> (\<forall>rep. r = Inr rep \<longrightarrow> rep_RunID rep = rid \<and> report_true (w_db w') rep)"
proof -
  let ?w1 = "pass w" and ?w3 = "pass (pass (pass w))"
  have m: "ran env w ?w1" "ran env w ?w3" using ran_pass ran_trans by blast+
  have w1: "reachable env (w_db ?w1)" "closed_as rid run es (w_db ?w1)"
    using ran_sound [OF m(1) w] ran_closed [OF m(1) w c] by (auto simp: sound_world_def)
  have w3: "closed_as rid run es (w_db ?w3)" by (rule ran_closed [OF m(2) w c])
  have "w' = ?w1 \<or> w' = ?w3" using e Load_closed(1) [OF w1]
    by (auto simp: evaluateRun_def countDuplicateEffects_def read_db_def Let_def split: sum.splits)
  moreover have "rep_RunID rep = rid \<and> report_true (w_db w') rep" if rep: "r = Inr rep" for rep
  proof -
    obtain st n where st: "Reduce rid (map scan_event es) = Inr st" "rep = Evaluate sc st (map scan_event es) n" "w' = ?w3"
      using e rep Load_closed(1) [OF w1]
      by (auto simp: evaluateRun_def countDuplicateEffects_def read_db_def Let_def split: sum.splits)
    then have "rep_RunID rep = rid" "rep_FinalState rep = RunStatus_String (r_status run)"
      using Reduce_status [of rid es st] Reduce_run_id Load_closed(3) [OF w1] by (auto simp: Evaluate_def Let_def)
    then show ?thesis using w3 st(3) by (auto simp: report_true_def)
  qed
  ultimately show ?thesis using m by blast
qed

definition known_workflow :: "env \<Rightarrow> workflow_row \<Rightarrow> wf_definition \<Rightarrow> db \<Rightarrow> bool" where
  "known_workflow env wfl def db \<longleftrightarrow> wfl \<in> set (workflows db) \<and> Definition env (w_id wfl) db = Inr def"

lemma known_steps: "(sys_step env)\<^sup>*\<^sup>* db db' \<Longrightarrow> known_workflow env wfl def db \<Longrightarrow> known_workflow env wfl def db'"
  by (induction rule: rtranclp_induct) (auto simp: known_workflow_def intro: workflow_stays)

lemma ran_known: "ran env w w' \<Longrightarrow> sound_world env w \<Longrightarrow> known_workflow env wfl def (w_db w) \<Longrightarrow> known_workflow env wfl def (w_db w')"
  using known_steps by (auto simp: sound_world_def ran_def)

lemma ran_create_run:
  assumes c: "create_run x f wfl def opts w = (r, w')" and w: "sound_world (ex_env x) w" and k: "known_workflow (ex_env x) wfl def (w_db w)"
  shows "ran (ex_env x) w w' \<and> (\<forall>run. r = Inr run \<longrightarrow> run_ID run = fr_run f)"
proof -
  let ?E = "ex_env x" and ?db = "w_db (pass w)" and ?now = "tn_now (w_turn w (w_at w))"
  let ?create = "CreateRun ?E (fr_bits f) (fr_run f) (fr_task f) ?now wfl def opts ?db"
  have w': "w' = (pass w)\<lparr>w_db := snd ?create\<rparr>" "r = fst ?create" using c by (auto simp: create_run_def on_db_def split: prod.splits)
  have "known_workflow ?E wfl def ?db" by (rule ran_known [OF ran_pass w k])
  then have "sys_step ?E ?db (snd ?create)" by (auto simp: known_workflow_def intro: sys_step.create_run)
  then have "ran ?E (pass w) w'" by (auto simp: ran_def w')
  then have "ran ?E w w'" using ran_pass ran_trans by blast
  then show ?thesis by (auto simp: w'(2) CreateRun_def Let_def split: if_splits prod.splits sum.splits)
qed

lemma runScenario_true:
  assumes s: "runScenario fuel x f wfl def sc seed w = (r, w')" and w: "sound_world (ex_env x) w"
    and k: "known_workflow (ex_env x) wfl def (w_db w)"
  shows "ran (ex_env x) w w' \<and> (\<forall>rep. r = Some (Inr rep) \<longrightarrow> report_true (w_db w') rep)"
proof -
  let ?E = "ex_env x"
  obtain r1 w1 where c: "create_run x f wfl def (scenario_options sc seed) w = (r1, w1)" by (metis prod.exhaust)
  have m1: "ran ?E w w1" using ran_create_run [OF c w k] by simp
  have w1: "sound_world ?E w1" by (rule ran_sound [OF m1 w])
  show ?thesis
  proof (cases r1)
    case (Inr run)
    obtain r2 w2 where d: "DriveWithFaults fuel x (fr_worker f) (run_ID run) (Some (StaticLookup (Some sc))) w1 = (r2, w2)" by (metis prod.exhaust)
    note drive = DriveWithFaults_closed [OF d w1]
    have m2: "ran ?E w w2" and w2: "sound_world ?E w2" using drive ran_trans [OF m1] ran_sound [OF _ w1] by blast+
    show ?thesis
    proof (cases "\<exists>final. r2 = Some (Inr final)")
      case True
      then obtain row es where closed: "closed_as (run_ID run) row es (w_db w2)" using drive by blast
      obtain r3 w3 where e: "evaluateRun sc (run_ID run) w2 = (r3, w3)" by (metis prod.exhaust)
      have "w' = w3 \<and> r = Some r3" using s c Inr d True e by (auto simp: runScenario_def)
      then show ?thesis using evaluateRun_closed [OF e w2 closed] ran_trans [OF m2] by auto
    next
      case False
      then have "w' = w2 \<and> (\<forall>rep. r \<noteq> Some (Inr rep))" using s c Inr d by (auto simp: runScenario_def split: option.splits sum.splits)
      then show ?thesis using m2 by simp
    qed
  qed (use s c m1 in \<open>auto simp: runScenario_def\<close>)
qed

lemma runScenarioWithPool_closed:
  assumes p: "runScenarioWithPool fuel h x f wfl def sc seed k w = (r, w')" and w: "sound_world (ex_env x) w"
    and known: "known_workflow (ex_env x) wfl def (w_db w)"
  shows "ran (ex_env x) w w' \<and> (\<forall>rid. r = Some (Inr rid) \<longrightarrow> (\<exists>row es. closed_as rid row es (w_db w')))"
proof -
  let ?E = "ex_env x"
  obtain r1 w1 where c: "create_run x f wfl def (scenario_options sc seed) w = (r1, w1)" by (metis prod.exhaust)
  have m1: "ran ?E w w1" using ran_create_run [OF c w known] by simp
  have w1: "sound_world ?E w1" by (rule ran_sound [OF m1 w])
  show ?thesis
  proof (cases r1)
    case (Inr run)
    obtain r3 w3 where wt: "waitForRun fuel (run_ID run) w1 = (r3, w3)" by (metis prod.exhaust)
    note waits = waitForRun_closed [OF wt w1]
    have "ran ?E w w3" using waits ran_trans [OF m1] by blast
    moreover have "w' = w1 \<and> (\<forall>rid. r \<noteq> Some (Inr rid)) \<or> w' = w3
        \<and> (\<forall>rid. r = Some (Inr rid) \<longrightarrow> rid = run_ID run \<and> (\<exists>final. r3 = Some (Inr (Some final)) \<and> RunStatus_Terminal (run_Status final)))"
      using p c Inr wt by (auto simp: runScenarioWithPool_def split: option.splits sum.splits if_splits)
    ultimately show ?thesis using m1 waits by blast
  qed (use p c m1 in \<open>auto simp: runScenarioWithPool_def\<close>)
qed

lemma runScenarioPooled_true:
  assumes s: "runScenarioPooled fuel h x f wfl def sc seed k w = (r, w')" and w: "sound_world (ex_env x) w"
    and known: "known_workflow (ex_env x) wfl def (w_db w)"
  shows "ran (ex_env x) w w' \<and> (\<forall>rep. r = Some (Inr rep) \<longrightarrow> report_true (w_db w') rep)"
proof -
  let ?E = "ex_env x"
  obtain r2 w2 where p: "runScenarioWithPool fuel h x f wfl def sc seed k w = (r2, w2)" by (metis prod.exhaust)
  note pool = runScenarioWithPool_closed [OF p w known]
  then have w2: "sound_world ?E w2" using ran_sound w by blast
  show ?thesis
  proof (cases "\<exists>rid. r2 = Some (Inr rid)")
    case True
    then obtain rid row es where rid: "r2 = Some (Inr rid)" and closed: "closed_as rid row es (w_db w2)" using pool by blast
    obtain r3 w3 where e: "evaluateRun sc rid w2 = (r3, w3)" by (metis prod.exhaust)
    have "w' = w3 \<and> r = Some r3" using s p rid e by (auto simp: runScenarioPooled_def)
    then show ?thesis using evaluateRun_closed [OF e w2 closed] pool ran_trans by blast
  next
    case False
    then have "w' = w2 \<and> (\<forall>rep. r \<noteq> Some (Inr rep))" using s p by (auto simp: runScenarioPooled_def split: option.splits sum.splits)
    then show ?thesis using pool by simp
  qed
qed

lemma test_loop_true:
  assumes "test_loop fuel h x f wfl def sc seed pooled k i n w = (Some (reps, err), w')"
    and "sound_world (ex_env x) w" and "known_workflow (ex_env x) wfl def (w_db w)"
  shows "ran (ex_env x) w w' \<and> (\<forall>rep\<in>set reps. report_true (w_db w') rep) \<and> (err = None \<longrightarrow> length reps = n)"
  using assms
proof (induction n arbitrary: i w reps)
  case (Suc n)
  let ?E = "ex_env x"
  obtain r1 w1 where one: "(if pooled then runScenarioPooled fuel h x (f i) wfl def sc seed k w
      else runScenario fuel x (f i) wfl def sc seed w) = (r1, w1)" by (metis prod.exhaust)
  have t: "ran ?E w w1 \<and> (\<forall>rep. r1 = Some (Inr rep) \<longrightarrow> report_true (w_db w1) rep)"
  proof (cases pooled)
    case True
    with one show ?thesis by (intro runScenarioPooled_true [OF _ Suc.prems(2,3)]) simp
  next
    case False
    with one show ?thesis by (intro runScenario_true [OF _ Suc.prems(2,3)]) simp
  qed
  then have w1: "sound_world ?E w1" "known_workflow ?E wfl def (w_db w1)" using ran_sound ran_known Suc.prems(2,3) by blast+
  from Suc.prems(1) one consider e where "r1 = Some (Inl e)" "reps = []" "err = Some e" "w' = w1"
    | rep reps' where "r1 = Some (Inr rep)" "reps = rep # reps'"
        "test_loop fuel h x f wfl def sc seed pooled k (Suc i) n w1 = (Some (reps', err), w')"
    by (auto split: option.splits sum.splits prod.splits)
  then show ?case
  proof cases
    case (2 rep reps')
    note rest = Suc.IH [OF 2(3) w1]
    then have "report_true (w_db w') rep" using report_stays [OF _ w1(1)] t 2(1) by blast
    then show ?thesis using rest 2(2) t ran_trans by auto
  qed (use t in auto)
qed simp

lemma WorkflowByName_mem:
  assumes "WorkflowByName name v db = Inr wfl"
  shows "wfl \<in> set (workflows db)"
proof (cases "v \<le> 0")
  case True
  with assms obtain ws where "rev (sort_key w_version (filter (\<lambda>w. w_name w = name) (workflows db))) = wfl # ws"
    by (auto simp: WorkflowByName_def split: list.splits)
  then have "wfl \<in> set (rev (sort_key w_version (filter (\<lambda>w. w_name w = name) (workflows db))))" by simp
  then show ?thesis by simp
next
  case False
  with assms show ?thesis by (auto simp: WorkflowByName_def find_Some_iff split: option.splits)
qed

lemma resolve_by_name:
  assumes r: "resolveWorkflow h x wid arg w = (Inr (wfl, def), w')" and n: "\<not> looksLikePath (he_stat h) arg" and w: "sound_world (ex_env x) w"
  shows "ran (ex_env x) w w' \<and> known_workflow (ex_env x) wfl def (w_db w')"
proof -
  let ?E = "ex_env x" and ?w1 = "pass w" and ?w2 = "pass (pass w)"
  obtain name v where nv: "splitNameVersion arg = (name, v)" by (metis prod.exhaust)
  have out: "WorkflowByName name v (w_db ?w1) = Inr wfl" "Definition ?E (w_id wfl) (w_db ?w2) = Inr def" "w' = ?w2"
    using r n nv by (auto simp: resolveWorkflow_def read_db_def split: sum.splits)
  have mem: "wfl \<in> set (workflows (w_db ?w1))"
    by (rule WorkflowByName_mem [OF out(1)])
  have m: "ran ?E w ?w1" "ran ?E ?w1 ?w2" by (rule ran_pass)+
  have "(sys_step ?E)\<^sup>*\<^sup>* (w_db ?w1) (w_db ?w2)" using m(2) ran_sound [OF m(1) w] by (auto simp: ran_def sound_world_def)
  then have "registered (workflows (w_db ?w1)) (w_db ?w2)"
  proof (induction rule: rtranclp_induct)
    case base
    show ?case by (simp add: registered_def)
  qed (rule workflows_kept.step)
  then show ?thesis using mem out(2,3) ran_trans [OF m] by (auto simp: known_workflow_def registered_def)
qed

text \<open>What the exit status of \<^verbatim>\<open>test\<close> stands for.\<close>

lemma testCmd_true:
  assumes t: "testCmd fuel h flg wid f arg (w, sd) = (Some (reps, err), w', sd')" and n: "\<not> looksLikePath (he_stat h) arg"
    and x: "engine_from_env h = Inr x" and w: "sound_world (ex_env x) w"
  shows "(\<forall>rep\<in>set reps. report_true (w_db w') rep)
    \<and> (err = None \<longrightarrow> int (length reps) = max 1 (tf_repeat flg) \<and> list_all rep_Passed reps)"
proof -
  have sd: "fst (startup h sd) = Inr x" if "fst (startup h sd) = Inr y" for y
    using that x by (auto simp: startup_def split: option.splits prod.splits)
  from t consider "reps = []" "err \<noteq> None"
    | sc wfl def w1 where "resolveWorkflow h x wid arg w = (Inr (wfl, def), w1)"
        "test_runs fuel h x flg f wfl def sc w1 = (Some (reps, err), w')"
    using sd by (auto simp: testCmd_def split: sum.splits prod.splits)
  then show ?thesis
  proof cases
    case (2 sc wfl def w1)
    note r = resolve_by_name [OF 2(1) n w]
    have w1: "sound_world (ex_env x) w1" using ran_sound r w by blast
    let ?p = "tf_workers flg > 0 \<or> NeedsSeparateWorkers sc"
    let ?k = "nat (if ?p \<and> tf_workers flg \<le> 0 then 2 else tf_workers flg)" and ?n = "nat (max 1 (tf_repeat flg))"
    have m: "(if tf_repeat flg < 1 then 1 else tf_repeat flg) = max 1 (tf_repeat flg)" by simp
    obtain out w2 where l0: "test_loop fuel h x f wfl def sc (tf_seed flg) ?p ?k 0 ?n w1 = (out, w2)" by (metis prod.exhaust)
    then obtain e where l: "test_loop fuel h x f wfl def sc (tf_seed flg) ?p ?k 0 ?n w1 = (Some (reps, e), w')"
      and e: "err = None \<Longrightarrow> e = None \<and> list_all rep_Passed reps"
      using 2(2) unfolding test_runs_def Let_def m l0
      by (auto simp: list_all_iff list_ex_iff split: option.splits if_splits)
    then show ?thesis using test_loop_true [OF l w1] r by auto
  qed auto
qed

section \<open>run\<close>

lemma reportRun_status:
  assumes "reportRun json final w = ((out, err), w')"
  shows "\<exists>ts. out = Some (Finished final ts) \<and> (err = None \<longleftrightarrow> json \<or> run_Status final = RunSucceeded)"
  using assms by (auto simp: reportRun_def split: prod.splits if_splits)

text \<open>A run that was not detached leaves the status zero through its report only.\<close>

lemma runCmd_status:
  assumes r: "runCmd fuel h flg wid f arg w = (Some (out, err), w')" and d: "\<not> rf_detach flg"
  shows "err = None \<longleftrightarrow> (\<exists>final ts. out = Some (Finished final ts) \<and> (rf_json flg \<or> run_Status final = RunSucceeded))"
proof -
  from r d consider "out = None" "err \<noteq> None" | final w3 w4 where "reportRun (rf_json flg) final w3 = ((out, err), w4)"
    unfolding runCmd_def by (auto split: option.splits sum.splits prod.splits) metis
  then show ?thesis
  proof cases
    case 2
    then show ?thesis using reportRun_status by blast
  qed simp
qed

section \<open>export\<close>

text \<open>
  A snapshot has the runs asked for in their order, and what it holds of a run that was closed
  is that run's status and its whole journal.
\<close>

lemma export_closed:
  assumes "export_loop ids w = (Inr rs, w')" and "sound_world env w"
  shows "map (run_ID \<circ> sr_Run) rs = ids \<and> (\<forall>sr\<in>set rs. \<forall>run es. closed_as (run_ID (sr_Run sr)) run es (w_db w) \<longrightarrow>
    sr_Events sr = map scan_event es \<and> run_Status (sr_Run sr) = r_status run)"
  using assms
proof (induction ids arbitrary: w rs)
  case (Cons i ids)
  let ?w1 = "pass w" and ?w3 = "pass (pass (pass w))"
  obtain run evs rs' where one: "RunByID i (w_db ?w1) = Inr run" "Read i (w_db ?w3) = Inr evs" "export_loop ids ?w3 = (Inr rs', w')"
    "rs = \<lparr>sr_Run = run, sr_Tasks = tasksOf i (w_db (pass ?w1)), sr_Events = evs\<rparr> # rs'"
    using Cons.prems(1) by (auto simp: read_db_def split: sum.splits prod.splits)
  have m: "ran env w ?w1" "ran env w ?w3" using ran_pass ran_trans by blast+
  have s: "sound_world env ?w1" "sound_world env ?w3" using ran_sound m Cons.prems(2) by blast+
  have i: "run_ID run = i" using one(1) run_by_idD by (auto simp: RunByID_def scanRun_def split: option.splits)
  have "evs = map scan_event es \<and> run_Status run = r_status row" if "closed_as i row es (w_db w)" for row es
  proof -
    have c: "closed_as i row es (w_db ?w1)" "closed_as i row es (w_db ?w3)" using ran_closed m Cons.prems(2) that by blast+
    have "Read i (w_db ?w3) = Inr (map scan_event es)" using Load_closed(1) [OF _ c(2)] s(2) by (auto simp: sound_world_def)
    then show ?thesis using one(1,2) c(1) by (auto simp: closed_as_def RunByID_def scanRun_def split: option.splits)
  qed
  moreover have "\<forall>sr\<in>set rs'. \<forall>row es. closed_as (run_ID (sr_Run sr)) row es (w_db w) \<longrightarrow>
      sr_Events sr = map scan_event es \<and> run_Status (sr_Run sr) = r_status row"
    using Cons.IH [OF one(3) s(2)] ran_closed [OF m(2) Cons.prems(2)] by blast
  ultimately show ?case using Cons.IH [OF one(3) s(2)] by (simp add: one(4) i)
qed simp

end
