(* ===== verification/Relab_Examples.thy ===== *)
theory Relab_Examples
  imports Relab_Verdict
begin

text \<open>
  The handlers of the shipped example workflows (\<^verbatim>\<open>internal/examples/handlers.go\<close>) as programs over
  their task context, and how they are registered.  Each reads its inputs through
  \<^verbatim>\<open>encoding/json\<close>: an object decodes into a Go map, a number into a float64 when the target is
  \<^verbatim>\<open>any\<close>.
\<close>

section \<open>Decoding an input\<close>

text \<open>
  What the handlers see of the process and the library: the environment, \<^verbatim>\<open>strconv.ParseFloat\<close> on
  a number literal, the text of a time and of a JSON value, \<^verbatim>\<open>fmt\<close>'s \<open>%v\<close>, what the contexts and
  the clock report of an invocation, and whether the context ended before a timer fired.
\<close>

record example_host =
  eh_getenv :: environ
  eh_host :: host
  eh_ParseFloat :: "string \<Rightarrow> float option"
  eh_time_text :: "time \<Rightarrow> string"
  eh_json_text :: "json \<Rightarrow> string"
  eh_v :: "any \<Rightarrow> string"
  eh_around :: handler
  eh_cut :: "nat \<Rightarrow> task_context \<Rightarrow> go_error option"

text \<open>The map a list of members leaves: the last of equal keys stays.\<close>

definition go_map :: "(string \<times> 'a) list \<Rightarrow> (string \<times> 'a) list" where
  "go_map ms = AList.clearjunk (rev ms)"

fun any_of_json :: "example_host \<Rightarrow> json \<Rightarrow> any option" where
  "any_of_json h JNull = Some ANil"
| "any_of_json h (JBool b) = Some (ABool b)"
| "any_of_json h (JNum i) = map_option AFloat (eh_ParseFloat h (show_int i))"
| "any_of_json h (JFrac s) = map_option AFloat (eh_ParseFloat h s)"
| "any_of_json h (JStr s) = Some (AStr s)"
| "any_of_json h (JTime t) = Some (AStr (eh_time_text h t))"
| "any_of_json h (JArr vs) = map_option ASlice (those (map (any_of_json h) vs))"
| "any_of_json h (JObj ms) = map_option (AMap \<circ> go_map) (those (map (\<lambda>m. map_option (Pair (fst m)) (any_of_json h (snd m))) ms))"

definition dec_row_count :: "json \<Rightarrow> int option" where
  "dec_row_count j = (case j of JObj ms \<Rightarrow> dec_int (field ms ''rows'') | _ \<Rightarrow> None)"

definition dec_int_map :: "json \<Rightarrow> (string \<times> int) list option" where
  "dec_int_map j =
     (case j of
        JObj ms \<Rightarrow> map_option go_map (those (map (\<lambda>m. map_option (Pair (fst m)) (dec_int (Some (snd m)))) ms))
      | _ \<Rightarrow> None)"

definition dec_any_map :: "example_host \<Rightarrow> json \<Rightarrow> (string \<times> any) list option" where
  "dec_any_map h j =
     (case j of
        JObj ms \<Rightarrow> map_option go_map (those (map (\<lambda>m. map_option (Pair (fst m)) (any_of_json h (snd m))) ms))
      | _ \<Rightarrow> None)"

text \<open>\<^verbatim>\<open>tc.Input\<close> into a variable, where any failure is permanent.\<close>

definition input_as :: "string \<Rightarrow> (json \<Rightarrow> 'a option) \<Rightarrow> ('a \<Rightarrow> program) \<Rightarrow> program" where
  "input_as step dec k =
     CallInput step (\<lambda>r. case r of
        Inl e \<Rightarrow> Return (Inl (PermanentError e))
      | Inr j \<Rightarrow> (case dec j of
           None \<Rightarrow> Return (Inl (PermanentError (Plain (''sdk: decode output of step '' @ step))))
         | Some v \<Rightarrow> k v))"

section \<open>The handlers\<close>

definition slowStep :: "example_host \<Rightarrow> go_error option \<Rightarrow> task_context \<Rightarrow> program" where
  "slowStep h ctxDone tc =
     (let raw = eh_getenv h ''RELAB_SLOW_STEP_DURATION'' in
      case (if raw = [] then Some (2 * second) else h_ParseDuration (eh_host h) raw) of
        None \<Rightarrow> Return (Inl (PermanentError (Plain (''RELAB_SLOW_STEP_DURATION must be a duration with a unit, got '' @ raw))))
      | Some d \<Rightarrow>
         (case ctxDone of
            Some e \<Rightarrow> Return (Inl e)
          | None \<Rightarrow> Return (Inr (AMap [(''slept_ms'', AInt (Milliseconds d)), (''attempt'', AInt (tc_Attempt tc))]))))"

text \<open>What the function passed to \<^verbatim>\<open>Do\<close> returns, as the JSON the ledger stores.\<close>

definition charged :: "task_context \<Rightarrow> json" where
  "charged tc = JObj [(''by_attempt'', JNum (tc_Attempt tc)), (''charged'', JBool True)]"

definition chargeOnce :: "task_context \<Rightarrow> program" where
  "chargeOnce tc =
     CallDo ''external-charge'' (Inr (charged tc)) (\<lambda>r. case r of
        Inl e \<Rightarrow> Return (Inl e)
      | Inr result \<Rightarrow> Return (Inr (AMap [(''effect'', ARaw result), (''attempt'', AInt (tc_Attempt tc))])))"

definition effectThenDie :: "example_host \<Rightarrow> task_context \<Rightarrow> program" where
  "effectThenDie h tc =
     CallDo ''external-charge'' (Inr (charged tc)) (\<lambda>r. case r of
        Inl e \<Rightarrow> Return (Inl e)
      | Inr result \<Rightarrow>
          if eh_getenv h ''RELAB_EFFECT_THEN_DIE'' \<noteq> [] \<and> tc_Attempt tc = 1
          then (case h_kill (eh_host h) of
                  Some e \<Rightarrow> Return (Inl (Wrapping ''failed to kill own process for the test'' (Plain e)))
                | None \<Rightarrow> Die)
          else Return (Inr (AMap [(''effect'', ARaw result), (''attempt'', AInt (tc_Attempt tc))])))"

fun summarize_loop :: "example_host \<Rightarrow> string list \<Rightarrow> (string \<times> any) list \<Rightarrow> ((string \<times> any) list \<Rightarrow> program) \<Rightarrow> program" where
  "summarize_loop h [] summary k = k summary"
| "summarize_loop h (name # names) summary k =
     input_as name (any_of_json h) (\<lambda>v. summarize_loop h names (summary @ [(name, v)]) k)"

definition summarize :: "example_host \<Rightarrow> task_context \<Rightarrow> program" where
  "summarize h tc =
     (let names = sort (InputNames tc) in
      summarize_loop h names [] (\<lambda>summary.
        case any_json (eh_host h) (AMap summary) of
          None \<Rightarrow> Return (Inl (Plain ''json: unsupported value''))
        | Some j \<Rightarrow>
            CallEmit ''summary.json'' ''application/json'' (eh_json_text h j)
              (Return (Inr (AMap [(''inputs'', AInt (int (length names)))])))))"

definition importCSV :: program where
  "importCSV =
     CallEmit ''imported.csv'' ''text/csv'' (''rows='' @ show_int 1000) (Return (Inr (AMap [(''rows'', AInt 1000)])))"

text \<open>The remainder of Go has the sign of the dividend.\<close>

definition go_rem :: "int \<Rightarrow> int \<Rightarrow> int" where
  "go_rem a b = sgn a * (\<bar>a\<bar> mod \<bar>b\<bar>)"

definition validateRows :: program where
  "validateRows = input_as ''import'' dec_row_count (\<lambda>rows.
     let invalid = go_rem rows 7
     in Return (Inr (AMap [(''valid'', AInt (rows - invalid)), (''invalid'', AInt invalid)])))"

definition analyze :: "example_host \<Rightarrow> program" where
  "analyze h = input_as ''validate'' dec_int_map (\<lambda>m.
     let ar = h_arith (eh_host h);
         valid = (case map_of m ''valid'' of None \<Rightarrow> 0 | Some v \<Rightarrow> v);
         summary = AMap [(''count'', AInt valid), (''mean'', AFloat (Finite (fl ar (fl ar (of_int valid) / 2))))]
     in case any_json (eh_host h) summary of
          None \<Rightarrow> Return (Inl (Plain ''json: unsupported value''))
        | Some j \<Rightarrow> CallEmit ''analysis.json'' ''application/json'' (eh_json_text h j) (Return (Inr summary)))"

definition member_or_nil :: "(string \<times> any) list \<Rightarrow> string \<Rightarrow> any" where
  "member_or_nil m k = (case map_of m k of None \<Rightarrow> ANil | Some v \<Rightarrow> v)"

definition generateReport :: "example_host \<Rightarrow> program" where
  "generateReport h = input_as ''analyze'' (dec_any_map h) (\<lambda>m.
     let content = ''report: count='' @ eh_v h (member_or_nil m ''count'') @ '' mean='' @ eh_v h (member_or_nil m ''mean'')
     in CallEmit ''report.txt'' ''text/plain'' content (Return (Inr (AMap [(''bytes'', AInt (int (length content)))]))))"

definition splitInput :: program where
  "splitInput = Return (Inr (AMap [(''shards'', AInt 3)]))"

definition processShard :: "task_context \<Rightarrow> program" where
  "processShard tc = input_as ''split'' dec_int_map (\<lambda>_.
     Return (Inr (AMap [(''shard'', AStr (tc_TaskName tc)), (''records'', AInt (100 + int (length (tc_TaskName tc))))])))"

fun merge_loop :: "example_host \<Rightarrow> string list \<Rightarrow> int \<Rightarrow> program" where
  "merge_loop h [] acc =
     CallEmit ''merged.json'' ''application/json'' (''{\"records\":'' @ show_int acc @ ''}'')
       (Return (Inr (AMap [(''records'', AInt acc)])))"
| "merge_loop h (name # names) acc =
     input_as name (dec_any_map h) (\<lambda>m.
       case map_of m ''records'' of
         Some (AFloat n) \<Rightarrow> merge_loop h names (wrap64 (acc + int_of_float (h_arith (eh_host h)) n))
       | _ \<Rightarrow> Return (Inl (PermanentError (Plain (''shard '' @ name @ '' reported no record count'')))))"

definition mergeShards :: "example_host \<Rightarrow> program" where
  "mergeShards h = merge_loop h [''shard_a'', ''shard_b'', ''shard_c''] 0"

section \<open>Registration\<close>

definition at_turn :: "example_host \<Rightarrow> (nat \<Rightarrow> task_context \<Rightarrow> program) \<Rightarrow> handler" where
  "at_turn h p n tc = (eh_around h n tc)\<lparr>iv_program := p n tc\<rparr>"

definition example_handlers :: "example_host \<Rightarrow> (string \<times> handler) list" where
  "example_handlers h =
     map (\<lambda>(name, p). (name, at_turn h p))
      [(''import_csv'', \<lambda>_ _. importCSV), (''validate_rows'', \<lambda>_ _. validateRows), (''analyze'', \<lambda>_ _. analyze h),
       (''generate_report'', \<lambda>_ _. generateReport h), (''split_input'', \<lambda>_ _. splitInput),
       (''process_shard'', \<lambda>_. processShard), (''merge_shards'', \<lambda>_ _. mergeShards h),
       (''slow_step'', \<lambda>n tc. slowStep h (eh_cut h n tc) tc), (''summarize'', \<lambda>_. summarize h),
       (''effect_then_die'', \<lambda>_. effectThenDie h), (''charge_once'', \<lambda>_. chargeOnce)]"

text \<open>The loop of \<^verbatim>\<open>Register\<close>, over the handlers in the order the iteration of the map visits them.\<close>

fun Register :: "(string \<times> handler) list \<Rightarrow> registry \<Rightarrow> registry_error + registry" where
  "Register [] r = Inr r"
| "Register ((name, g) # hs) r =
     (case Handle name (Some g) r of Inl e \<Rightarrow> Inl e | Inr r' \<Rightarrow> Register hs r')"

text \<open>\<^verbatim>\<open>MustRegister\<close> on a new registry, which panics on an error.\<close>

definition defaultRegistry :: "(string \<times> handler) list \<Rightarrow> registry option" where
  "defaultRegistry order = (case Register order [] of Inl _ \<Rightarrow> None | Inr r \<Rightarrow> Some r)"

section \<open>Registration in any order\<close>

lemma Register_eq:
  "distinct (map fst hs) \<Longrightarrow> [] \<notin> set (map fst hs) \<Longrightarrow> set (map fst hs) \<inter> set (map fst r) = {} \<Longrightarrow>
   Register hs r = Inr (rev (map (\<lambda>(n, g). (n, Some g)) hs) @ r)"
  by (induction hs r rule: Register.induct) (auto simp: Handle_def map_of_eq_None_iff)

lemma example_names:
  "distinct (map fst (example_handlers h))" "[] \<notin> set (map fst (example_handlers h))"
  by (simp_all add: example_handlers_def)

text \<open>
  The iteration order of the map does not matter: \<^verbatim>\<open>MustRegister\<close> never panics, and every name finds
  its own handler.
\<close>

lemma defaultRegistry_any_order:
  assumes "mset order = mset (example_handlers h)"
  shows "\<exists>r. defaultRegistry order = Some r \<and> (\<forall>n. Registry_Lookup r n = map_of (example_handlers h) n)"
proof -
  have names: "mset (map fst order) = mset (map fst (example_handlers h))" using assms by simp
  then have d: "distinct (map fst order)" "[] \<notin> set (map fst order)"
    using example_names by (metis mset_eq_imp_distinct_iff, metis mset_eq_setD)
  let ?r = "rev (map (\<lambda>(n, g). (n, Some g)) order)"
  have "map_of (rev order) = map_of (example_handlers h)"
  proof (rule map_of_inject_set [THEN iffD2])
    show "distinct (map fst (rev order))" using d(1) by (simp flip: rev_map)
    show "distinct (map fst (example_handlers h))" by (rule example_names)
    show "set (rev order) = set (example_handlers h)" using mset_eq_setD [OF assms] by simp
  qed
  moreover have "map_of ?r n = map_option Some (map_of (rev order) n)" for n
    unfolding rev_map by (induction "rev order" arbitrary: order) (auto simp: map_of_map)
  ultimately have "Registry_Lookup ?r n = map_of (example_handlers h) n" for n
    by (simp add: Registry_Lookup_def split: option.split)
  then show ?thesis using Register_eq [OF d, of "[]"] by (simp add: defaultRegistry_def)
qed

section \<open>What the handlers deliver\<close>

lemma perform_input_as:
  "perform x q tc (input_as step dec k) out w =
     (case Input tc step of
        Inl e \<Rightarrow> (Some (EndReturn (Inl (PermanentError e))), out, w)
      | Inr j \<Rightarrow> (case dec j of
           None \<Rightarrow> (Some (EndReturn (Inl (PermanentError (Plain (''sdk: decode output of step '' @ step))))), out, w)
         | Some v \<Rightarrow> perform x q tc (k v) out w))"
  by (simp add: input_as_def split: sum.split option.split)

lemma go_rem_bounds: "0 \<le> a \<Longrightarrow> 0 < b \<Longrightarrow> 0 \<le> go_rem a b \<and> go_rem a b < b \<and> go_rem a b \<le> a"
  by (auto simp: go_rem_def sgn_if intro: zmod_le_nonneg_dividend)

text \<open>
  The steps of \<^verbatim>\<open>examples/data-pipeline.yaml\<close> read what their predecessors write, on every attempt,
  whatever the run and the worker.
\<close>

lemma show_1000: "show_int 1000 = ''1000''"
  by code_simp

lemma import_delivers:
  "perform x q tc importCSV out w =
     (Some (EndReturn (Inr (AMap [(''rows'', AInt 1000)]))), out @ [Emit (ex_sha256 x) ''imported.csv'' ''text/csv'' ''rows=1000''], w)"
  by (simp add: importCSV_def show_1000)

lemma validate_delivers:
  assumes "Input tc ''import'' = Inr (JObj [(''rows'', JNum n)])" and "in_int64 n"
  shows "perform x q tc validateRows out w =
     (Some (EndReturn (Inr (AMap [(''valid'', AInt (n - go_rem n 7)), (''invalid'', AInt (go_rem n 7))]))), out, w)"
  using assms by (simp add: validateRows_def perform_input_as dec_row_count_def ToLower_def lower_char_def Let_def)

lemma analyze_delivers:
  assumes "Input tc ''validate'' = Inr (JObj [(''invalid'', JNum k), (''valid'', JNum n)])" and "in_int64 k" and "in_int64 n"
    and mean: "mean = fl (h_arith (eh_host h)) (fl (h_arith (eh_host h)) (of_int n) / 2)"
  shows "perform x q tc (analyze h) out w =
     (Some (EndReturn (Inr (AMap [(''count'', AInt n), (''mean'', AFloat (Finite mean))]))),
      out @ [Emit (ex_sha256 x) ''analysis.json'' ''application/json''
               (eh_json_text h (JObj [(''count'', JNum n), (''mean'', h_float_json (eh_host h) mean)]))], w)"
  using assms(1-3) unfolding mean
  by (simp add: analyze_def perform_input_as dec_int_map_def go_map_def Let_def marshal_map_def insort_key_def
      less_eq_list_code less_eq_char_def)

lemma report_delivers:
  assumes "Input tc ''analyze'' = Inr (JObj [(''count'', JNum n), (''mean'', j)])"
    and "eh_ParseFloat h (show_int n) = Some c" and "any_of_json h j = Some m"
  shows "perform x q tc (generateReport h) out w =
     (let content = ''report: count='' @ eh_v h (AFloat c) @ '' mean='' @ eh_v h m
      in (Some (EndReturn (Inr (AMap [(''bytes'', AInt (int (length content)))]))),
          out @ [Emit (ex_sha256 x) ''report.txt'' ''text/plain'' content], w))"
  using assms by (simp add: generateReport_def perform_input_as dec_any_map_def go_map_def member_or_nil_def Let_def)

text \<open>
  The whole pipeline: when each step finds the marshalled output of the one before among its
  inputs, the last one delivers the report of 994 valid rows of 1000.
\<close>

lemma data_pipeline_report:
  assumes exact: "fl (h_arith (eh_host h)) 994 = 994" "fl (h_arith (eh_host h)) 497 = 497"
    and written: "h_float_json (eh_host h) 497 = JNum 497"
    and parse: "eh_ParseFloat h ''994'' = Some (Finite 994)" "eh_ParseFloat h ''497'' = Some (Finite 497)"
    and v: "eh_v h (AFloat (Finite 994)) = ''994''" "eh_v h (AFloat (Finite 497)) = ''497''"
    and i1: "perform x1 q1 tc1 importCSV [] w1 = (Some (EndReturn (Inr o1)), a1, w1')"
    and i2: "any_json g1 o1 = Some j1" "Input tc2 ''import'' = Inr j1"
      "perform x2 q2 tc2 validateRows [] w2 = (Some (EndReturn (Inr o2)), a2, w2')"
    and i3: "any_json g2 o2 = Some j2" "Input tc3 ''validate'' = Inr j2"
      "perform x3 q3 tc3 (analyze h) [] w3 = (Some (EndReturn (Inr o3)), a3, w3')"
    and i4: "any_json (eh_host h) o3 = Some j3" "Input tc4 ''analyze'' = Inr j3"
  shows "perform x4 q4 tc4 (generateReport h) [] w4 =
    (Some (EndReturn (Inr (AMap [(''bytes'', AInt 26)]))),
     [Emit (ex_sha256 x4) ''report.txt'' ''text/plain'' ''report: count=994 mean=497''], w4)"
proof -
  have "o1 = AMap [(''rows'', AInt 1000)]" using i1 by (simp add: import_delivers)
  then have "Input tc2 ''import'' = Inr (JObj [(''rows'', JNum 1000)])" using i2 by (auto simp: marshal_map_def)
  from validate_delivers [OF this] i2(3) have "o2 = AMap [(''valid'', AInt 994), (''invalid'', AInt 6)]"
    by (simp add: in_int64_def go_rem_def)
  then have "Input tc3 ''validate'' = Inr (JObj [(''invalid'', JNum 6), (''valid'', JNum 994)])"
    using i3 by (auto simp: marshal_map_def insort_key_def less_eq_list_code less_eq_char_def)
  from analyze_delivers [OF this _ _ refl, where h = h] i3(3)
  have "o3 = AMap [(''count'', AInt 994), (''mean'', AFloat (Finite 497))]" by (simp add: in_int64_def exact)
  then have "Input tc4 ''analyze'' = Inr (JObj [(''count'', JNum 994), (''mean'', JNum 497)])"
    using i4 by (auto simp: marshal_map_def insort_key_def less_eq_list_code less_eq_char_def written)
  moreover have "show_int 994 = ''994''" "show_int 497 = ''497''" by code_simp+
  ultimately show ?thesis by (subst report_delivers) (auto simp: parse v)
qed

text \<open>The shards of \<^verbatim>\<open>examples/fan-out.yaml\<close> report by the length of their names, and the merge adds them up.\<close>

lemma shard_delivers:
  assumes "Input tc ''split'' = Inr (JObj [(''shards'', JNum 3)])"
  shows "perform x q tc (processShard tc) out w =
     (Some (EndReturn (Inr (AMap [(''shard'', AStr (tc_TaskName tc)), (''records'', AInt (100 + int (length (tc_TaskName tc))))]))), out, w)"
  using assms by (simp add: processShard_def perform_input_as dec_int_map_def in_int64_def)

lemma merge_delivers:
  assumes "\<And>name. name \<in> set names \<Longrightarrow> \<exists>ms m. Input tc name = Inr (JObj ms) \<and> dec_any_map h (JObj ms) = Some m
             \<and> map_of m ''records'' = Some (AFloat (Finite (of_int (f name))))"
    and "\<And>name. name \<in> set names \<Longrightarrow> 0 \<le> f name"
    and "0 \<le> acc" and "acc + sum_list (map f names) < 2 ^ 63"
  shows "perform x q tc (merge_loop h names acc) out w =
    (let n = acc + sum_list (map f names) in
     (Some (EndReturn (Inr (AMap [(''records'', AInt n)]))),
      out @ [Emit (ex_sha256 x) ''merged.json'' ''application/json'' (''{\"records\":'' @ show_int n @ ''}'')], w))"
  using assms
proof (induction names arbitrary: acc)
  case Nil
  then show ?case by simp
next
  case (Cons name names)
  from Cons.prems(1) [of name] obtain ms m where i: "Input tc name = Inr (JObj ms)" "dec_any_map h (JObj ms) = Some m"
    "map_of m ''records'' = Some (AFloat (Finite (of_int (f name))))" by auto
  have nn: "0 \<le> f name" "0 \<le> sum_list (map f names)" using Cons.prems(2) by (auto intro!: sum_list_nonneg)
  then have "in_int64 (f name)" "in_int64 (acc + f name)" using Cons.prems(3,4) by (auto simp: in_int64_def)
  then have "perform x q tc (merge_loop h (name # names) acc) out w = perform x q tc (merge_loop h names (acc + f name)) out w"
    by (simp add: perform_input_as i to_int64_def trunc_rat_def wrap64_id)
  also have "\<dots> = (let n = acc + f name + sum_list (map f names) in
     (Some (EndReturn (Inr (AMap [(''records'', AInt n)]))),
      out @ [Emit (ex_sha256 x) ''merged.json'' ''application/json'' (''{\"records\":'' @ show_int n @ ''}'')], w))"
    using Cons.prems nn by (intro Cons.IH) auto
  finally show ?case by (simp add: add.assoc)
qed

section \<open>Effects across attempts\<close>

text \<open>What a call of \<^verbatim>\<open>Do\<close> returns is on record when it returns.\<close>

lemma Do_recorded:
  assumes "tc_Do x q tc op effect w = (Inr j, w')" and "sound_world env w" and "copy_of_task q (w_db w)"
  shows "result_of (IdempotencyKey (ex_env x) (tc_RunID tc) (tc_TaskName tc) op) (w_db w') = Some j"
proof -
  define key where "key = IdempotencyKey (ex_env x) (tc_RunID tc) (tc_TaskName tc) op"
  define w2 where "w2 = (if Lookup key (w_db (pass w)) = None then pass (pass w) else pass w)"
  obtain r db1 where d: "Do_ledger key (t_run_id q) (t_name q) effect (w_db (pass w)) (w_db w2) = (r, db1)"
    by (metis prod.exhaust)
  have "ledger_Do q key effect w = (Inr j, w')"
    using assms(1) by (auto simp: tc_Do_def key_def split: if_splits prod.splits sum.splits ledger_error.splits)
  then obtain skipped performed where r: "r = (Inr (j, skipped), performed)"
    and w': "if skipped then on_db (\<lambda>now. appendSideEffectSkipped q key now) (w2\<lparr>w_db := db1\<rparr>) = (Inr (), w')
             else w' = w2\<lparr>w_db := db1\<rparr>"
    using d by (auto simp: ledger_Do_def Let_def w2_def [symmetric] split: sum.splits prod.splits if_splits)
  have j: "result_of key db1 = Some j" using Do_ledger_result(1) d r by simp
  have m: "moved env q w (w2\<lparr>w_db := db1\<rparr>)" by (rule moved_written [OF w2_def d])
  have "(sys_step env)\<^sup>*\<^sup>* db1 (w_db w')"
  proof (cases skipped)
    case True
    then have "moved env q (w2\<lparr>w_db := db1\<rparr>) w'" using w' moved_skip by auto
    moreover have "(sys_step env)\<^sup>*\<^sup>* (w_db w) db1" "w_turn w2 = w_turn w"
      using m assms(2,3) by (auto simp: moved_def sound_world_def)
    ultimately show ?thesis
      using assms(2,3) reachable_steps copy_steps by (auto simp: moved_def sound_world_def)
  qed (use w' in simp)
  then show ?thesis unfolding key_def [symmetric] using result_steps j by blast
qed

text \<open>Once a result is on record, every call under the key returns it, and the function is not called.\<close>

lemma Do_again:
  assumes "result_of (IdempotencyKey (ex_env x) (tc_RunID tc) (tc_TaskName tc) op) (w_db w) = Some j" and "sound_world env w"
  shows "tc_Do x q tc op effect w = tc_Do x q tc op effect' w" and "tc_Do x q tc op effect w = (Inr i, w') \<Longrightarrow> i = j"
proof -
  let ?key = "IdempotencyKey (ex_env x) (tc_RunID tc) (tc_TaskName tc) op"
  have "(sys_step env)\<^sup>*\<^sup>* (w_db w) (w_db (pass w))" using assms(2) by (simp add: sound_world_def others_ok_def pass_def)
  then have r: "result_of ?key (w_db (pass w)) = Some j" using result_steps assms(1) by blast
  show "tc_Do x q tc op effect w = tc_Do x q tc op effect' w"
    using ledger_known(1) [OF r, of q effect effect'] by (simp add: tc_Do_def)
  show "tc_Do x q tc op effect w = (Inr i, w') \<Longrightarrow> i = j"
    using ledger_known(2) [OF r] by (auto simp: tc_Do_def split: if_splits prod.splits sum.splits ledger_error.splits)
qed

text \<open>
  \<open>charge_once\<close> on two attempts of a task: both outputs carry the same charge, that of the attempt
  that performed it.
\<close>

lemma charge_once_delivers:
  assumes "perform x q tc (chargeOnce tc) out w = (Some (EndReturn (Inr v)), as, w')"
  shows "\<exists>j. tc_Do x q tc ''external-charge'' (Inr (charged tc)) w = (Inr j, w')
    \<and> v = AMap [(''effect'', ARaw j), (''attempt'', AInt (tc_Attempt tc))] \<and> as = out"
  using assms by (auto simp: chargeOnce_def split: prod.splits sum.splits)

lemma charge_once_same_effect:
  assumes first: "perform x q tc (chargeOnce tc) out w = (Some (EndReturn (Inr v)), as, w1)"
    and start: "sound_world env w" "copy_of_task q (w_db w)"
    and between: "(sys_step env)\<^sup>*\<^sup>* (w_db w1) (w_db w2)" "others_ok env (w_turn w2)" "reachable env (w_db w2)"
    and again: "perform y q tc' (chargeOnce tc') out' w2 = (Some (EndReturn (Inr v')), as', w3)"
    and same: "env_uuid_String (ex_env y) = env_uuid_String (ex_env x)" "tc_RunID tc' = tc_RunID tc" "tc_TaskName tc' = tc_TaskName tc"
  shows "\<exists>j. v = AMap [(''effect'', ARaw j), (''attempt'', AInt (tc_Attempt tc))]
           \<and> v' = AMap [(''effect'', ARaw j), (''attempt'', AInt (tc_Attempt tc'))]"
proof -
  let ?key = "\<lambda>x tc. IdempotencyKey (ex_env x) (tc_RunID tc) (tc_TaskName tc) ''external-charge''"
  obtain j where j: "tc_Do x q tc ''external-charge'' (Inr (charged tc)) w = (Inr j, w1)"
    and v: "v = AMap [(''effect'', ARaw j), (''attempt'', AInt (tc_Attempt tc))]" using charge_once_delivers [OF first] by blast
  obtain i where i: "tc_Do y q tc' ''external-charge'' (Inr (charged tc')) w2 = (Inr i, w3)"
    and v': "v' = AMap [(''effect'', ARaw i), (''attempt'', AInt (tc_Attempt tc'))]" using charge_once_delivers [OF again] by blast
  have "result_of (?key y tc') (w_db w2) = Some j"
    using Do_recorded [OF j start] result_steps [OF between(1)] same by (simp add: IdempotencyKey_def)
  then have "i = j" using Do_again(2) [OF _ _ i] between(2,3) by (simp add: sound_world_def)
  with v v' show ?thesis by blast
qed

end
