(* ===== verification/Relab_Bench.thy ===== *)
theory Relab_Bench
  imports Relab_Examples
begin

text \<open>
  The two commands that run the shipped workloads: \<^verbatim>\<open>demo\<close> (\<^verbatim>\<open>internal/cli/demo.go\<close>) and \<^verbatim>\<open>bench\<close>
  (\<^verbatim>\<open>internal/cli/bench.go\<close>, \<^verbatim>\<open>internal/bench/bench.go\<close>).  A point of the benchmark matrix creates
  its runs, lets a pool of in-process runners drain them from a queue while a coordinator
  sweeps, and samples what the journals say.  The pool is a state machine whose steps
  interleave with those of the system.
\<close>

section \<open>demo\<close>

text \<open>
  \<^verbatim>\<open>unpackDemo\<close>: the embedded files in the order of their names, written below a temporary
  directory.  The result is the directory and what reading a file gives from then on.
\<close>

datatype unpack_error = NoTempDir string | NotWritten string string

record unpack_host =
  dh_MkdirTemp :: "string + string"
  dh_WriteFile :: "string \<Rightarrow> string option"
  dh_assets :: "(string \<times> string) list"
  dh_LookupEnv :: "string \<Rightarrow> bool"
  dh_Setenv :: "string \<Rightarrow> string option"

fun unpack_loop :: "(string \<Rightarrow> string option) \<Rightarrow> string \<Rightarrow> (string \<times> string) list \<Rightarrow> (string \<Rightarrow> string + string)
    \<Rightarrow> unpack_error + (string \<Rightarrow> string + string)" where
  "unpack_loop writes dir [] files = Inr files"
| "unpack_loop writes dir ((name, data) # as) files =
     (case writes (dir @ ''/'' @ name) of
        Some e \<Rightarrow> Inl (NotWritten name e)
      | None \<Rightarrow> unpack_loop writes dir as (files(dir @ ''/'' @ name := Inr data)))"

definition unpackDemo :: "unpack_host \<Rightarrow> (string \<Rightarrow> string + string) \<Rightarrow> unpack_error + string \<times> (string \<Rightarrow> string + string)" where
  "unpackDemo d files =
     (case dh_MkdirTemp d of
        Inl e \<Rightarrow> Inl (NoTempDir e)
      | Inr dir \<Rightarrow> map_sum id (Pair dir) (unpack_loop (dh_WriteFile d) dir (dh_assets d) files))"

datatype demo_error = DemoFiles unpack_error | DemoSetenv string string | DemoCli cli_error

record demo_output =
  do_RunID :: uuid
  do_Status :: string
  do_Events :: nat
  do_Story :: "(int \<times> etype \<times> string \<times> string) list"

text \<open>The end of the command, from the register of the workflow on.\<close>

definition demo_story ::
  "nat \<Rightarrow> 's host_env \<Rightarrow> executor \<Rightarrow> uuid \<Rightarrow> fresh \<Rightarrow> wf_definition \<Rightarrow> scenario \<Rightarrow> world
   \<Rightarrow> (cli_error + demo_output) option \<times> world" where
  "demo_story fuel h x wid f def sc w =
     (case on_db (\<lambda>now. RegisterWorkflow (ex_env x) wid now def) w of
        (Inl e, w1) \<Rightarrow> (Some (Inl (CliStore e)), w1)
      | (Inr wfl, w1) \<Rightarrow>
         (case runScenarioWithPool fuel h x f wfl def sc 0 2 w1 of
            (None, w2) \<Rightarrow> (None, w2)
          | (Some (Inl e), w2) \<Rightarrow> (Some (Inl e), w2)
          | (Some (Inr rid), w2) \<Rightarrow>
             (case read_db (Read rid) w2 of
                (Inl e, w3) \<Rightarrow> (Some (Inl (CliStore e)), w3)
              | (Inr evs, w3) \<Rightarrow>
                 (case Reduce rid evs of
                    Inl e \<Rightarrow> (Some (Inl (CliLoad (LoadReplay e))), w3)
                  | Inr state \<Rightarrow>
                      (Some (Inr \<lparr>do_RunID = rid, do_Status = rs_Status state, do_Events = length evs,
                                 do_Story = narrate False evs\<rparr>), w3)))))"

definition demoCmd ::
  "nat \<Rightarrow> unpack_host \<Rightarrow> 's host_env \<Rightarrow> uuid \<Rightarrow> fresh \<Rightarrow> 's place \<Rightarrow> (demo_error + demo_output) option \<times> 's place" where
  "demoCmd fuel d h wid f pl =
     (case unpackDemo d (he_readFile h) of
        Inl e \<Rightarrow> (Some (Inl (DemoFiles e)), pl)
      | Inr (dir, files) \<Rightarrow>
          let h1 = h\<lparr>he_readFile := files\<rparr> in
     (case load_scenario h1 (dir @ ''/worker-crash-effectful.yaml'') of
        Inl e \<Rightarrow> (Some (Inl (DemoCli e)), pl)
      | Inr sc \<Rightarrow>
     (case parseFile h1 (dir @ ''/effectful.yaml'') True of
        Inl e \<Rightarrow> (Some (Inl (DemoCli e)), pl)
      | Inr def \<Rightarrow>
     (case find (\<lambda>(name, _). \<not> dh_LookupEnv d name \<and> dh_Setenv d name \<noteq> None) demoTiming of
        Some (name, _) \<Rightarrow> (Some (Inl (DemoSetenv name (the (dh_Setenv d name)))), pl)
      | None \<Rightarrow>
          let h2 = h1\<lparr>he_getenv := demo_environ (dh_LookupEnv d) (he_getenv h)\<rparr> in
     (case startup h2 (snd pl) of
        (Inl e, sd) \<Rightarrow> (Some (Inl (DemoCli e)), fst pl, sd)
      | (Inr x, sd) \<Rightarrow>
         (case demo_story fuel h2 x wid f def sc (fst pl) of
            (r, w) \<Rightarrow> (map_option (map_sum DemoCli id) r, w, sd)))))))"

section \<open>The figures of a point\<close>

record bench_params =
  bp_Workers :: int
  bp_Runs :: int
  bp_FaultRate :: float
  bp_Workflow :: string

record bench_environment =
  en_GoVersion :: string
  en_OS :: string
  en_Arch :: string
  en_NumCPU :: int
  en_PostgresVersion :: string
  en_RelabVersion :: string
  en_MeasuredAt :: time

text \<open>A failed query for the server's version leaves it empty.\<close>

definition DescribeEnvironment :: "string \<times> string \<times> string \<times> int \<Rightarrow> string option \<Rightarrow> string \<Rightarrow> time \<Rightarrow> bench_environment" where
  "DescribeEnvironment rt server_version relabVersion now =
     (case rt of (goVersion, os, arch, numCPU) \<Rightarrow>
        \<lparr>en_GoVersion = goVersion, en_OS = os, en_Arch = arch, en_NumCPU = numCPU,
         en_PostgresVersion = (case server_version of None \<Rightarrow> [] | Some v \<Rightarrow> v), en_RelabVersion = relabVersion,
         en_MeasuredAt = now\<rparr>)"

text \<open>
  The \<^verbatim>\<open>Result\<close> of a point: its parameters, the counts and percentiles of \<open>bench_result\<close>, the wall
  clock, the two rates, and a count of duplicate effects that nothing sets.
\<close>

record bench_point =
  pt_Params :: bench_params
  pt_Figures :: bench_result
  pt_WallClock :: duration
  pt_RunsPerSecond :: rat
  pt_TasksPerSecond :: rat
  pt_DuplicateEffect :: int
  pt_Environment :: bench_environment

definition Seconds :: "arith \<Rightarrow> duration \<Rightarrow> rat" where
  "Seconds ar d =
     fl ar (fl ar (of_int (sgn d * (\<bar>d\<bar> div second))) + fl ar (fl ar (of_int (go_rem d second)) / 1000000000))"

definition bench_point_of :: "arith \<Rightarrow> bench_params \<Rightarrow> bench_sample list \<Rightarrow> duration \<Rightarrow> bench_environment \<Rightarrow> bench_point" where
  "bench_point_of ar params samples wall env =
     (let figures = Summarise ar samples;
          rate = (\<lambda>n. if samples \<noteq> [] \<and> wall > 0 then fl ar (fl ar (of_int n) / Seconds ar wall) else 0)
      in \<lparr>pt_Params = params, pt_Figures = figures, pt_WallClock = wall,
          pt_RunsPerSecond = rate (br_RunsCompleted figures), pt_TasksPerSecond = rate (br_TasksExecuted figures),
          pt_DuplicateEffect = 0, pt_Environment = env\<rparr>)"

definition CSVHeader :: "string list" where
  "CSVHeader =
     [''workers'', ''runs'', ''fault_rate'', ''workflow'', ''runs_completed'', ''runs_succeeded'', ''runs_failed'',
      ''wall_clock_s'', ''runs_per_second'', ''tasks_executed'', ''tasks_per_second'', ''retries'', ''lost_tasks'',
      ''run_p50_ms'', ''run_p95_ms'', ''run_p99_ms'', ''run_max_ms'', ''recovery_p50_ms'', ''recovery_p95_ms'',
      ''recovery_max_ms'', ''go_version'', ''os'', ''arch'', ''num_cpu'', ''postgres_version'', ''relab_version'',
      ''measured_at'']"

text \<open>\<open>ff\<close> is \<^verbatim>\<open>strconv.FormatFloat\<close> in fixed notation, \<open>rfc3339\<close> the text of a time.\<close>

definition Result_row :: "arith \<Rightarrow> (float \<Rightarrow> nat \<Rightarrow> string) \<Rightarrow> (time \<Rightarrow> string) \<Rightarrow> bench_point \<Rightarrow> string list" where
  "Result_row ar ff rfc3339 r =
     (let prm = pt_Params r; fg = pt_Figures r; en = pt_Environment r; ms = (\<lambda>d. show_int (Milliseconds d)) in
      [show_int (bp_Workers prm), show_int (bp_Runs prm), ff (bp_FaultRate prm) 3, bp_Workflow prm,
       show_int (br_RunsCompleted fg), show_int (br_RunsSucceeded fg), show_int (br_RunsFailed fg),
       ff (Finite (Seconds ar (pt_WallClock r))) 3, ff (Finite (pt_RunsPerSecond r)) 2, show_int (br_TasksExecuted fg),
       ff (Finite (pt_TasksPerSecond r)) 2, show_int (br_TotalRetries fg), show_int (br_TotalLostTasks fg)]
      @ map ms (br_RunLatency fg) @ map ms (br_Recovery fg)
      @ [en_GoVersion en, en_OS en, en_Arch en, show_int (en_NumCPU en), en_PostgresVersion en, en_RelabVersion en,
         rfc3339 (en_MeasuredAt en)])"

text \<open>The records \<^verbatim>\<open>WriteCSV\<close> hands to the CSV writer.\<close>

definition csv_records :: "arith \<Rightarrow> (float \<Rightarrow> nat \<Rightarrow> string) \<Rightarrow> (time \<Rightarrow> string) \<Rightarrow> bench_point list \<Rightarrow> string list list" where
  "csv_records ar ff rfc3339 results = CSVHeader # map (Result_row ar ff rfc3339) results"

section \<open>A sample\<close>

text \<open>\<^verbatim>\<open>SampleFrom\<close>: the journal, its replay, then the row, with others running between the two queries.\<close>

definition sample_of :: "uuid \<Rightarrow> event list \<Rightarrow> run_state \<Rightarrow> run \<Rightarrow> bench_sample" where
  "sample_of rid evs state run =
     \<lparr>sm_RunID = rid, sm_Status = rs_Status state,
      sm_Duration = (case run_CompletedAt run of None \<Rightarrow> 0 | Some c \<Rightarrow> time_sub c (run_CreatedAt run)),
      sm_Recovery = RecoveryTime evs, sm_Tasks = TotalAttempts state,
      sm_Retries = sum_list (map (ts_Retries \<circ> snd) (rs_Tasks state)), sm_Lost = LostTasks state\<rparr>"

definition SampleFrom :: "uuid \<Rightarrow> world \<Rightarrow> (cli_error + bench_sample) \<times> world" where
  "SampleFrom rid w =
     (case read_db (Read rid) w of
        (Inl e, w1) \<Rightarrow> (Inl (CliStore e), w1)
      | (Inr evs, w1) \<Rightarrow>
         (case Reduce rid evs of
            Inl e \<Rightarrow> (Inl (CliLoad (LoadReplay e)), w1)
          | Inr state \<Rightarrow>
             (case read_db (RunByID rid) w1 of
                (Inl e, w2) \<Rightarrow> (Inl (CliStore e), w2)
              | (Inr run, w2) \<Rightarrow> (Inr (sample_of rid evs state run), w2))))"

fun take_samples :: "uuid list \<Rightarrow> world \<Rightarrow> (cli_error + bench_sample list) \<times> world" where
  "take_samples [] w = (Inr [], w)"
| "take_samples (rid # rids) w =
     (case SampleFrom rid w of
        (Inl e, w1) \<Rightarrow> (Inl e, w1)
      | (Inr s, w1) \<Rightarrow>
         (case take_samples rids w1 of
            (Inl e, w2) \<Rightarrow> (Inl e, w2)
          | (Inr ss, w2) \<Rightarrow> (Inr (s # ss), w2)))"

section \<open>The pool of runners\<close>

text \<open>
  What a goroutine of the pool is doing: registering its runner, receiving from the queue,
  driving a run, or gone.  The queue is a closed channel, the errors a channel of as many
  places as there are goroutines.
\<close>

datatype bench_runner = Joining | Waiting | Driving uuid | Gone

record bench_pool =
  bo_queue :: "uuid list"
  bo_runners :: "nat \<Rightarrow> bench_runner"
  bo_errs :: "cli_error list"
  bo_finished :: "uuid list"
  bo_failed :: "uuid list"

definition new_bench :: "nat \<Rightarrow> uuid list \<Rightarrow> bench_pool" where
  "new_bench n ids =
     \<lparr>bo_queue = ids, bo_runners = (\<lambda>i. if i < n then Joining else Gone), bo_errs = [], bo_finished = [], bo_failed = []\<rparr>"

definition runner_at :: "nat \<Rightarrow> bench_runner \<Rightarrow> bench_pool \<Rightarrow> bench_pool" where
  "runner_at i r p = p\<lparr>bo_runners := (bo_runners p)(i := r)\<rparr>"

definition send_err :: "cli_error \<Rightarrow> bench_pool \<Rightarrow> bench_pool" where
  "send_err e p = p\<lparr>bo_errs := bo_errs p @ [e]\<rparr>"

text \<open>
  One move of a goroutine.  \<^verbatim>\<open>runner.Run\<close> returns without an error when it reads a terminal
  status; everything it does before that is steps of the system.
\<close>

inductive runner_step :: "db \<Rightarrow> bench_pool \<Rightarrow> bench_pool \<Rightarrow> bool" for db where
  joins: "bo_runners p i = Joining \<Longrightarrow> runner_step db p (runner_at i Waiting p)"
| refused: "bo_runners p i = Joining \<Longrightarrow> runner_step db p (send_err e (runner_at i Gone p))"
| takes: "bo_runners p i = Waiting \<Longrightarrow> bo_queue p = rid # rids \<Longrightarrow> runner_step db p (runner_at i (Driving rid) (p\<lparr>bo_queue := rids\<rparr>))"
| drained: "bo_runners p i = Waiting \<Longrightarrow> bo_queue p = [] \<Longrightarrow> runner_step db p (runner_at i Gone p)"
| returns: "bo_runners p i = Driving rid \<Longrightarrow> RunByID rid db = Inr run \<Longrightarrow> RunStatus_Terminal (run_Status run) \<Longrightarrow>
    runner_step db p (runner_at i Waiting (p\<lparr>bo_finished := bo_finished p @ [rid]\<rparr>))"
| fails: "bo_runners p i = Driving rid \<Longrightarrow>
    runner_step db p (send_err e (runner_at i Gone (p\<lparr>bo_failed := bo_failed p @ [rid]\<rparr>)))"

inductive bench_step :: "env \<Rightarrow> bench_pool \<times> db \<Rightarrow> bench_pool \<times> db \<Rightarrow> bool" for env where
  system: "sys_step env db db' \<Longrightarrow> bench_step env (p, db) (p, db')"
| runner: "runner_step db p p' \<Longrightarrow> bench_step env (p, db) (p', db)"

text \<open>\<^verbatim>\<open>wg.Wait\<close> returns.\<close>

definition all_left :: "bench_pool \<Rightarrow> bool" where
  "all_left p \<longleftrightarrow> (\<forall>i. bo_runners p i = Gone)"

section \<open>A point, the matrix and the command\<close>

definition bench_options :: "nat \<Rightarrow> create_run_options" where
  "bench_options i =
     \<lparr>co_ScenarioName = [], co_ScenarioHash = [], co_Seed = int i + 1, co_CorrelationID = [], co_Now = zero_time\<rparr>"

fun create_runs ::
  "executor \<Rightarrow> (nat \<Rightarrow> fresh) \<Rightarrow> workflow_row \<Rightarrow> wf_definition \<Rightarrow> nat \<Rightarrow> nat \<Rightarrow> world \<Rightarrow> (error + uuid list) \<times> world" where
  "create_runs x f wfl def i 0 w = (Inr [], w)"
| "create_runs x f wfl def i (Suc k) w =
     (case create_run x (f i) wfl def (bench_options i) w of
        (Inl e, w1) \<Rightarrow> (Inl e, w1)
      | (Inr run, w1) \<Rightarrow>
         (case create_runs x f wfl def (Suc i) k w1 of
            (Inl e, w2) \<Rightarrow> (Inl e, w2)
          | (Inr rids, w2) \<Rightarrow> (Inr (run_ID run # rids), w2)))"

text \<open>
  \<^verbatim>\<open>measure\<close>.  \<open>reg\<close> is what \<open>benchRegistry\<close> made; while the pool works the turns of the process
  pass, \<open>n\<close> of them.
\<close>

inductive measures ::
  "arith \<Rightarrow> executor \<Rightarrow> (nat \<Rightarrow> fresh) \<Rightarrow> workflow_row \<Rightarrow> wf_definition \<Rightarrow> bench_params \<Rightarrow> bench_environment
   \<Rightarrow> registry_error + registry \<Rightarrow> world \<Rightarrow> cli_error + bench_point \<Rightarrow> world \<Rightarrow> bool"
  for ar x f wfl def params env reg w where
  not_created: "create_runs x f wfl def 0 (nat (bp_Runs params)) w = (Inl e, w1) \<Longrightarrow>
    measures ar x f wfl def params env reg w (Inl (CliStore e)) w1"
| not_registered: "create_runs x f wfl def 0 (nat (bp_Runs params)) w = (Inr rids, w1) \<Longrightarrow> reg = Inl e \<Longrightarrow>
    measures ar x f wfl def params env reg w (Inl (CliRegistry e)) w1"
| not_drained: "create_runs x f wfl def 0 (nat (bp_Runs params)) w = (Inr rids, w1) \<Longrightarrow> reg = Inr r \<Longrightarrow>
    (bench_step (ex_env x))\<^sup>*\<^sup>* (new_bench (nat (bp_Workers params)) rids, w_db w1) (p, db2) \<Longrightarrow> all_left p \<Longrightarrow>
    bo_errs p = e # es \<Longrightarrow>
    measures ar x f wfl def params env reg w (Inl e) (w1\<lparr>w_db := db2, w_at := w_at w1 + n\<rparr>)"
| not_sampled: "create_runs x f wfl def 0 (nat (bp_Runs params)) w = (Inr rids, w1) \<Longrightarrow> reg = Inr r \<Longrightarrow>
    (bench_step (ex_env x))\<^sup>*\<^sup>* (new_bench (nat (bp_Workers params)) rids, w_db w1) (p, db2) \<Longrightarrow> all_left p \<Longrightarrow>
    bo_errs p = [] \<Longrightarrow> take_samples rids (w1\<lparr>w_db := db2, w_at := w_at w1 + n\<rparr>) = (Inl e, w2) \<Longrightarrow>
    measures ar x f wfl def params env reg w (Inl e) w2"
| measured: "create_runs x f wfl def 0 (nat (bp_Runs params)) w = (Inr rids, w1) \<Longrightarrow> reg = Inr r \<Longrightarrow>
    (bench_step (ex_env x))\<^sup>*\<^sup>* (new_bench (nat (bp_Workers params)) rids, w_db w1) (p, db2) \<Longrightarrow> all_left p \<Longrightarrow>
    bo_errs p = [] \<Longrightarrow> take_samples rids (w1\<lparr>w_db := db2, w_at := w_at w1 + n\<rparr>) = (Inr samples, w2) \<Longrightarrow>
    measures ar x f wfl def params env reg w (Inr (bench_point_of ar params samples wall env)) w2"

inductive_cases measuresE: "measures ar x f wfl def params env reg w (Inr pt) w'"

text \<open>The matrix, row by row; the first point that fails ends it.\<close>

inductive bench_matrix ::
  "arith \<Rightarrow> executor \<Rightarrow> (nat \<Rightarrow> nat \<Rightarrow> fresh) \<Rightarrow> (float \<Rightarrow> registry_error + registry) \<Rightarrow> workflow_row \<Rightarrow> wf_definition \<Rightarrow> int
   \<Rightarrow> bench_environment \<Rightarrow> (int \<times> float) list \<Rightarrow> world \<Rightarrow> cli_error + bench_point list \<Rightarrow> world \<Rightarrow> bool"
  for ar x f reg wfl def nruns env where
  no_more: "bench_matrix ar x f reg wfl def nruns env [] w (Inr []) w"
| point_fails: "measures ar x (f (length ps)) wfl def
      \<lparr>bp_Workers = c, bp_Runs = nruns, bp_FaultRate = rate, bp_Workflow = w_name wfl\<rparr> env (reg rate) w (Inl e) w1 \<Longrightarrow>
    bench_matrix ar x f reg wfl def nruns env ((c, rate) # ps) w (Inl e) w1"
| rest_fails: "measures ar x (f (length ps)) wfl def
      \<lparr>bp_Workers = c, bp_Runs = nruns, bp_FaultRate = rate, bp_Workflow = w_name wfl\<rparr> env (reg rate) w (Inr pt) w1 \<Longrightarrow>
    bench_matrix ar x f reg wfl def nruns env ps w1 (Inl e) w2 \<Longrightarrow>
    bench_matrix ar x f reg wfl def nruns env ((c, rate) # ps) w (Inl e) w2"
| next_point: "measures ar x (f (length ps)) wfl def
      \<lparr>bp_Workers = c, bp_Runs = nruns, bp_FaultRate = rate, bp_Workflow = w_name wfl\<rparr> env (reg rate) w (Inr pt) w1 \<Longrightarrow>
    bench_matrix ar x f reg wfl def nruns env ps w1 (Inr pts) w2 \<Longrightarrow>
    bench_matrix ar x f reg wfl def nruns env ((c, rate) # ps) w (Inr (pt # pts)) w2"

record bench_flags =
  bf_workers :: string
  bf_faultRates :: string
  bf_runs :: int

text \<open>The command up to the first measurement: the points of the matrix, the engine and the workflow.\<close>

definition bench_setup ::
  "'s host_env \<Rightarrow> (string \<Rightarrow> float option) \<Rightarrow> bench_flags \<Rightarrow> uuid \<Rightarrow> string \<Rightarrow> 's place
   \<Rightarrow> (cli_error + (int \<times> float) list \<times> executor \<times> workflow_row \<times> wf_definition) \<times> 's place" where
  "bench_setup h parseFloat flg wid arg pl =
     (case parseIntList (bf_workers flg) ''--workers'' of
        Inl e \<Rightarrow> (Inl (CliList e), pl)
      | Inr counts \<Rightarrow>
     (case parseFloatList parseFloat (bf_faultRates flg) ''--fault-rate'' of
        Inl e \<Rightarrow> (Inl (CliList e), pl)
      | Inr rates \<Rightarrow>
          if bf_runs flg < 1 then (Inl RunsBelowOne, pl)
          else
     (case startup (h\<lparr>he_getenv := bench_environ counts (he_getenv h)\<rparr>) (snd pl) of
        (Inl e, sd) \<Rightarrow> (Inl e, fst pl, sd)
      | (Inr x, sd) \<Rightarrow>
         (case resolveWorkflow h x wid arg (fst pl) of
            (Inl e, w) \<Rightarrow> (Inl e, w, sd)
          | (Inr (wfl, def), w) \<Rightarrow> (Inr (List.product counts rates, x, wfl, def), w, sd)))))"

section \<open>What the pool guarantees\<close>

text \<open>A sum over the goroutines after one of them changed.\<close>

lemma sum_upd:
  fixes g :: "'b \<Rightarrow> 'a::comm_monoid_add" and i n :: nat
  assumes "i < n"
  shows "(\<Sum>j<n. g ((f(i := r)) j)) + g (f i) = (\<Sum>j<n. g (f j)) + g r"
proof -
  have "(\<Sum>j<n. g ((f(i := r)) j)) = g ((f(i := r)) i) + (\<Sum>j\<in>{..<n} - {i}. g ((f(i := r)) j))"
    using assms by (intro sum.remove) auto
  also have "(\<Sum>j\<in>{..<n} - {i}. g ((f(i := r)) j)) = (\<Sum>j\<in>{..<n} - {i}. g (f j))" by (rule sum.cong) auto
  finally have "(\<Sum>j<n. g ((f(i := r)) j)) = g r + (\<Sum>j\<in>{..<n} - {i}. g (f j))" by simp
  moreover have "(\<Sum>j<n. g (f j)) = g (f i) + (\<Sum>j\<in>{..<n} - {i}. g (f j))"
    using assms by (simp add: sum.remove)
  ultimately show ?thesis by (simp add: ac_simps)
qed

fun in_hand :: "bench_runner \<Rightarrow> uuid multiset" where
  "in_hand (Driving rid) = {#rid#}"
| "in_hand _ = {#}"

fun present :: "bench_runner \<Rightarrow> nat" where
  "present Gone = 0"
| "present _ = 1"

fun moves_left :: "bench_runner \<Rightarrow> nat" where
  "moves_left Gone = 0"
| "moves_left Waiting = 1"
| "moves_left _ = 2"

text \<open>Every run is in exactly one place, and an error costs its goroutine.\<close>

definition bench_ok :: "nat \<Rightarrow> uuid list \<Rightarrow> bench_pool \<Rightarrow> bool" where
  "bench_ok n ids p \<longleftrightarrow> (\<forall>i\<ge>n. bo_runners p i = Gone)
     \<and> mset (bo_queue p) + (\<Sum>i<n. in_hand (bo_runners p i)) + mset (bo_finished p) + mset (bo_failed p) = mset ids
     \<and> length (bo_errs p) + (\<Sum>i<n. present (bo_runners p i)) \<le> n
     \<and> length (bo_failed p) \<le> length (bo_errs p)
     \<and> (bo_queue p = [] \<or> bo_errs p \<noteq> [] \<or> (\<forall>i<n. bo_runners p i \<noteq> Gone))"

lemma bench_ok_new: "bench_ok n ids (new_bench n ids)"
  by (simp add: bench_ok_def new_bench_def)

lemma bench_slot: "bench_ok n ids p \<Longrightarrow> bo_runners p i \<noteq> Gone \<Longrightarrow> i < n"
  by (meson bench_ok_def not_le)

lemma bench_ok_step:
  assumes "bench_ok n ids p" and "runner_step db p p'"
  shows "bench_ok n ids p'"
  using assms(2)
proof cases
  case (joins i)
  then have "i < n" using bench_slot [OF assms(1)] by simp
  with joins assms(1) sum_upd [of i n in_hand "bo_runners p" Waiting] sum_upd [of i n present "bo_runners p" Waiting]
  show ?thesis by (auto simp add: bench_ok_def runner_at_def)
next
  case (refused i e)
  then have "i < n" using bench_slot [OF assms(1)] by simp
  with refused assms(1) sum_upd [of i n in_hand "bo_runners p" Gone] sum_upd [of i n present "bo_runners p" Gone]
  show ?thesis by (auto simp add: bench_ok_def runner_at_def send_err_def)
next
  case (takes i rid rids)
  then have "i < n" using bench_slot [OF assms(1)] by simp
  with takes assms(1) sum_upd [of i n in_hand "bo_runners p" "Driving rid"] sum_upd [of i n present "bo_runners p" "Driving rid"]
  show ?thesis by (auto simp add: bench_ok_def runner_at_def)
next
  case (drained i)
  then have "i < n" using bench_slot [OF assms(1)] by simp
  with drained assms(1) sum_upd [of i n in_hand "bo_runners p" Gone] sum_upd [of i n present "bo_runners p" Gone]
  show ?thesis by (auto simp add: bench_ok_def runner_at_def)
next
  case (returns i rid run)
  then have "i < n" using bench_slot [OF assms(1)] by simp
  with returns assms(1) sum_upd [of i n in_hand "bo_runners p" Waiting, symmetric] sum_upd [of i n present "bo_runners p" Waiting]
  show ?thesis by (auto simp add: bench_ok_def runner_at_def)
next
  case (fails i rid e)
  then have "i < n" using bench_slot [OF assms(1)] by simp
  with fails assms(1) sum_upd [of i n in_hand "bo_runners p" Gone, symmetric] sum_upd [of i n present "bo_runners p" Gone]
  show ?thesis by (auto simp add: bench_ok_def runner_at_def send_err_def)
qed

text \<open>The goroutines make a bounded number of moves.\<close>

definition pool_left :: "nat \<Rightarrow> bench_pool \<Rightarrow> nat" where
  "pool_left n p = 2 * length (bo_queue p) + (\<Sum>i<n. moves_left (bo_runners p i))"

lemma pool_left_step:
  assumes "bench_ok n ids p" and "runner_step db p p'"
  shows "pool_left n p' < pool_left n p"
proof -
  have upd: "i < n \<Longrightarrow> (\<Sum>j<n. moves_left (((bo_runners p)(i := r)) j)) + moves_left (bo_runners p i)
      = (\<Sum>j<n. moves_left (bo_runners p j)) + moves_left r" for i r by (rule sum_upd)
  show ?thesis using assms(2)
  proof cases
    case (joins i)
    then have "i < n" using bench_slot [OF assms(1)] by simp
    with joins upd [of i Waiting] show ?thesis by (simp add: pool_left_def runner_at_def)
  next
    case (refused i e)
    then have "i < n" using bench_slot [OF assms(1)] by simp
    with refused upd [of i Gone] show ?thesis by (simp add: pool_left_def runner_at_def send_err_def)
  next
    case (takes i rid rids)
    then have "i < n" using bench_slot [OF assms(1)] by simp
    with takes upd [of i "Driving rid"] show ?thesis by (simp add: pool_left_def runner_at_def)
  next
    case (drained i)
    then have "i < n" using bench_slot [OF assms(1)] by simp
    with drained upd [of i Gone] show ?thesis by (simp add: pool_left_def runner_at_def)
  next
    case (returns i rid run)
    then have "i < n" using bench_slot [OF assms(1)] by simp
    with returns upd [of i Waiting] show ?thesis by (simp add: pool_left_def runner_at_def)
  next
    case (fails i rid e)
    then have "i < n" using bench_slot [OF assms(1)] by simp
    with fails upd [of i Gone] show ?thesis by (simp add: pool_left_def runner_at_def send_err_def)
  qed
qed

text \<open>A stretch of the execution with the number of moves the goroutines made in it.\<close>

inductive bench_moves :: "env \<Rightarrow> bench_pool \<times> db \<Rightarrow> nat \<Rightarrow> bench_pool \<times> db \<Rightarrow> bool" for env s where
  none: "bench_moves env s 0 s"
| others: "bench_moves env s k (p, db) \<Longrightarrow> sys_step env db db' \<Longrightarrow> bench_moves env s k (p, db')"
| move: "bench_moves env s k (p, db) \<Longrightarrow> runner_step db p p' \<Longrightarrow> bench_moves env s (Suc k) (p', db)"

lemma bench_moves_steps: "(bench_step env)\<^sup>*\<^sup>* s t \<longleftrightarrow> (\<exists>k. bench_moves env s k t)"
proof
  show "(bench_step env)\<^sup>*\<^sup>* s t \<Longrightarrow> \<exists>k. bench_moves env s k t"
    by (induction rule: rtranclp_induct) (auto intro: bench_moves.intros elim!: bench_step.cases)
  have "(bench_step env)\<^sup>*\<^sup>* s t" if "bench_moves env s k t" for k
    using that by induction (auto intro: bench_step.intros rtranclp.rtrancl_into_rtrancl)
  then show "\<exists>k. bench_moves env s k t \<Longrightarrow> (bench_step env)\<^sup>*\<^sup>* s t" by blast
qed

lemma bench_reached:
  assumes "bench_moves env (new_bench n ids, db0) k t" and "reachable env db0"
  shows "bench_ok n ids (fst t) \<and> (sys_step env)\<^sup>*\<^sup>* db0 (snd t) \<and> k + pool_left n (fst t) \<le> 2 * (length ids + n)
    \<and> (\<forall>rid\<in>set (bo_finished (fst t)). \<exists>run es. closed_as rid run es (snd t))"
  using assms(1)
proof induction
  case none
  then show ?case using bench_ok_new [of n ids] by (simp add: pool_left_def new_bench_def)
next
  case (others k p db db')
  moreover have "reachable env db" using others.IH assms(2) reachable_steps by auto
  moreover have "closed_as rid run es db'" if "closed_as rid run es db" for rid run es
    using closed_steps [OF _ \<open>reachable env db\<close> that] others.hyps(2) by blast
  ultimately have "\<forall>rid\<in>set (bo_finished p). \<exists>run es. closed_as rid run es db'" by fastforce
  then show ?case using others by (auto intro: rtranclp.rtrancl_into_rtrancl)
next
  case (move k p db p')
  have r: "reachable env db" using move.IH assms(2) reachable_steps by auto
  have ok: "bench_ok n ids p" using move.IH by simp
  have "set (bo_finished p') \<subseteq> set (bo_finished p) \<union> {rid. \<exists>run. RunByID rid db = Inr run \<and> RunStatus_Terminal (run_Status run)}"
    using move.hyps(2) by cases (auto simp: runner_at_def send_err_def)
  moreover have "\<exists>row es. closed_as rid row es db" if "RunByID rid db = Inr run" "RunStatus_Terminal (run_Status run)" for rid run
    using RunByID_closed [OF r that] by blast
  ultimately have "\<forall>rid\<in>set (bo_finished p'). \<exists>run es. closed_as rid run es db" using move.IH by fastforce
  moreover have "Suc k + pool_left n p' \<le> 2 * (length ids + n)"
    using pool_left_step [OF ok move.hyps(2)] move.IH by simp
  ultimately show ?case using bench_ok_step [OF ok move.hyps(2)] move.IH by simp
qed

lemma bench_drained:
  assumes "bench_ok n ids p" and "all_left p" and "bo_errs p = []" and "0 < n"
  shows "mset (bo_finished p) = mset ids"
proof -
  have "bo_queue p = []" using assms by (auto simp: bench_ok_def all_left_def)
  moreover have "bo_failed p = []" using assms by (auto simp: bench_ok_def)
  moreover have "(\<Sum>i<n. in_hand (bo_runners p i)) = {#}" using assms(2) by (simp add: all_left_def)
  ultimately show ?thesis using assms(1) by (simp add: bench_ok_def)
qed

text \<open>Sending an error never blocks: a goroutine that is about to send still has its place in the channel.\<close>

lemma errs_not_full:
  assumes "bench_ok n ids p" and "bo_runners p i \<noteq> Gone"
  shows "length (bo_errs p) < n"
proof -
  have "i < n" by (rule bench_slot [OF assms])
  then have "present (bo_runners p i) \<le> (\<Sum>j<n. present (bo_runners p j))" by (intro member_le_sum) auto
  moreover have "present (bo_runners p i) = 1" using assms(2) by (cases "bo_runners p i") auto
  ultimately show ?thesis using assms(1) by (simp add: bench_ok_def)
qed

section \<open>What a point reports\<close>

text \<open>A sample that tells the status its run ended with.\<close>

definition sample_true :: "db \<Rightarrow> bench_sample \<Rightarrow> bool" where
  "sample_true db s \<longleftrightarrow> (\<exists>run es. closed_as (sm_RunID s) run es db \<and> sm_Status s = RunStatus_String (r_status run))"

lemma sample_stays: "ran env w w' \<Longrightarrow> sound_world env w \<Longrightarrow> sample_true (w_db w) s \<Longrightarrow> sample_true (w_db w') s"
  unfolding sample_true_def using ran_closed by blast

lemma SampleFrom_closed:
  assumes s: "SampleFrom rid w = (r, w')" and w: "sound_world env w" and c: "closed_as rid run es (w_db w)"
  shows "ran env w w' \<and> (\<forall>s. r = Inr s \<longrightarrow> sm_RunID s = rid \<and> sample_true (w_db w') s)"
proof -
  let ?w1 = "pass w" and ?w2 = "pass (pass w)"
  have m: "ran env w ?w1" "ran env w ?w2" using ran_pass ran_trans by blast+
  have w1: "reachable env (w_db ?w1)" "closed_as rid run es (w_db ?w1)"
    using ran_sound [OF m(1) w] ran_closed [OF m(1) w c] by (auto simp: sound_world_def)
  have w2: "closed_as rid run es (w_db ?w2)" by (rule ran_closed [OF m(2) w c])
  have "w' = ?w1 \<or> w' = ?w2" using s Load_closed(1) [OF w1]
    by (auto simp: SampleFrom_def read_db_def split: sum.splits)
  moreover have "sm_RunID s = rid \<and> sample_true (w_db w') s" if r: "r = Inr s" for s
  proof -
    obtain st row where "Reduce rid (map scan_event es) = Inr st" "s = sample_of rid (map scan_event es) st row" "w' = ?w2"
      using s r Load_closed(1) [OF w1] by (auto simp: SampleFrom_def read_db_def split: sum.splits)
    moreover from this have "rs_Status st = RunStatus_String (r_status run)"
      using Reduce_status [of rid es st] Load_closed(3) [OF w1] by simp
    ultimately show ?thesis using w2 by (auto simp: sample_true_def sample_of_def)
  qed
  ultimately show ?thesis using m by blast
qed

lemma take_samples_closed:
  assumes "take_samples rids w = (Inr ss, w')" and "sound_world env w"
    and "\<And>rid. rid \<in> set rids \<Longrightarrow> \<exists>run es. closed_as rid run es (w_db w)"
  shows "ran env w w' \<and> map sm_RunID ss = rids \<and> (\<forall>s\<in>set ss. sample_true (w_db w') s)"
  using assms
proof (induction rids arbitrary: w ss)
  case (Cons rid rids)
  obtain r w1 where s: "SampleFrom rid w = (r, w1)" by (metis prod.exhaust)
  with Cons.prems(1) obtain x xs where r: "r = Inr x" and ss: "ss = x # xs" and xs: "take_samples rids w1 = (Inr xs, w')"
    by (auto split: sum.splits prod.splits)
  obtain run es where "closed_as rid run es (w_db w)" using Cons.prems(3) [of rid] by auto
  note one = SampleFrom_closed [OF s Cons.prems(2) this]
  have w1: "sound_world env w1" using one Cons.prems(2) ran_sound by blast
  have "\<exists>run es. closed_as k run es (w_db w1)" if "k \<in> set rids" for k
    using that Cons.prems(3) [of k] one ran_closed [OF _ Cons.prems(2)] by fastforce
  from Cons.IH [OF xs w1 this] one r ss show ?case using ran_trans sample_stays [OF _ w1] by auto
qed simp

text \<open>
  A run that is created has events from then on and had none before, so the runs of a point
  are different runs.
\<close>

definition logged :: "db \<Rightarrow> uuid set" where
  "logged db = e_run_id ` set (events db)"

lemma logged_steps: "(sys_step env)\<^sup>*\<^sup>* db db' \<Longrightarrow> logged db \<subseteq> logged db'"
  by (induction rule: rtranclp_induct) (auto simp: logged_def dest!: events_grow)

lemma CreateRun_logs:
  assumes "CreateRun env rnd rid new_id clock wfl def opts db = (Inr run, db')" and "journal_ok db"
  shows "run_ID run = rid \<and> rid \<notin> logged db \<and> rid \<in> logged db'"
proof -
  obtain seed now where tx: "create_run_tx env rid new_id wfl def opts seed now db = Inr ((), db')" and id: "run_ID run = rid"
    using assms(1) by (auto simp: CreateRun_def Let_def InTx_def split: if_splits sum.splits prod.splits)
  let ?p = "RunCreatedPayload (w_name wfl) (w_version wfl) (w_definition_hash wfl) (co_ScenarioName opts) (co_ScenarioHash opts)
    seed (co_CorrelationID opts)"
  let ?rest = "tx_bind (tx_for (enumerate 0 (d_Steps def)) (\<lambda>(i, st). create_task env def rid now (new_id i) st)) (\<lambda>_.
     tx_bind (tx_check (map_option ErrIllegal (RunStatus_Transition RunCreated RunQueued))) (\<lambda>_.
     tx_bind (update_runs (\<lambda>r. r_id r = rid \<and> r_status r = RunCreated) (\<lambda>r. r\<lparr>r_status := RunQueued\<rparr>)) (\<lambda>_.
     append now rid (RunQueuedPayload (int (length (d_Steps def)))) (at_run now))))"
  from tx obtain db1 db2 where ins: "insert_run (new_run_row rid (w_id wfl) opts seed now) db = Inr ((), db1)"
    and app: "append now rid ?p (at_run now) db1 = Inr ((), db2)" and rest: "?rest db2 = Inr ((), db')"
    unfolding create_run_tx_def by (subst (asm) tx_bind_Inr, elim exE conjE, subst (asm) tx_bind_Inr) auto
  have keeps: "tx_keeps (extends (events db2)) ?rest"
    unfolding create_task_def by (intro keeps_rules journal_kept.statements)
  have tail: "extends (events db2) db'" by (rule tx_keepsD [OF keeps _ rest]) (simp add: extends_def)
  have r: "rid \<notin> r_id ` set (runs db)" "distinct (map r_id (runs db1))" "events db1 = events db"
    using ins assms(2) by (auto simp: insert_run_def new_run_row_def journal_ok_def split: if_splits)
  have "rid \<in> logged db2" 
    by (rule append_Inr [OF r(2) app]) (simp add: logged_def stored_def)
  then show ?thesis using id r(1) assms(2) tail by (auto simp: logged_def journal_ok_def extends_def)
qed

lemma create_run_logs:
  assumes "create_run x f wfl def opts w = (Inr run, w')" and "sound_world (ex_env x) w"
  shows "run_ID run \<notin> logged (w_db w) \<and> run_ID run \<in> logged (w_db w')"
proof -
  have s: "sound_world (ex_env x) (pass w)" by (rule ran_sound [OF ran_pass assms(2)])
  then have "journal_ok (w_db (pass w))" using journal.holds by (auto simp: sound_world_def)
  moreover have "logged (w_db w) \<subseteq> logged (w_db (pass w))"
    using ran_pass [of "ex_env x" w] assms(2) logged_steps by (auto simp: ran_def sound_world_def)
  ultimately show ?thesis
    using assms(1) CreateRun_logs by (fastforce simp: create_run_def on_db_def split: prod.splits)
qed

lemma create_runs_ran:
  assumes "create_runs x f wfl def i k w = (r, w')" and "sound_world (ex_env x) w" and "known_workflow (ex_env x) wfl def (w_db w)"
  shows "ran (ex_env x) w w' \<and> (\<forall>rids. r = Inr rids \<longrightarrow> length rids = k \<and> distinct rids \<and> set rids \<inter> logged (w_db w) = {})"
  using assms
proof (induction k arbitrary: i w r w')
  case (Suc k)
  obtain r1 w1 where c: "create_run x (f i) wfl def (bench_options i) w = (r1, w1)" by (metis prod.exhaust)
  obtain r2 w2 where cs: "create_runs x f wfl def (Suc i) k w1 = (r2, w2)" by (metis prod.exhaust)
  have m1: "ran (ex_env x) w w1" using ran_create_run [OF c Suc.prems(2,3)] by simp
  have rest: "ran (ex_env x) w1 w2 \<and> (\<forall>rids. r2 = Inr rids \<longrightarrow> length rids = k \<and> distinct rids \<and> set rids \<inter> logged (w_db w1) = {})"
    using Suc.IH [OF cs] ran_sound [OF m1 Suc.prems(2)] ran_known [OF m1 Suc.prems(2,3)] by blast
  have "logged (w_db w) \<subseteq> logged (w_db w1)"
    using m1 Suc.prems(2) logged_steps by (auto simp: ran_def sound_world_def)
  moreover have "\<forall>run. r1 = Inr run \<longrightarrow> run_ID run \<notin> logged (w_db w) \<and> run_ID run \<in> logged (w_db w1)"
    using create_run_logs c Suc.prems(2) by blast
  ultimately show ?case using m1 rest Suc.prems(1) c cs ran_trans by (auto split: sum.splits)
qed simp

lemma status_succeeded: "RunStatus_String s = ''SUCCEEDED'' \<longleftrightarrow> s = RunSucceeded"
  by (cases s) auto

text \<open>What the figures say of samples that are true.\<close>

definition succeeded_run :: "db \<Rightarrow> uuid \<Rightarrow> bool" where
  "succeeded_run db rid \<longleftrightarrow> (case run_by_id rid db of None \<Rightarrow> False | Some run \<Rightarrow> r_status run = RunSucceeded)"

lemma sample_succeeded: "sample_true db s \<Longrightarrow> sm_Status s = ''SUCCEEDED'' \<longleftrightarrow> succeeded_run db (sm_RunID s)"
  by (auto simp: sample_true_def closed_as_def succeeded_run_def simp flip: status_succeeded)

lemma Summarise_true:
  assumes "\<And>s. s \<in> set ss \<Longrightarrow> sample_true db s"
  shows "br_RunsCompleted (Summarise ar ss) = int (length ss)"
    and "br_RunsSucceeded (Summarise ar ss) = int (length (filter (succeeded_run db) (map sm_RunID ss)))"
    and "br_RunsFailed (Summarise ar ss) = int (length (filter (\<lambda>rid. \<not> succeeded_run db rid) (map sm_RunID ss)))"
proof -
  have "filter (\<lambda>s. sm_Status s = ''SUCCEEDED'') ss = filter (\<lambda>s. succeeded_run db (sm_RunID s)) ss"
    "filter (\<lambda>s. sm_Status s \<noteq> ''SUCCEEDED'') ss = filter (\<lambda>s. \<not> succeeded_run db (sm_RunID s)) ss"
    by (rule filter_cong; use assms sample_succeeded in auto)+
  then show "br_RunsSucceeded (Summarise ar ss) = int (length (filter (succeeded_run db) (map sm_RunID ss)))"
    "br_RunsFailed (Summarise ar ss) = int (length (filter (\<lambda>rid. \<not> succeeded_run db rid) (map sm_RunID ss)))"
    by (simp_all add: Summarise_def Let_def filter_map comp_def)
qed (simp add: Summarise_def Let_def)

lemma measures_true:
  assumes m: "measures ar x f wfl def params env reg w (Inr pt) w'" and w: "sound_world (ex_env x) w"
    and known: "known_workflow (ex_env x) wfl def (w_db w)" and n: "0 < bp_Workers params"
  shows "ran (ex_env x) w w' \<and> (\<exists>rids. length rids = nat (bp_Runs params) \<and> distinct rids \<and> (\<forall>rid\<in>set rids. \<exists>run es. closed_as rid run es (w_db w'))
    \<and> br_RunsCompleted (pt_Figures pt) = int (length rids)
    \<and> br_RunsSucceeded (pt_Figures pt) = int (length (filter (succeeded_run (w_db w')) rids))
    \<and> br_RunsFailed (pt_Figures pt) = int (length (filter (\<lambda>rid. \<not> succeeded_run (w_db w') rid) rids)))"
  using m
proof (rule measuresE)
  fix rids w1 r p db2 j samples wall
  assume pt: "pt = bench_point_of ar params samples wall env"
    and c: "create_runs x f wfl def 0 (nat (bp_Runs params)) w = (Inr rids, w1)"
    and b: "(bench_step (ex_env x))\<^sup>*\<^sup>* (new_bench (nat (bp_Workers params)) rids, w_db w1) (p, db2)"
    and left: "all_left p" "bo_errs p = []"
    and t: "take_samples rids (w1\<lparr>w_db := db2, w_at := w_at w1 + j\<rparr>) = (Inr samples, w')"
  let ?w2 = "w1\<lparr>w_db := db2, w_at := w_at w1 + j\<rparr>"
  have m1: "ran (ex_env x) w w1" and w1: "sound_world (ex_env x) w1" and len: "length rids = nat (bp_Runs params)" "distinct rids"
    using create_runs_ran [OF c w known] ran_sound w by auto
  obtain k where "bench_moves (ex_env x) (new_bench (nat (bp_Workers params)) rids, w_db w1) k (p, db2)"
    using b bench_moves_steps by blast
  from bench_reached [OF this] w1 have ok: "bench_ok (nat (bp_Workers params)) rids p" "(sys_step (ex_env x))\<^sup>*\<^sup>* (w_db w1) db2"
    "\<forall>rid\<in>set (bo_finished p). \<exists>run es. closed_as rid run es db2" by (auto simp: sound_world_def)
  have "set rids = set (bo_finished p)" using mset_eq_setD [OF bench_drained [OF ok(1) left]] n by simp
  then have "\<And>rid. rid \<in> set rids \<Longrightarrow> \<exists>run es. closed_as rid run es (w_db ?w2)" using ok(3) by simp
  moreover have "sound_world (ex_env x) ?w2" using w1 ok(2) reachable_steps by (auto simp: sound_world_def)
  ultimately have m2: "ran (ex_env x) ?w2 w'" and s: "map sm_RunID samples = rids" "\<And>s. s \<in> set samples \<Longrightarrow> sample_true (w_db w') s"
    using take_samples_closed [OF t] by blast+
  have "\<forall>rid\<in>set rids. \<exists>run es. closed_as rid run es (w_db w')"
    using s(2) unfolding s(1) [symmetric] by (fastforce simp: sample_true_def)
  moreover have "length samples = length rids" by (simp flip: s(1))
  moreover have "ran (ex_env x) w1 ?w2" using ok(2) by (simp add: ran_def)
  then have "ran (ex_env x) w w'" using m1 m2 ran_trans by blast
  ultimately show ?thesis using Summarise_true [OF s(2), of samples ar] len s(1)
    by (auto simp: pt bench_point_of_def Let_def intro!: exI [of _ rids])
qed

lemma measures_params: "measures ar x f wfl def params env reg w (Inr pt) w' \<Longrightarrow> pt_Params pt = params"
  by (erule measuresE) (simp add: bench_point_of_def Let_def)

section \<open>The matrix, the file and the demonstration\<close>

text \<open>One point per pair of a worker count and a rate, in order, and each counts all its runs.\<close>

lemma bench_matrix_true:
  assumes "bench_matrix ar x f reg wfl def nruns env ps w r w'" and "sound_world (ex_env x) w"
    and "known_workflow (ex_env x) wfl def (w_db w)" and "\<And>c rate. (c, rate) \<in> set ps \<Longrightarrow> 0 < c" and "0 \<le> nruns"
  shows "\<forall>pts. r = Inr pts \<longrightarrow> map (\<lambda>pt. (bp_Workers (pt_Params pt), bp_FaultRate (pt_Params pt))) pts = ps
    \<and> (\<forall>pt\<in>set pts. br_RunsCompleted (pt_Figures pt) = nruns
         \<and> br_RunsSucceeded (pt_Figures pt) + br_RunsFailed (pt_Figures pt) = nruns)"
  using assms
proof induction
  case (next_point ps c rate w pt w1 pts w2)
  note point = measures_true [OF next_point.hyps(1) next_point.prems(1,2)]
  have ran: "ran (ex_env x) w w1" using point next_point.prems(3) [of c rate] by simp
  have w1: "sound_world (ex_env x) w1" "known_workflow (ex_env x) wfl def (w_db w1)"
    using ran_sound [OF ran next_point.prems(1)] ran_known [OF ran next_point.prems(1,2)] by auto
  have "br_RunsCompleted (pt_Figures pt) = nruns \<and> br_RunsSucceeded (pt_Figures pt) + br_RunsFailed (pt_Figures pt) = nruns"
    using point next_point.prems(3) [of c rate] next_point.prems(4) by (auto simp: sum_length_filter_compl simp flip: of_nat_add)
  moreover have "bp_Workers (pt_Params pt) = c" "bp_FaultRate (pt_Params pt) = rate"
    using measures_params [OF next_point.hyps(1)] by simp_all
  ultimately show ?case using next_point.IH [OF w1] next_point.prems(3,4) by auto
qed simp_all

text \<open>Every record of the CSV file has as many fields as its header.\<close>

lemma csv_rectangular:
  assumes "fs \<in> set (csv_records ar ff rfc3339 (map (\<lambda>(prm, ss, wall, env). bench_point_of ar prm ss wall env) points))"
  shows "length fs = length CSVHeader"
  using assms
  by (auto simp: csv_records_def Result_row_def bench_point_of_def Summarise_def CSVHeader_def Let_def)

text \<open>What \<^verbatim>\<open>demo\<close> says of its run is what the tables say.\<close>

lemma demo_story_true:
  assumes d: "demo_story fuel h x wid f def sc w = (Some (Inr out), w')" and w: "sound_world (ex_env x) w"
    and env: "\<And>wfl w1. on_db (\<lambda>now. RegisterWorkflow (ex_env x) wid now def) w = (Inr wfl, w1)
               \<Longrightarrow> known_workflow (ex_env x) wfl def (w_db w1)"
  shows "\<exists>run es. closed_as (do_RunID out) run es (w_db w') \<and> do_Status out = RunStatus_String (r_status run)
    \<and> int (do_Events out) = r_event_seq run"
proof -
  obtain r1 w1 where r: "on_db (\<lambda>now. RegisterWorkflow (ex_env x) wid now def) w = (r1, w1)" by (metis prod.exhaust)
  then obtain wfl where wfl: "r1 = Inr wfl" using d by (cases r1) (auto simp: demo_story_def)
  have m1: "ran (ex_env x) w w1" by (rule ran_on_db [OF r]) (simp add: sys_step.register_workflow)
  have w1: "sound_world (ex_env x) w1" by (rule ran_sound [OF m1 w])
  obtain r2 w2 where p: "runScenarioWithPool fuel h x f wfl def sc 0 2 w1 = (r2, w2)" by (metis prod.exhaust)
  obtain rid where rid: "r2 = Some (Inr rid)" using d r wfl p by (auto simp: demo_story_def split: option.splits sum.splits)
  obtain run es where c: "closed_as rid run es (w_db w2)" and w2: "sound_world (ex_env x) w2"
    using runScenarioWithPool_closed [OF p w1 env [OF r [unfolded wfl]]] rid ran_sound w1 by blast
  have w3: "reachable (ex_env x) (w_db (pass w2))" "closed_as rid run es (w_db (pass w2))"
    using ran_sound [OF ran_pass w2] ran_closed [OF ran_pass w2 c] by (auto simp: sound_world_def)
  obtain st where st: "Reduce rid (map scan_event es) = Inr st" "w' = pass w2"
    "out = \<lparr>do_RunID = rid, do_Status = rs_Status st, do_Events = length es, do_Story = narrate False (map scan_event es)\<rparr>"
    using d r wfl p rid Load_closed(1) [OF w3] by (auto simp: demo_story_def read_db_def split: sum.splits)
  then have "rs_Status st = RunStatus_String (r_status run)"
    using Reduce_status [of rid es st] Load_closed(3) [OF w3] by simp
  then show ?thesis using st w3 Load_closed(4) [OF w3] by auto
qed

end
