(* ===== verification/Relab_Demo.thy ===== *)
theory Relab_Demo
  imports Relab_Progress
begin

text \<open>
  A worked example: a workflow of two steps, the second depending on the first, registered,
  started and carried through its first success by one worker.  The databases along the way
  are what the operations of the model compute; the theorems about reachable databases are
  applied to them.
\<close>

definition demo_steps :: "step list" where
  "demo_steps =
     [\<lparr>st_Name = ''a'', st_Handler = ''h'', st_DependsOn = [], st_Retry = None, st_Timeout = 0\<rparr>,
      \<lparr>st_Name = ''b'', st_Handler = ''h'', st_DependsOn = [''a''], st_Retry = None, st_Timeout = 0\<rparr>]"

definition demo_def :: wf_definition where
  "demo_def = \<lparr>d_Name = ''w'', d_Version = 1, d_Steps = demo_steps, d_Hash = ''hash''\<rparr>"

definition demo_env :: env where
  "demo_env = \<lparr>env_timing = DefaultTiming, env_uuid_String = show_nat,
     env_yaml_decode = (\<lambda>s. if s = ''yaml'' then Inr (demo_def\<lparr>d_Hash := []\<rparr>) else Inl ''bad''),
     env_yaml_marshal = (\<lambda>d. ''yaml''), env_sha256 = (\<lambda>s. ''hash''),
     env_arith = \<lparr>fl = id, pow = (\<lambda>x y. Some x), huge = (\<lambda>x. 0)\<rparr>\<rparr>"

definition demo_wfl :: workflow_row where
  "demo_wfl = \<lparr>w_id = 1, w_name = ''w'', w_version = 1, w_definition_yaml = ''yaml'',
               w_definition_hash = ''hash'', w_created_at = 5\<rparr>"

definition demo_opts :: create_run_options where
  "demo_opts = \<lparr>co_ScenarioName = [], co_ScenarioHash = [], co_Seed = 7, co_CorrelationID = [], co_Now = 10\<rparr>"

definition demo_out :: outcome where
  "demo_out = \<lparr>o_Output = None, o_Artifacts = [], o_Err = None, o_Permanent = False, o_Duration = 0\<rparr>"

definition demo_registered :: db where
  "demo_registered = snd (RegisterWorkflow demo_env 1 5 demo_def empty_db)"

definition demo_created :: db where
  "demo_created = snd (CreateRun demo_env 0 2 (\<lambda>i. 3 + i) 10 demo_wfl demo_def demo_opts demo_registered)"

definition demo_worker :: db where
  "demo_worker = snd (RegisterWorker 9 ''host'' ''v1'' 1 11 demo_created)"

definition demo_claimed :: db where
  "demo_claimed = snd (claim demo_env (\<lambda>_. False) 12 9 None 1 demo_worker)"

definition demo_task :: task where
  "demo_task = (case find (\<lambda>t. t_id t = 3) (tasks demo_claimed) of Some t \<Rightarrow> t | None \<Rightarrow> hd (tasks demo_claimed))"

definition demo_started :: db where
  "demo_started = snd (StartTask 9 demo_task ''h'' 13 demo_claimed)"

definition demo_done :: db where
  "demo_done = snd (CompleteTask demo_env 9 demo_task demo_out 14 demo_started)"

definition demo_cancelled :: db where
  "demo_cancelled = snd (CancelRun 2 ''stop'' 15 demo_done)"

text \<open>The computed values; as code equations they let later evaluations start from them.\<close>

lemma demo_created_eq [code]:
  "demo_created =
    \<lparr>workflows = [\<lparr>w_id = 1, w_name = ''w'', w_version = 1, w_definition_yaml = ''yaml'',
      w_definition_hash = ''hash'', w_created_at = 5\<rparr>], runs = [\<lparr>r_id = 2, r_workflow_id = 1, r_status
      = RunQueued, r_scenario_name = None, r_seed = 7, r_event_seq = 3, r_correlation_id = None, r_failure_reason =
      None, r_created_at = 10, r_started_at = None, r_completed_at = None\<rparr>], workers = [], tasks =
      [\<lparr>t_id = 3, t_run_id = 2, t_name = ''a'', t_attempt = 0, t_max_attempts = 3, t_status = TaskReady,
      t_worker_id = None, t_lease_expires_at = None, t_scheduled_at = 10, t_started_at = None, t_completed_at =
      None, t_output_ref = None, t_error = None, t_idempotency_key = ''2:a'', t_created_at = 10, t_updated_at =
      10\<rparr>, \<lparr>t_id = 4, t_run_id = 2, t_name = ''b'', t_attempt = 0, t_max_attempts = 3, t_status =
      TaskPending, t_worker_id = None, t_lease_expires_at = None, t_scheduled_at = 10, t_started_at = None,
      t_completed_at = None, t_output_ref = None, t_error = None, t_idempotency_key = ''2:b'', t_created_at = 10,
      t_updated_at = 10\<rparr>], task_attempts = [], events = [\<lparr>e_run_id = 2, e_seq = 1, e_type =
      ''RUN_CREATED'', e_task_name = None, e_worker_id = None, e_payload = JObj [(''definition_hash'', JStr
      ''hash''), (''seed'', JNum 7), (''v'', JNum 1), (''workflow_name'', JStr ''w''), (''workflow_version'', JNum
      1)], e_occurred_at = 10\<rparr>, \<lparr>e_run_id = 2, e_seq = 2, e_type = ''TASK_SCHEDULED'', e_task_name =
      Some ''a'', e_worker_id = None, e_payload = JObj [(''attempt'', JNum 0), (''scheduled_at'', JTime 10), (''v'',
      JNum 1)], e_occurred_at = 10\<rparr>, \<lparr>e_run_id = 2, e_seq = 3, e_type = ''RUN_QUEUED'', e_task_name =
      None, e_worker_id = None, e_payload = JObj [(''task_count'', JNum 2), (''v'', JNum 1)], e_occurred_at =
      10\<rparr>], side_effects = [], artifacts = [], dead_letters = []\<rparr>"
  by code_simp

lemma demo_task_eq [code]:
  "demo_task =
    \<lparr>t_id = 3, t_run_id = 2, t_name = ''a'', t_attempt = 1, t_max_attempts = 3, t_status = TaskLeased,
      t_worker_id = Some 9, t_lease_expires_at = Some 30000000012, t_scheduled_at = 10, t_started_at = None,
      t_completed_at = None, t_output_ref = None, t_error = None, t_idempotency_key = ''2:a'', t_created_at = 10,
      t_updated_at = 12\<rparr>"
  by code_simp

lemma demo_started_eq [code]:
  "demo_started =
    \<lparr>workflows = [\<lparr>w_id = 1, w_name = ''w'', w_version = 1, w_definition_yaml = ''yaml'',
      w_definition_hash = ''hash'', w_created_at = 5\<rparr>], runs = [\<lparr>r_id = 2, r_workflow_id = 1, r_status
      = RunRunning, r_scenario_name = None, r_seed = 7, r_event_seq = 6, r_correlation_id = None, r_failure_reason =
      None, r_created_at = 10, r_started_at = Some 13, r_completed_at = None\<rparr>], workers = [\<lparr>wk_id = 9,
      wk_hostname = ''host'', wk_version = ''v1'', wk_status = WorkerHealthy, wk_capacity = 1, wk_active_tasks = 0,
      wk_last_heartbeat = 11, wk_registered_at = 11\<rparr>], tasks = [\<lparr>t_id = 3, t_run_id = 2, t_name =
      ''a'', t_attempt = 1, t_max_attempts = 3, t_status = TaskRunning, t_worker_id = Some 9, t_lease_expires_at =
      Some 30000000012, t_scheduled_at = 10, t_started_at = Some 13, t_completed_at = None, t_output_ref = None,
      t_error = None, t_idempotency_key = ''2:a'', t_created_at = 10, t_updated_at = 13\<rparr>, \<lparr>t_id = 4,
      t_run_id = 2, t_name = ''b'', t_attempt = 0, t_max_attempts = 3, t_status = TaskPending, t_worker_id = None,
      t_lease_expires_at = None, t_scheduled_at = 10, t_started_at = None, t_completed_at = None, t_output_ref =
      None, t_error = None, t_idempotency_key = ''2:b'', t_created_at = 10, t_updated_at = 10\<rparr>],
      task_attempts = [\<lparr>ta_task_id = 3, ta_attempt = 1, ta_worker_id = 9, ta_started_at = 13\<rparr>], events
      = [\<lparr>e_run_id = 2, e_seq = 1, e_type = ''RUN_CREATED'', e_task_name = None, e_worker_id = None,
      e_payload = JObj [(''definition_hash'', JStr ''hash''), (''seed'', JNum 7), (''v'', JNum 1),
      (''workflow_name'', JStr ''w''), (''workflow_version'', JNum 1)], e_occurred_at = 10\<rparr>, \<lparr>e_run_id
      = 2, e_seq = 2, e_type = ''TASK_SCHEDULED'', e_task_name = Some ''a'', e_worker_id = None, e_payload = JObj
      [(''attempt'', JNum 0), (''scheduled_at'', JTime 10), (''v'', JNum 1)], e_occurred_at = 10\<rparr>,
      \<lparr>e_run_id = 2, e_seq = 3, e_type = ''RUN_QUEUED'', e_task_name = None, e_worker_id = None, e_payload =
      JObj [(''task_count'', JNum 2), (''v'', JNum 1)], e_occurred_at = 10\<rparr>, \<lparr>e_run_id = 2, e_seq = 4,
      e_type = ''TASK_LEASED'', e_task_name = Some ''a'', e_worker_id = Some 9, e_payload = JObj [(''attempt'', JNum
      1), (''lease_expires_at'', JTime 30000000012), (''v'', JNum 1)], e_occurred_at = 12\<rparr>, \<lparr>e_run_id
      = 2, e_seq = 5, e_type = ''TASK_STARTED'', e_task_name = Some ''a'', e_worker_id = Some 9, e_payload = JObj
      [(''attempt'', JNum 1), (''handler'', JStr ''h''), (''v'', JNum 1)], e_occurred_at = 13\<rparr>,
      \<lparr>e_run_id = 2, e_seq = 6, e_type = ''RUN_STARTED'', e_task_name = None, e_worker_id = None, e_payload =
      JObj [(''v'', JNum 1)], e_occurred_at = 13\<rparr>], side_effects = [], artifacts = [], dead_letters =
      []\<rparr>"
  by code_simp

lemma demo_done_eq [code]:
  "demo_done =
    \<lparr>workflows = [\<lparr>w_id = 1, w_name = ''w'', w_version = 1, w_definition_yaml = ''yaml'',
      w_definition_hash = ''hash'', w_created_at = 5\<rparr>], runs = [\<lparr>r_id = 2, r_workflow_id = 1, r_status
      = RunRunning, r_scenario_name = None, r_seed = 7, r_event_seq = 8, r_correlation_id = None, r_failure_reason =
      None, r_created_at = 10, r_started_at = Some 13, r_completed_at = None\<rparr>], workers = [\<lparr>wk_id = 9,
      wk_hostname = ''host'', wk_version = ''v1'', wk_status = WorkerHealthy, wk_capacity = 1, wk_active_tasks = 0,
      wk_last_heartbeat = 11, wk_registered_at = 11\<rparr>], tasks = [\<lparr>t_id = 3, t_run_id = 2, t_name =
      ''a'', t_attempt = 1, t_max_attempts = 3, t_status = TaskSucceeded, t_worker_id = Some 9, t_lease_expires_at =
      None, t_scheduled_at = 10, t_started_at = Some 13, t_completed_at = Some 14, t_output_ref = None, t_error =
      None, t_idempotency_key = ''2:a'', t_created_at = 10, t_updated_at = 14\<rparr>, \<lparr>t_id = 4, t_run_id =
      2, t_name = ''b'', t_attempt = 0, t_max_attempts = 3, t_status = TaskReady, t_worker_id = None,
      t_lease_expires_at = None, t_scheduled_at = 14, t_started_at = None, t_completed_at = None, t_output_ref =
      None, t_error = None, t_idempotency_key = ''2:b'', t_created_at = 10, t_updated_at = 14\<rparr>],
      task_attempts = [\<lparr>ta_task_id = 3, ta_attempt = 1, ta_worker_id = 9, ta_started_at = 13\<rparr>], events
      = [\<lparr>e_run_id = 2, e_seq = 1, e_type = ''RUN_CREATED'', e_task_name = None, e_worker_id = None,
      e_payload = JObj [(''definition_hash'', JStr ''hash''), (''seed'', JNum 7), (''v'', JNum 1),
      (''workflow_name'', JStr ''w''), (''workflow_version'', JNum 1)], e_occurred_at = 10\<rparr>, \<lparr>e_run_id
      = 2, e_seq = 2, e_type = ''TASK_SCHEDULED'', e_task_name = Some ''a'', e_worker_id = None, e_payload = JObj
      [(''attempt'', JNum 0), (''scheduled_at'', JTime 10), (''v'', JNum 1)], e_occurred_at = 10\<rparr>,
      \<lparr>e_run_id = 2, e_seq = 3, e_type = ''RUN_QUEUED'', e_task_name = None, e_worker_id = None, e_payload =
      JObj [(''task_count'', JNum 2), (''v'', JNum 1)], e_occurred_at = 10\<rparr>, \<lparr>e_run_id = 2, e_seq = 4,
      e_type = ''TASK_LEASED'', e_task_name = Some ''a'', e_worker_id = Some 9, e_payload = JObj [(''attempt'', JNum
      1), (''lease_expires_at'', JTime 30000000012), (''v'', JNum 1)], e_occurred_at = 12\<rparr>, \<lparr>e_run_id
      = 2, e_seq = 5, e_type = ''TASK_STARTED'', e_task_name = Some ''a'', e_worker_id = Some 9, e_payload = JObj
      [(''attempt'', JNum 1), (''handler'', JStr ''h''), (''v'', JNum 1)], e_occurred_at = 13\<rparr>,
      \<lparr>e_run_id = 2, e_seq = 6, e_type = ''RUN_STARTED'', e_task_name = None, e_worker_id = None, e_payload =
      JObj [(''v'', JNum 1)], e_occurred_at = 13\<rparr>, \<lparr>e_run_id = 2, e_seq = 7, e_type =
      ''TASK_SUCCEEDED'', e_task_name = Some ''a'', e_worker_id = Some 9, e_payload = JObj [(''attempt'', JNum 1),
      (''duration_ms'', JNum 0), (''v'', JNum 1)], e_occurred_at = 14\<rparr>, \<lparr>e_run_id = 2, e_seq = 8,
      e_type = ''TASK_SCHEDULED'', e_task_name = Some ''b'', e_worker_id = None, e_payload = JObj [(''attempt'',
      JNum 0), (''depends_on'', JArr [JStr ''a'']), (''scheduled_at'', JTime 14), (''v'', JNum 1)], e_occurred_at =
      14\<rparr>], side_effects = [], artifacts = [], dead_letters = []\<rparr>"
  by code_simp

lemma demo_reachable:
  "reachable demo_env demo_registered" "reachable demo_env demo_created" "reachable demo_env demo_worker"
  "reachable demo_env demo_claimed" "reachable demo_env demo_started" "reachable demo_env demo_done"
  "reachable demo_env demo_cancelled"
proof -
  have copies: "copy_of_task demo_task demo_claimed" "copy_of_task demo_task demo_started"
    unfolding copy_of_task_def by code_simp+
  have reg: "demo_wfl \<in> set (workflows demo_registered)" "Definition demo_env (w_id demo_wfl) demo_registered = Inr demo_def"
    by code_simp+
  show 1: "reachable demo_env demo_registered"
    unfolding demo_registered_def by (intro reachable.init reachable.step [OF _ sys_step.register_workflow])
  show 2: "reachable demo_env demo_created"
    unfolding demo_created_def by (rule reachable.step [OF 1 sys_step.create_run [OF reg]])
  show 3: "reachable demo_env demo_worker"
    unfolding demo_worker_def by (rule reachable.step [OF 2 sys_step.register_worker])
  show 4: "reachable demo_env demo_claimed"
    unfolding demo_claimed_def by (rule reachable.step [OF 3 sys_step.claim])
  show 5: "reachable demo_env demo_started"
    unfolding demo_started_def by (rule reachable.step [OF 4 sys_step.start [OF copies(1)]])
  show 6: "reachable demo_env demo_done"
    unfolding demo_done_def by (rule reachable.step [OF 5 sys_step.complete [OF copies(2)]])
  show "reachable demo_env demo_cancelled"
    unfolding demo_cancelled_def by (rule reachable.step [OF 6 sys_step.cancel])
qed

lemma demo_finish: "sys_step demo_env demo_started demo_done"
proof -
  have "copy_of_task demo_task demo_started" unfolding copy_of_task_def by code_simp
  then show ?thesis unfolding demo_done_def by (rule sys_step.complete)
qed

end
