(* ===== verification/Spec2Isabelle.thy ===== *)
theory Spec2Isabelle
  imports Relab_Bench Relab_Demo
begin

text \<open>
  ReLab (\<^verbatim>\<open>src/\<close>) runs workflows of dependent steps on a pool of workers over PostgreSQL,
  journals every transition of a run, injects faults on request and replays the journal to
  say what happened.  This development models the program from its tables up to the
  processes that drive it.

  \<^bold>\<open>How the parts fit.\<close>  A workflow definition (\<^verbatim>\<open>internal/workflow\<close>) is parsed, validated and
  registered.  \<^verbatim>\<open>CreateRun\<close> makes a run with one task per step.  Workers claim runnable
  tasks under a lease, start them, call the handler (\<^verbatim>\<open>sdk\<close>) and complete them; a success
  unlocks the dependents, a final failure buries the task and everything behind it, and the
  run is closed when its tasks have ended.  The coordinator expires leases, declares workers
  lost and promotes due retries.  Every operation of \<^verbatim>\<open>internal/engine\<close> is one transaction
  that also appends to the run's journal (\<^verbatim>\<open>internal/event\<close>), which \<^verbatim>\<open>internal/replay\<close>
  reduces to the state of the run, \<^verbatim>\<open>internal/assert\<close> judges and \<^verbatim>\<open>internal/bench\<close> measures.

  \<^bold>\<open>Theories, bottom up.\<close>
  \<^item> \<^verbatim>\<open>Relab_Prelude\<close>: times, durations, identifiers, decimal printing, tables as lists of rows.
  \<^item> \<^verbatim>\<open>Relab_State\<close> (\<^verbatim>\<open>engine/state.go\<close>), \<^verbatim>\<open>Relab_Json\<close> and \<^verbatim>\<open>Relab_Event\<close>
    (\<^verbatim>\<open>event/type.go\<close>, \<^verbatim>\<open>event/payload.go\<close>): the two state machines and the payloads with their
    JSON form.
  \<^item> \<^verbatim>\<open>Relab_Workflow\<close> and \<^verbatim>\<open>Relab_Graph\<close> (\<^verbatim>\<open>workflow/\<close>): definitions, validation, the cycle
    search and the descendants of a step, with the graph theory that says what they compute.
  \<^item> \<^verbatim>\<open>Relab_Config\<close> (\<^verbatim>\<open>config/config.go\<close>) and \<^verbatim>\<open>Relab_Retry\<close> (\<^verbatim>\<open>retry/retry.go\<close>,
    \<^verbatim>\<open>engine/rng.go\<close>): settings, backoff, derived random draws.
  \<^item> \<^verbatim>\<open>Relab_Store\<close> (\<^verbatim>\<open>store/\<close> and its schema) and \<^verbatim>\<open>Relab_Journal\<close> (\<^verbatim>\<open>event/log.go\<close>): the
    database as a record of tables, transactions, statements with their constraints, the journal.
  \<^item> \<^verbatim>\<open>Relab_Engine\<close>, \<^verbatim>\<open>Relab_Outcome\<close>, \<^verbatim>\<open>Relab_Reaper\<close> (\<^verbatim>\<open>engine/*.go\<close>) and \<^verbatim>\<open>Relab_Idem\<close>
    (\<^verbatim>\<open>idem/idem.go\<close>): every operation on workflows, runs, tasks, leases, workers and effects.
  \<^item> \<^verbatim>\<open>Relab_Replay\<close>, \<^verbatim>\<open>Relab_Diff\<close> (\<^verbatim>\<open>replay/\<close>) and \<^verbatim>\<open>Relab_Assert\<close> (\<^verbatim>\<open>assert/\<close>,
    \<^verbatim>\<open>bench/\<close>): the reducer, the comparison of two runs, the verdict on a scenario.
  \<^item> \<^verbatim>\<open>Relab_Fault\<close> (\<^verbatim>\<open>fault/\<close>, \<^verbatim>\<open>faultengine/\<close>), \<^verbatim>\<open>Relab_Executor\<close> (\<^verbatim>\<open>engine/executor.go\<close>,
    \<^verbatim>\<open>sdk/\<close>) and \<^verbatim>\<open>Relab_Worker\<close> (\<^verbatim>\<open>worker/worker.go\<close>, \<^verbatim>\<open>engine/local.go\<close>,
    \<^verbatim>\<open>engine/coordinator.go\<close>): the processes.
  \<^item> \<^verbatim>\<open>Relab_Access\<close> and \<^verbatim>\<open>Relab_Server\<close> (\<^verbatim>\<open>api/\<close>): tokens, rate limits, the router with its
    middleware and handlers, readiness, listings read page by page.
  \<^item> \<^verbatim>\<open>Relab_Migrate\<close> (\<^verbatim>\<open>store/migrate.go\<close>, \<^verbatim>\<open>store/redact.go\<close>): schema migrations by any number
    of processes, redaction of connection errors.
  \<^item> \<^verbatim>\<open>Relab_Tables\<close>, \<^verbatim>\<open>Relab_System\<close>, \<^verbatim>\<open>Relab_History\<close>, \<^verbatim>\<open>Relab_Agree\<close>,
    \<^verbatim>\<open>Relab_Delivered\<close>: the engine as a transition system over the database, one transaction of
    any operation per step, with the invariants of the tables and of the journal, what a replay
    of the journal arrives at, and that the artifacts it tells of are those in their table.
  \<^item> \<^verbatim>\<open>Relab_Spec\<close>, \<^verbatim>\<open>Relab_Refine\<close>, \<^verbatim>\<open>Relab_Acts\<close>, \<^verbatim>\<open>Relab_Schedule\<close>, \<^verbatim>\<open>Relab_Progress\<close>,
    \<^verbatim>\<open>Relab_Attempts\<close>, \<^verbatim>\<open>Relab_Starts\<close>: the abstract scheduler of one run, the proof that every
    transaction moves each run by its steps, and what follows for single rows.
  \<^item> \<^verbatim>\<open>Relab_Command\<close>, \<^verbatim>\<open>Relab_Pool\<close>, \<^verbatim>\<open>Relab_Cli\<close>, \<^verbatim>\<open>Relab_Verdict\<close> (\<^verbatim>\<open>cli/\<close>,
    \<^verbatim>\<open>cmd/relab/main.go\<close>): connection settings and arguments, the supervised pool of worker
    processes, the commands with their exit status, and what their verdicts are worth while
    the rest of the system runs.
  \<^item> \<^verbatim>\<open>Relab_Examples\<close> (\<^verbatim>\<open>examples/handlers.go\<close>) and \<^verbatim>\<open>Relab_Bench\<close> (\<^verbatim>\<open>cli/demo.go\<close>,
    \<^verbatim>\<open>cli/bench.go\<close>, \<^verbatim>\<open>bench/bench.go\<close>): the shipped handlers as programs with what they deliver
    to each other, the demonstration, and the benchmark with the goroutines that drain its runs.
  \<^item> \<^verbatim>\<open>Relab_Demo\<close>: a run of a two-step workflow, computed; the theorems are applied to it.

  \<^bold>\<open>State and effects.\<close>  A transaction is a function from the database to an error or a
  result with the new database; \<open>InTx\<close> commits or rolls back.  Clock readings, fresh
  identifiers and the rows other transactions hold locked are arguments, so a theorem holds
  for any of them.  The processes carry the turns at which other processes act, what those
  do to the database, and what the clock and the context report.  A handler is a program
  over its task context.

  \<^bold>\<open>What is shown.\<close>  Of every reachable database: the engine refines the scheduler, no run is
  stalled, dependencies come first, statuses of runs and tasks agree, attempts are bounded,
  ended tasks and closed runs are immutable, journals are gapless and append-only, and a replay
  of a run's journal arrives at the status on its row.  Of the
  operations: what each does on every branch of interest, stale completions included.  Of the
  processes: an execution is a sequence of engine steps, a handler runs only after a
  committed start, the runner never reports a stall, a worker respects its concurrency.  Of
  the other components: exact characterisations of what validation, the reducer, the
  comparison and the verdict accept, round trips of payloads, bounds of
  delays, reproducible and journaled fault injection, access to the API by token only, pages
  that add up to the journal, migrations in step with their record.  Of the commands:
  \<^verbatim>\<open>replay --diff\<close> finds no divergence in a run that has ended, \<^verbatim>\<open>test\<close> reports what is on the
  rows and exits with zero only if everything passed, \<^verbatim>\<open>run\<close> exits with zero for a success and,
  under \<^verbatim>\<open>--json\<close>, for a failure too, a stopped pool leaves no process, and a point of \<^verbatim>\<open>bench\<close>
  counts each of its runs once, ended.  Of handlers: the result of an effect is the same on every
  attempt.

  \<^bold>\<open>Interfaces.\<close>  \<open>engine_invariant\<close> (\<^verbatim>\<open>Relab_System\<close>) is what it takes for a property to hold
  of every reachable database; it is interpreted for the journal, the tables, the schedule,
  the attempts, the starts, the story a journal tells and the artifacts delivered.
  \<open>statement_invariant\<close> (\<^verbatim>\<open>Relab_History\<close>) is what every statement keeps and so every step,
  interpreted for the journal, the registered workflows and the effects, which only grow.  \<open>ledger\<close> (\<^verbatim>\<open>Relab_Idem\<close>) is the contract of the effect ledger,
  interpreted on its table.  \<open>recording\<close> (\<^verbatim>\<open>Relab_Fault\<close>) is what a trigger point needs of
  its recorder, interpreted for the steps of the system and for the invocations of handlers.
  \<open>pager\<close> (\<^verbatim>\<open>Relab_Server\<close>) is a listing with pages, interpreted for events and tasks.

  \<^bold>\<open>Bounds.\<close>  The cycle search recurses on fuel, one unit per step of the definition, and is
  shown to end within it.  The loops of the runner, of the coordinator and of
  \<^verbatim>\<open>waitForRun\<close>, which end only when the outside says so, take fuel and nothing is claimed of a
  loop that spends it; the goroutines of a benchmark make a bounded number of moves; \<^verbatim>\<open>waitForRun\<close> is shown to return once its context has ended.

  \<^bold>\<open>Parameters.\<close>  YAML, SHA-256, the text of UUIDs, float64 rounding and \<^verbatim>\<open>math.Pow\<close>,
  \<^verbatim>\<open>time.ParseDuration\<close>, \<^verbatim>\<open>strconv.ParseFloat\<close>, the text of floats and of JSON, the files, the database driver and the net
  package are arguments; hypotheses name what is used of
  them.

  \<^bold>\<open>Not modelled.\<close>  Telemetry, whose records nothing reads; flag parsing and the
  drain of HTTP requests at shutdown; the scaffolding of the tests; the
  matching of paths by the router and the recovery of handler panics; CSV quoting and text rendering,
  and the texts of error messages that no code looks at.
\<close>

section \<open>The scheduler\<close>

text \<open>
  (C1) The engine implements the scheduler's machine: every transaction of any operation,
  from any reachable database, moves each run by steps of the machine of the run's own
  definition, or creates it in the machine's initial state.
\<close>

theorem engine_refines_scheduler:
  assumes "reachable env db" and "sys_step env db db'" and "heads db' rid = Some (w, s')"
  shows "\<exists>d. Definition env w db' = Inr d \<and> valid_definition d
    \<and> ((\<exists>s. heads db rid = Some (w, s) \<and> (spec_step d)\<^sup>*\<^sup>* (s, view_of rid db) (s', view_of rid db'))
      \<or> (heads db rid = None \<and> (s', view_of rid db') = spec_init d))"
  using sys_step_follows [OF assms(1,2)] assms(3) unfolding follows_def by blast

theorem engine_refines_scheduler_witness:
  "\<exists>d. Definition demo_env 1 demo_done = Inr d \<and> valid_definition d
    \<and> ((\<exists>s. heads demo_started 2 = Some (1, s) \<and> (spec_step d)\<^sup>*\<^sup>* (s, view_of 2 demo_started) (RunRunning, view_of 2 demo_done))
      \<or> (heads demo_started 2 = None \<and> (RunRunning, view_of 2 demo_done) = spec_init d))"
proof -
  have "heads demo_done 2 = Some (1, RunRunning)" by (simp add: demo_done_eq heads_def run_by_id_def)
  from engine_refines_scheduler [OF demo_reachable(5) demo_finish this] show ?thesis .
qed

text \<open>
  (C2) No run is ever stalled in the sense of \<^verbatim>\<open>Progress.Stalled\<close>: in no reachable database has
  any run unfinished tasks of which none is runnable, waiting for a retry or held by a worker.
\<close>

theorem never_stalled:
  assumes "reachable env db"
  shows "\<not> Stalled (RunProgress rid now db)"
  using assms by (rule progress_never_stalls)

theorem never_stalled_witness: "\<not> Stalled (RunProgress 2 20 demo_done)"
  using never_stalled [OF demo_reachable(6)] .

text \<open>
  (C3) A task leaves PENDING for anything but death only when every step it depends on has
  succeeded.
\<close>

theorem dependencies_first:
  assumes "reachable env db" and "t \<in> set (tasks db)" and "t_status t \<noteq> TaskPending" and "t_status t \<noteq> TaskDead"
    and "run_by_id (t_run_id t) db = Some r" and "Definition env (r_workflow_id r) db = Inr d"
    and "Step d (t_name t) = Some st" and "dep \<in> set (st_DependsOn st)"
  shows "\<exists>q\<in>set (tasks db). t_run_id q = t_run_id t \<and> t_name q = dep \<and> t_status q = TaskSucceeded"
  using assms by (rule dependency_done)

theorem dependencies_first_witness:
  "\<exists>q\<in>set (tasks demo_done). t_run_id q = 2 \<and> t_name q = ''a'' \<and> t_status q = TaskSucceeded"
proof -
  let ?t = "tasks demo_done ! 1" and ?r = "runs demo_done ! 0"
  have "?t \<in> set (tasks demo_done)" "t_status ?t \<noteq> TaskPending" "t_status ?t \<noteq> TaskDead" "t_run_id ?t = 2"
    by (simp_all add: demo_done_eq)
  moreover have "run_by_id (t_run_id ?t) demo_done = Some ?r" by (simp add: demo_done_eq run_by_id_def)
  moreover have "Definition demo_env (r_workflow_id ?r) demo_done = Inr demo_def" by code_simp
  moreover have "Step demo_def (t_name ?t) = Some (demo_steps ! 1)" "''a'' \<in> set (st_DependsOn (demo_steps ! 1))"
    by code_simp+
  ultimately show ?thesis using dependencies_first [OF demo_reachable(6), of ?t ?r demo_def "demo_steps ! 1" "''a''"] by simp
qed

text \<open>
  (C4) A run's status agrees with its tasks: of a SUCCEEDED run every task succeeded, of a
  FAILED run every task ended and one is dead, and an open run has a task that can move.
\<close>

theorem run_status_agrees:
  assumes "reachable env db" and "run_by_id rid db = Some r"
  shows "(r_status r = RunSucceeded \<longrightarrow> (\<forall>t\<in>set (tasks db). t_run_id t = rid \<longrightarrow> t_status t = TaskSucceeded))
    \<and> (r_status r = RunFailed \<longrightarrow> (\<forall>t\<in>set (tasks db). t_run_id t = rid \<longrightarrow> TaskStatus_Terminal (t_status t))
         \<and> (\<exists>t\<in>set (tasks db). t_run_id t = rid \<and> t_status t = TaskDead))
    \<and> (\<not> RunStatus_Terminal (r_status r) \<longrightarrow> (\<exists>t\<in>set (tasks db). t_run_id t = rid \<and> active (t_status t)))"
  using run_outcome [OF assms] open_run_moves [OF assms] by blast

theorem run_status_agrees_witness: "\<exists>t\<in>set (tasks demo_done). t_run_id t = 2 \<and> active (t_status t)"
proof -
  let ?r = "runs demo_done ! 0"
  have "run_by_id 2 demo_done = Some ?r" "\<not> RunStatus_Terminal (r_status ?r)" by (simp_all add: demo_done_eq run_by_id_def)
  with run_status_agrees [OF demo_reachable(6), of 2 ?r] show ?thesis by blast
qed

text \<open>
  (C11) Every run has exactly one task for each step of its definition, whatever has happened
  to it since it was created.
\<close>

theorem tasks_are_steps:
  assumes "reachable env db" and "run_by_id rid db = Some r" and "Definition env (r_workflow_id r) db = Inr d"
  shows "set (map t_name (run_tasks rid db)) = set (step_names d) \<and> distinct (map t_name (run_tasks rid db))"
  using run_has_every_step [OF assms] by blast

theorem tasks_are_steps_witness:
  "set (map t_name (run_tasks 2 demo_done)) = set (step_names demo_def) \<and> distinct (map t_name (run_tasks 2 demo_done))"
proof -
  let ?r = "runs demo_done ! 0"
  have "run_by_id 2 demo_done = Some ?r" by (simp add: demo_done_eq run_by_id_def)
  moreover have "Definition demo_env (r_workflow_id ?r) demo_done = Inr demo_def" by code_simp
  ultimately show ?thesis by (rule tasks_are_steps [OF demo_reachable(6)])
qed



section \<open>Attempts and leases\<close>

text \<open>
  (C6) A task's attempt counter and the number of attempts it has recorded stay within the
  limit of its retry policy, through failures, lease expiries and retries in any order.
\<close>

theorem attempts_bounded:
  assumes "reachable env db" and "t \<in> set (tasks db)"
  shows "t_attempt t \<le> t_max_attempts t
    \<and> int (length (filter (\<lambda>a. ta_task_id a = t_id t) (task_attempts db))) \<le> t_max_attempts t"
  using attempts_within_limit [OF assms] by blast

theorem attempts_bounded_witness:
  "t_attempt (tasks demo_done ! 0) \<le> 3 \<and> int (length (filter (\<lambda>a. ta_task_id a = 3) (task_attempts demo_done))) \<le> 3"
  using attempts_bounded [OF demo_reachable(6), of "tasks demo_done ! 0"] by (simp add: demo_done_eq)

text \<open>
  (C7) \<^verbatim>\<open>StartTask\<close> never has to refuse a claim because its attempt is already being executed:
  the lease and the attempt counter exclude it before the unique constraint would.
\<close>

theorem start_not_concurrent:
  assumes "reachable env db" and "copy_of_task task db"
  shows "fst (StartTask w task handler now db) \<noteq> Inl ErrConcurrentAttempt"
  using assms by (rule start_never_concurrent)

theorem start_not_concurrent_witness:
  "fst (StartTask 9 demo_task ''h'' 13 demo_claimed) \<noteq> Inl ErrConcurrentAttempt"
proof -
  have "copy_of_task demo_task demo_claimed" unfolding copy_of_task_def by code_simp
  with start_not_concurrent [OF demo_reachable(4)] show ?thesis .
qed

text \<open>
  (C8) A worker that no longer holds the attempt it was given cannot complete it: the call
  fails with \<^verbatim>\<open>ErrLeaseLost\<close> and changes nothing.
\<close>

theorem stale_completion:
  assumes "reachable env db" and "copy_of_task task db"
    and "\<And>t. t \<in> set (tasks db) \<Longrightarrow> t_id t = t_id task \<Longrightarrow> t_worker_id t = Some w \<Longrightarrow> t_attempt t = t_attempt task
      \<Longrightarrow> \<not> Holds (t_status t)"
  shows "CompleteTask env w task out now db = (Inl ErrLeaseLost, db)"
  using assms by (rule stale_completion_refused)

theorem stale_completion_witness: "CompleteTask demo_env 9 demo_task demo_out 20 demo_done = (Inl ErrLeaseLost, demo_done)"
proof (rule stale_completion [OF demo_reachable(6)])
  show "copy_of_task demo_task demo_done" unfolding copy_of_task_def by code_simp
qed (auto simp: demo_done_eq Holds_def demo_task_eq)

text \<open>
  (C10) A task that has ended is never written again: its row is the same after any step.
\<close>

theorem ended_task_immutable:
  assumes "reachable env db" and "sys_step env db db'" and "t \<in> set (tasks db)" and "TaskStatus_Terminal (t_status t)"
  shows "t \<in> set (tasks db')"
  using assms by (rule ended_task_frozen)

theorem ended_task_immutable_witness: "tasks demo_done ! 0 \<in> set (tasks demo_cancelled)"
proof (rule ended_task_immutable [OF demo_reachable(6)])
  show "sys_step demo_env demo_done demo_cancelled" unfolding demo_cancelled_def by (rule sys_step.cancel)
qed (simp_all add: demo_done_eq)

section \<open>The journal\<close>

text \<open>
  (C12) The journal of every run is gapless: reading it back succeeds and returns the events
  numbered from one up to the counter on the run's row.
\<close>

theorem journal_gapless:
  assumes "reachable env db" and "run_by_id rid db = Some r"
  shows "Read rid db = Inr (map scan_event (run_events rid db))
    \<and> map e_seq (run_events rid db) = map int [1..<Suc (nat (r_event_seq r))]"
proof -
  have ok: "journal_ok db" by (rule journal.holds [OF assms(1)])
  have "r \<in> set (runs db)" "r_id r = rid" using run_by_idD [OF assms(2)] by simp_all
  then have "numbered (run_events rid db)" "r_event_seq r = int (length (run_events rid db))"
    using ok by (auto simp: journal_ok_def)
  then show ?thesis using Read_journal [OF ok assms(2)] by (simp add: numbered_def del: upt_Suc)
qed

theorem journal_gapless_witness: "map e_seq (run_events 2 demo_done) = map int [1..<9]"
proof -
  have "run_by_id 2 demo_done = Some (runs demo_done ! 0)" by (simp add: demo_done_eq run_by_id_def)
  from journal_gapless [OF demo_reachable(6) this] show ?thesis
    by (simp only: demo_done_eq) (simp add: numeral_eq_Suc del: upt_Suc)
qed

text \<open>
  (C13) A closed run is immutable: once it has a completion time, no step changes its row or
  adds to its journal.
\<close>

theorem closed_run_immutable:
  assumes "reachable env db" and "sys_step env db db'" and "run_by_id rid db = Some r" and "r_completed_at r \<noteq> None"
  shows "run_by_id rid db' = Some r \<and> run_events rid db' = run_events rid db"
  using assms by (rule closed_run_frozen)

theorem closed_run_immutable_witness:
  "run_by_id 2 (snd (CompleteTask demo_env 9 demo_task demo_out 20 demo_cancelled)) = run_by_id 2 demo_cancelled"
proof -
  have copy: "copy_of_task demo_task demo_cancelled" unfolding copy_of_task_def by code_simp
  have "map_option r_completed_at (run_by_id 2 demo_cancelled) = Some (Some 15)" by code_simp
  then obtain r where r: "run_by_id 2 demo_cancelled = Some r" "r_completed_at r \<noteq> None" by auto
  from closed_run_immutable [OF demo_reachable(7) sys_step.complete [OF copy] r] r(1) show ?thesis by simp
qed

text \<open>
  (C14) The journal tells the truth about its run: in every reachable database, as long as the
  payloads can be decoded, loading a run from its journal succeeds, consumes exactly the
  \<open>r_event_seq\<close> events the row counts, and arrives at the status the row has.
\<close>

theorem replay_agrees:
  assumes "reachable env db" and "run_by_id rid db = Some run"
    and "list_all payload_readable (map scan_event (run_events rid db))"
  shows "\<exists>s. Load rid db = Inr s \<and> rs_Status s = RunStatus_String (r_status run) \<and> rs_EventCount s = r_event_seq run"
  by (rule replayed_status [OF assms]) blast

theorem replay_agrees_witness:
  "\<exists>s. Load 2 demo_done = Inr s \<and> rs_Status s = ''RUNNING'' \<and> rs_EventCount s = 8"
proof -
  let ?r = "runs demo_done ! 0"
  have "run_by_id 2 demo_done = Some ?r" by (simp add: demo_done_eq run_by_id_def)
  moreover have "list_all payload_readable (map scan_event (run_events 2 demo_done))" by code_simp
  ultimately show ?thesis using replay_agrees [OF demo_reachable(6), of 2 ?r] by (simp add: demo_done_eq)
qed

text \<open>
  (C16) Following the pages of \<^verbatim>\<open>/runs/{runID}/events\<close>, with whatever text as page size, gives
  the journal: every event once and in order, in at most one request more than the journal has
  events.
\<close>

theorem events_paged:
  assumes "reachable env db" and "run_by_id rid db = Some run" and "r_event_seq run < 2 ^ 63"
    and "parse_uuid raw = Some rid" and "0 < MaxLimit (sv_config s)"
  shows "follow (event_page parse_uuid s raw lmt db) ev_Seq (Suc (length (run_events rid db))) 0
    = Some (map scan_event (run_events rid db))"
  using assms by (intro journal_followed [where env = env]) (auto simp: event_listing_ok_def)

theorem events_paged_witness:
  "follow (event_page (\<lambda>_. Some 2) (NewServer demo_exact (\<lambda>s. s) ''v1'' demo_api 0) ''run'' ''3'' demo_done) ev_Seq 9 0
    = Some (map scan_event (run_events 2 demo_done))"
proof -
  have "0 < MaxLimit (sv_config (NewServer demo_exact (\<lambda>s. s) ''v1'' demo_api 0))" by code_simp
  moreover have "run_by_id 2 demo_done = Some (runs demo_done ! 0)" "r_event_seq (runs demo_done ! 0) < 2 ^ 63"
    by (simp_all add: demo_done_eq run_by_id_def)
  moreover have "length (run_events 2 demo_done) = 8" by (simp add: demo_done_eq run_events_def)
  ultimately show ?thesis
    using events_paged [OF demo_reachable(6), of 2 "runs demo_done ! 0" "\<lambda>_. Some 2" "''run''"] by simp
qed

section \<open>Processes\<close>

text \<open>
  The worked example's processes: an executor without faults whose handler returns nothing,
  a world in which nobody else acts, and a pool worker of two slots.
\<close>

definition demo_handler :: handler where
  "demo_handler n tc = \<lparr>iv_program = Return (Inr ANil), iv_runCtx = None, iv_ctx = None, iv_duration = 0\<rparr>"

definition demo_executor :: executor where
  "demo_executor =
     \<lparr>ex_env = demo_env, ex_registry = [(''h'', Some demo_handler)], ex_worker = 9, ex_faults = None,
      ex_fault_text = (\<lambda>_. []), ex_source_text = (\<lambda>_. []), ex_do_error = (\<lambda>_. Canceled),
      ex_duration_text = (\<lambda>_. []), ex_sha256 = (\<lambda>_. [])\<rparr>"

definition demo_world :: "db \<Rightarrow> world" where
  "demo_world db =
     \<lparr>w_db = db, w_source = NewSource,
      w_turn = (\<lambda>n. \<lparr>tn_others = id, tn_now = 13 + int n, tn_host = demo_host, tn_ctx = None, tn_locked = (\<lambda>_. False)\<rparr>),
      w_at = 0, w_invoked = []\<rparr>"

definition demo_claim :: claimed_task where
  "demo_claim = \<lparr>ct_Task = demo_task, ct_RunID = 2, ct_WorkflowName = ''w'', ct_Handler = ''h'', ct_Inputs = [],
     ct_Timeout = second, ct_LeaseExpiresAt = 30000000012\<rparr>"

lemma demo_others: "others_ok env (w_turn (demo_world db))"
  by (simp add: others_ok_def demo_world_def)





text \<open>
  (C26) The in-process runner never gives a run up as stalled, and what it returns as finished
  is: the error it has for a run that cannot progress is never reported.
\<close>

theorem runner_never_stalls:
  assumes "reachable (ex_env x) (w_db w)" and "others_ok (ex_env x) (w_turn w)"
    and "LocalRunner_Run fuel x rid w = (Some r, w')"
  shows "r \<noteq> Inl StalledRun \<and> (\<forall>run. r = Inr run \<longrightarrow> RunStatus_Terminal (run_Status run))"
  using LocalRunner_steps [OF assms(3,2,1)] by simp

theorem runner_never_stalls_witness:
  "\<exists>run. fst (LocalRunner_Run 5 demo_executor 2 (demo_world demo_worker)) = Some (Inr run)
     \<and> RunStatus_Terminal (run_Status run)"
proof -
  let ?r = "LocalRunner_Run 5 demo_executor 2 (demo_world demo_worker)"
  have "(case fst ?r of Some (Inr run) \<Rightarrow> run_Status run = RunSucceeded | _ \<Rightarrow> False)" by code_simp
  then obtain run where run: "fst ?r = Some (Inr run)" by (auto split: option.splits sum.splits)
  then have l: "LocalRunner_Run 5 demo_executor 2 (demo_world demo_worker) = (Some (Inr run), snd ?r)" by (simp add: prod_eq_iff)
  have "reachable (ex_env demo_executor) (w_db (demo_world demo_worker))"
    using demo_reachable(3) by (simp add: demo_executor_def demo_world_def)
  from runner_never_stalls [OF this demo_others l] run show ?thesis by blast
qed

text \<open>
  (C27) A worker never has more tasks in flight than its concurrency, and the load it reports
  never exceeds that, however its goroutines interleave with each other and with the rest of
  the system.
\<close>

theorem concurrency_respected:
  assumes "reachable env db0" and "NewWorker concurrency wid hostname version now db0 = (Inr pw, db)"
    and "(worker_step env)\<^sup>*\<^sup>* (pw, db) (pw', db')"
  shows "int (length (pw_running pw')) \<le> pw_concurrency pw' \<and> heldCount pw' \<le> int (length (pw_running pw'))
    \<and> pw_concurrency pw' = (if concurrency \<le> 0 then 4 else concurrency)"
  using assms by (rule worker_capacity)

definition demo_pool :: "pool_worker \<times> db" where
  "demo_pool =
     (\<lparr>pw_id = 9, pw_concurrency = 2, pw_slots = 0, pw_running = [], pw_held = [], pw_cancelled = [],
       pw_next = 0, pw_beating = True\<rparr>, snd (NewWorker 2 9 ''host'' [] 11 demo_created))"

definition demo_pool_claimed :: "pool_worker \<times> db" where
  "demo_pool_claimed = claim_round demo_env (\<lambda>_. False) 12 (fst demo_pool) (snd demo_pool)"

theorem concurrency_respected_witness:
  "int (length (pw_running (fst demo_pool_claimed))) \<le> 2 \<and> pw_running (fst demo_pool_claimed) \<noteq> []"
proof -
  have n: "NewWorker 2 9 ''host'' [] 11 demo_created = (Inr (fst demo_pool), snd demo_pool)" by code_simp
  have "worker_step demo_env (fst demo_pool, snd demo_pool) (fst demo_pool_claimed, snd demo_pool_claimed)"
    using worker_step.claims [of demo_env "fst demo_pool" "snd demo_pool" "\<lambda>_. False" 12]
    unfolding demo_pool_claimed_def by simp
  then have "(worker_step demo_env)\<^sup>*\<^sup>* (fst demo_pool, snd demo_pool) (fst demo_pool_claimed, snd demo_pool_claimed)" by blast
  from concurrency_respected [OF demo_reachable(2) n this] show ?thesis by (intro conjI) (simp, code_simp)
qed


text \<open>
  The situation arises: the lease of the first attempt runs out, the reaper requeues the task,
  and the same worker claims it for a second attempt.
\<close>

definition demo_pool_expired :: db where
  "demo_pool_expired = snd (expireLeases demo_env (\<lambda>_. False) 40000000000 (snd demo_pool_claimed))"

definition demo_pool_twice :: pool_worker where
  "demo_pool_twice = begin_execution 1
     (fst (claim_round demo_env (\<lambda>_. False) 41000000000 (begin_execution 0 (fst demo_pool_claimed)) demo_pool_expired))"


section \<open>Commands\<close>

text \<open>
  The worked example's surroundings: a database that answers, a scenario without faults that
  expects the run to be cancelled, and a world in which an operator cancels it before the
  fourth query.
\<close>

definition demo_plain :: scenario where
  "demo_plain = \<lparr>sc_Name = ''plain'', sc_Seed = 7, sc_Workflow = [], sc_Faults = [],
     sc_Assert = \<lparr>as_RunStatus = ''CANCELLED'', as_LostTasks = None, as_DuplicateEffects = Some 0, as_MaxRecoveryTimeMS = None,
       as_MaxRetriesPerTask = None, as_MinRetriesPerTask = None, as_FaultsInjected = Some 0\<rparr>, sc_Hash = []\<rparr>"

definition demo_cli :: "string list host_env" where
  "demo_cli =
     \<lparr>he_getenv = (\<lambda>_. []),
      he_driver = \<lparr>pd_parse = (\<lambda>_. Inr 4), pd_create = (\<lambda>_ _. None), pd_ping = (\<lambda>_. None), pd_url_password = (\<lambda>_. None)\<rparr>,
      he_dsn = ''db'', he_parseDuration = (\<lambda>_. None), he_uuid = (\<lambda>_. Some 2), he_readFile = (\<lambda>_. Inr ''text''),
      he_stat = (\<lambda>_. False), he_scenario_decode = (\<lambda>_. Inr demo_plain), he_scenario_marshal = (\<lambda>_. Inr []),
      he_migrations = demo_mig (\<lambda>_. False), he_executor = demo_executor, he_self = Some ''relab'', he_spawn = (\<lambda>_. None)\<rparr>"

definition demo_fresh :: "nat \<Rightarrow> fresh" where
  "demo_fresh i = \<lparr>fr_bits = 0, fr_run = 2, fr_task = (\<lambda>j. 3 + j), fr_worker = 9\<rparr>"

definition demo_stopped_world :: world where
  "demo_stopped_world = (demo_world demo_registered)\<lparr>w_turn := (\<lambda>n. (w_turn (demo_world demo_registered) n)
     \<lparr>tn_others := (\<lambda>db. if n = 3 then snd (CancelRun 2 ''stop'' 15 db) else db)\<rparr>)\<rparr>"

lemma demo_stopped_others: "others_ok env (w_turn demo_stopped_world)"
  by (auto simp: others_ok_def demo_stopped_world_def intro: sys_step.cancel)

lemma demo_cli_opens: "open_db demo_cli = None"
  by code_simp

text \<open>
  (C15) \<^verbatim>\<open>relab replay --diff\<close> on a run that has ended reports a match and exits with status zero,
  whatever other processes do between its three reads: the state it prints has the status and
  the event count of the run's row, every artifact hash in the journal is the one in the
  artifacts table, and reducing the journal again gives the same state.
\<close>

theorem replay_diff_matches:
  assumes "reachable env (w_db w)" and "others_ok env (w_turn w)"
    and "run_by_id rid (w_db w) = Some run" and "r_completed_at run \<noteq> None"
    and "list_all payload_readable (map scan_event (run_events rid (w_db w)))"
    and "he_uuid h arg = Some rid" and "open_db h = None"
  shows "\<exists>s w'. replayCmd h True arg w = ((Some (Compared s []), None), w') \<and> fst (main None) = 0
    \<and> rs_Status s = RunStatus_String (r_status run) \<and> rs_EventCount s = r_event_seq run"
  using replay_closed [of env w rid run "run_events rid (w_db w)" h arg] assms
  by (simp add: sound_world_def closed_as_def main_def)

theorem replay_diff_matches_witness:
  "\<exists>s w'. replayCmd demo_cli True ''run'' (demo_world demo_cancelled) = ((Some (Compared s []), None), w') \<and> rs_Status s = ''CANCELLED''"
proof -
  let ?w = "demo_world demo_cancelled"
  have "map_option (\<lambda>r. (r_status r, r_completed_at r)) (run_by_id 2 demo_cancelled) = Some (RunCancelled, Some 15)" by code_simp
  then obtain run where run: "run_by_id 2 demo_cancelled = Some run" "r_status run = RunCancelled" "r_completed_at run \<noteq> None" by auto
  have "list_all payload_readable (map scan_event (run_events 2 demo_cancelled))" by code_simp
  moreover have "reachable demo_env demo_cancelled"
    unfolding demo_cancelled_def by (rule reachable.step [OF demo_reachable(6) sys_step.cancel])
  moreover have "w_db ?w = demo_cancelled" "he_uuid demo_cli ''run'' = Some 2" by (simp_all add: demo_world_def demo_cli_def)
  ultimately show ?thesis using replay_diff_matches [OF _ demo_others, of demo_env demo_cancelled 2 run demo_cli "''run''"] run demo_cli_opens
    by (simp, blast)
qed


definition demo_test :: test_flags where
  "demo_test = \<lparr>tf_scenario = ''plain.yaml'', tf_seed = 0, tf_repeat = 1, tf_allowRandom = False, tf_workers = 1\<rparr>"



definition demo_failing :: handler where
  "demo_failing n tc = \<lparr>iv_program = Return (Inl (PermanentError (Plain ''boom''))), iv_runCtx = None, iv_ctx = None, iv_duration = 0\<rparr>"

definition demo_cli_failing :: "string list host_env" where
  "demo_cli_failing = demo_cli\<lparr>he_executor := demo_executor\<lparr>ex_registry := [(''h'', Some demo_failing)]\<rparr>\<rparr>"

definition demo_run :: run_flags where
  "demo_run = \<lparr>rf_scenario = [], rf_seed = 7, rf_correlation = [], rf_detach = False, rf_json = True\<rparr>"


section \<open>Two ways a command misjudges\<close>

text \<open>
  \<^verbatim>\<open>replay --diff\<close> reads the state, the artifacts and the state again at three moments.  On a run
  that moves in between it reports a divergence where there is none.
\<close>

definition demo_moving_world :: world where
  "demo_moving_world = (demo_world demo_started)\<lparr>w_turn := (\<lambda>n. (w_turn (demo_world demo_started) n)
     \<lparr>tn_others := (\<lambda>db. if n = 2 then snd (CompleteTask demo_env 9 demo_task demo_out 14 db) else db)\<rparr>)\<rparr>"

lemma replay_diff_races:
  "snd (fst (replayCmd demo_cli True ''run'' demo_moving_world)) = Some AlreadyReported"
  by code_simp

text \<open>
  An attempt whose worker dies before it performs an effect is counted as a duplicate once a
  later attempt has performed it: two attempts, one effect recorded, none suppressed.
\<close>

definition demo_second :: db where
  "demo_second = snd (claim demo_env (\<lambda>_. False) 41000000000 9 None 1
     (snd (expireLeases demo_env (\<lambda>_. False) 40000000000 demo_started)))"

definition demo_second_task :: task where
  "demo_second_task = (case find (\<lambda>t. t_id t = 3) (tasks demo_second) of Some t \<Rightarrow> t | None \<Rightarrow> demo_task)"

definition demo_effected :: db where
  "demo_effected = snd (InTx (record_effect ''2:a:charge'' 2 ''a'' (JNum 1))
     (snd (StartTask 9 demo_second_task ''h'' 41000000001 demo_second)))"

lemma lost_attempt_counts_as_duplicate:
  "effectAttempts 2 demo_effected = 2 \<and> CountForRun 2 demo_effected = 1
   \<and> fst (countDuplicateEffects 2 (map scan_event (run_events 2 demo_effected)) (demo_world demo_effected)) = 1"
  by (intro conjI) code_simp+

section \<open>Effects across attempts\<close>


definition demo_context :: task_context where
  "demo_context = \<lparr>tc_RunID = 2, tc_TaskName = ''a'', tc_Attempt = 1, tc_WorkerID = 9, tc_inputs = []\<rparr>"


section \<open>The benchmark\<close>

text \<open>
  (C34) A point of the benchmark that is reported counts every run it created, once, and every one
  of them had ended: the runners' pool leaves no run behind and drives none twice, however its
  goroutines and the rest of the system interleave, and the successes it reports are the runs
  whose rows are SUCCEEDED.
\<close>

theorem bench_point_true:
  assumes "measures ar x f wfl def params benv reg w (Inr pt) w'" and "0 < bp_Workers params" and "0 \<le> bp_Runs params"
    and "reachable (ex_env x) (w_db w)" and "others_ok (ex_env x) (w_turn w)"
    and "wfl \<in> set (workflows (w_db w))" and "Definition (ex_env x) (w_id wfl) (w_db w) = Inr def"
  shows "\<exists>rids. distinct rids \<and> int (length rids) = bp_Runs params
    \<and> (\<forall>rid\<in>set rids. \<exists>run. run_by_id rid (w_db w') = Some run \<and> r_completed_at run \<noteq> None)
    \<and> br_RunsCompleted (pt_Figures pt) = bp_Runs params
    \<and> br_RunsSucceeded (pt_Figures pt) = int (length (filter (succeeded_run (w_db w')) rids))
    \<and> br_RunsFailed (pt_Figures pt) = bp_Runs params - br_RunsSucceeded (pt_Figures pt)"
proof -
  have "sound_world (ex_env x) w" "known_workflow (ex_env x) wfl def (w_db w)"
    using assms(4-7) by (simp_all add: sound_world_def known_workflow_def)
  from measures_true [OF assms(1) this assms(2)] obtain rids where r: "length rids = nat (bp_Runs params)" "distinct rids"
    "\<forall>rid\<in>set rids. \<exists>run es. closed_as rid run es (w_db w')" "br_RunsCompleted (pt_Figures pt) = int (length rids)"
    "br_RunsSucceeded (pt_Figures pt) = int (length (filter (succeeded_run (w_db w')) rids))"
    "br_RunsFailed (pt_Figures pt) = int (length (filter (\<lambda>rid. \<not> succeeded_run (w_db w') rid) rids))" by blast
  have "int (length (filter (succeeded_run (w_db w')) rids)) + int (length (filter (\<lambda>rid. \<not> succeeded_run (w_db w') rid) rids))
      = int (length rids)"
    by (simp add: sum_length_filter_compl flip: of_nat_add)
  with r assms(3) show ?thesis by (auto intro!: exI [of _ rids] simp: closed_as_def)
qed

text \<open>The worked example as a benchmark: one runner, one run, which an operator cancels while it is driven.\<close>

definition demo_params :: bench_params where
  "demo_params = \<lparr>bp_Workers = 1, bp_Runs = 1, bp_FaultRate = Finite 0, bp_Workflow = ''w''\<rparr>"

definition demo_machine :: bench_environment where
  "demo_machine = DescribeEnvironment (''go1'', ''linux'', ''amd64'', 4) None ''v1'' 0"

definition demo_queued :: world where
  "demo_queued = snd (create_runs demo_executor demo_fresh demo_wfl demo_def 0 1 (demo_world demo_registered))"

definition demo_drained :: db where
  "demo_drained = snd (CancelRun 2 ''stop'' 15 (w_db demo_queued))"

lemma demo_pool_drains:
  "\<exists>p. (bench_step demo_env)\<^sup>*\<^sup>* (new_bench 1 [2], w_db demo_queued) (p, demo_drained) \<and> all_left p \<and> bo_errs p = []"
proof -
  let ?p0 = "new_bench 1 [2]"
  let ?p1 = "runner_at 0 Waiting ?p0"
  let ?p2 = "runner_at 0 (Driving 2) (?p1\<lparr>bo_queue := []\<rparr>)"
  let ?p3 = "runner_at 0 Waiting (?p2\<lparr>bo_finished := bo_finished ?p2 @ [2]\<rparr>)"
  let ?p4 = "runner_at 0 Gone ?p3" and ?db = "w_db demo_queued"
  have "map_sum id run_Status (RunByID 2 demo_drained) = Inr RunCancelled" by code_simp
  then obtain run where run: "RunByID 2 demo_drained = Inr run" "RunStatus_Terminal (run_Status run)"
    by (cases "RunByID 2 demo_drained") auto
  have "runner_step ?db ?p0 ?p1" by (rule runner_step.joins) (simp add: new_bench_def)
  moreover have "runner_step ?db ?p1 ?p2" by (rule runner_step.takes) (simp_all add: new_bench_def runner_at_def)
  moreover have "sys_step demo_env ?db demo_drained" unfolding demo_drained_def by (rule sys_step.cancel)
  moreover have "runner_step demo_drained ?p2 ?p3" by (rule runner_step.returns [OF _ run]) (simp add: runner_at_def)
  moreover have "runner_step demo_drained ?p3 ?p4" by (rule runner_step.drained) (simp_all add: new_bench_def runner_at_def)
  ultimately have "(bench_step demo_env)\<^sup>*\<^sup>* (?p0, ?db) (?p4, demo_drained)"
    by (meson bench_step.intros converse_rtranclp_into_rtranclp rtranclp.rtrancl_refl)
  then show ?thesis by (intro exI [of _ ?p4]) (simp add: all_left_def new_bench_def runner_at_def)
qed

theorem bench_point_true_witness:
  "\<exists>pt w'. measures demo_exact demo_executor demo_fresh demo_wfl demo_def demo_params demo_machine (Inr []) (demo_world demo_registered) (Inr pt) w'
     \<and> br_RunsCompleted (pt_Figures pt) = 1 \<and> br_RunsFailed (pt_Figures pt) = 1 - br_RunsSucceeded (pt_Figures pt)"
proof -
  let ?w = "demo_world demo_registered" and ?w2 = "demo_queued\<lparr>w_db := demo_drained, w_at := w_at demo_queued + 0\<rparr>"
  have "fst (create_runs demo_executor demo_fresh demo_wfl demo_def 0 1 ?w) = Inr [2]" by code_simp
  then have c: "create_runs demo_executor demo_fresh demo_wfl demo_def 0 (nat (bp_Runs demo_params)) ?w = (Inr [2], demo_queued)"
    by (simp add: demo_params_def demo_queued_def prod_eq_iff)
  have e: "ex_env demo_executor = demo_env" by (simp add: demo_executor_def)
  obtain p where p: "(bench_step (ex_env demo_executor))\<^sup>*\<^sup>* (new_bench (nat (bp_Workers demo_params)) [2], w_db demo_queued) (p, demo_drained)"
    "all_left p" "bo_errs p = []" using demo_pool_drains e by (auto simp: demo_params_def)
  have "map_sum id (map sm_Status) (fst (take_samples [2] ?w2)) = Inr [''CANCELLED'']" by code_simp
  then obtain ss w' where t: "take_samples [2] ?w2 = (Inr ss, w')"
    by (cases "take_samples [2] ?w2"; cases "fst (take_samples [2] ?w2)") auto
  note m = measures.measured [OF c refl p t, where ar = demo_exact and env = demo_machine and wall = second]
  moreover have "demo_wfl \<in> set (workflows (w_db ?w))" "Definition demo_env (w_id demo_wfl) (w_db ?w) = Inr demo_def" by code_simp+
  moreover have "reachable demo_env (w_db ?w)" using demo_reachable(1) by (simp add: demo_world_def)
  ultimately show ?thesis using bench_point_true [OF m] demo_others e by (auto simp: demo_params_def)
qed

text \<open>
  An in-process runner registers a worker and never sends a heartbeat for it.  Beside a
  coordinator, as in \<^verbatim>\<open>bench\<close>, it is declared lost while it works: the lease it holds is released
  before its time, the task goes back to the queue, and the result it brings is refused.
\<close>

lemma silent_runner_loses_its_task:
  "map wk_status (workers (snd (sweepWorkers demo_env 26000000000 demo_started))) = [WorkerLost]
   \<and> fst (CompleteTask demo_env 9 demo_task demo_out 27000000001
       (snd (expireLeases demo_env (\<lambda>_. False) 27000000000 (snd (sweepWorkers demo_env 26000000000 demo_started))))) = Inl ErrLeaseLost
   \<and> fst (CompleteTask demo_env 9 demo_task demo_out 27000000001 demo_started) = Inr ()"
  by (intro conjI) code_simp+

text \<open>
  Cancelling a run buries its waiting tasks without an event of their own, so the replay of the
  run still shows them waiting and counts none of them as lost.
\<close>

lemma cancelled_tasks_not_lost:
  "map t_status (tasks demo_cancelled) = [TaskSucceeded, TaskDead]
   \<and> map_sum id (\<lambda>s. (LostTasks s, ts_Status (task_of s ''b''))) (Reduce 2 (map scan_event (run_events 2 demo_cancelled)))
       = Inr (0, ''READY'')"
  by (intro conjI) code_simp+

end
